(* ===== verification/Algiz_Prelude.thy ===== *)
theory Algiz_Prelude
  imports Main "HOL-Library.Word" "HOL-Library.List_Lexorder" "HOL-Library.Char_ord"
begin

text \<open>
  Shared vocabulary of the development: the exceptions of the program as values, the parts of
  the C++ standard library the sources use (\<open>std::string::find\<close>, \<open>substr\<close>, the ordered
  \<open>std::map\<close>, unsigned 64-bit subtraction), and the generic lemmas about them.

  A byte string (\<open>std::string\<close>, \<open>std::string_view\<close>) is a HOL \<^typ>\<open>string\<close>: both are
  sequences of 8-bit characters.  \<open>npos\<close> is \<^const>\<open>None\<close>.  A \<open>size_t\<close> that only counts or
  indexes is a \<^typ>\<open>nat\<close>; where the code relies on, or suffers from, its width, it is a
  64-bit word or the wrap-around is written out (\<open>sub64\<close>).
\<close>

section \<open>Rule collections\<close>

named_theorems string_simps \<open>rewrite rules for the string primitives\<close>
named_theorems result_simps \<open>rewrite rules for results that may be an exception\<close>
named_theorems result_splits \<open>case splits for results that may be an exception\<close>

section \<open>Exceptions as values\<close>

text \<open>
  The exceptions the modelled code throws.  \<open>UndefinedBehaviour\<close> stands for an execution the
  C++ standard gives no meaning to (a read past the end of a view, a read of an uninitialised
  variable, an array index out of range); the model stops there instead of inventing a value.
\<close>

datatype exn =
    ParseError string
  | UnsupportedMethod string
  | InvalidArgument string
  | OutOfRange string
  | RuntimeError string
  | ChessError string
  | JsonOutOfRange string
  | JsonTypeError string
  | UndefinedBehaviour string

type_synonym 'a result = "exn + 'a"

fun rbind :: "'a result \<Rightarrow> ('a \<Rightarrow> 'b result) \<Rightarrow> 'b result" where
  "rbind (Inl e) f = Inl e"
| "rbind (Inr x) f = f x"

fun rmap :: "('a \<Rightarrow> 'b) \<Rightarrow> 'a result \<Rightarrow> 'b result" where
  "rmap f (Inl e) = Inl e"
| "rmap f (Inr x) = Inr (f x)"

lemma rbind_eq_Inr_iff [result_simps]: "rbind r f = Inr y \<longleftrightarrow> (\<exists>x. r = Inr x \<and> f x = Inr y)"
  by (cases r) auto

lemma rmap_eq_Inr_iff [result_simps]: "rmap f r = Inr y \<longleftrightarrow> (\<exists>x. r = Inr x \<and> y = f x)"
  by (cases r) auto

lemma rmap_eq_Inl_iff [result_simps]: "rmap f r = Inl e \<longleftrightarrow> r = Inl e"
  by (cases r) auto

section \<open>Unsigned 64-bit arithmetic\<close>

type_synonym size_t = "64 word"
type_synonym byte = "8 word"

lemma unat_byte_less [simp]: "unat (b :: byte) < 256"
proof -
  have "unat b < 2 ^ LENGTH(8)" by (rule unsigned_less)
  then show ?thesis by simp
qed

lemma unat_size_less: "unat (w :: size_t) < 2 ^ 64"
proof -
  have "unat w < 2 ^ LENGTH(64)" by (rule unsigned_less)
  then show ?thesis by simp
qed

lemma unat_size_of_nat: "n < 2 ^ 64 \<Longrightarrow> unat (of_nat n :: size_t) = n"
  by (simp add: unsigned_of_nat take_bit_nat_eq_self)

text \<open>\<open>a - b\<close> on \<open>size_t\<close>, for values below $2^{64}$: it wraps around.\<close>

definition sub64 :: "nat \<Rightarrow> nat \<Rightarrow> nat" where
  "sub64 a b = (a + 2 ^ 64 - b) mod 2 ^ 64"

lemma sub64_no_wrap: "b \<le> a \<Longrightarrow> a < 2 ^ 64 \<Longrightarrow> sub64 a b = a - b"
proof -
  assume le: "b \<le> a" and bound: "a < 2 ^ 64"
  from le have "a + 2 ^ 64 - b = (a - b) + 2 ^ 64" by (rule diff_add_assoc2 [symmetric, THEN sym])
  moreover from bound have "a - b < 2 ^ 64" by (rule less_imp_diff_less)
  ultimately show ?thesis by (simp only: sub64_def mod_add_self2 mod_less)
qed

lemma sub64_wrap: "a < b \<Longrightarrow> b \<le> 2 ^ 64 \<Longrightarrow> sub64 a b = 2 ^ 64 - (b - a)"
proof -
  assume lt: "a < b" and le: "b \<le> 2 ^ 64"
  from lt le have "a + 2 ^ 64 - b = 2 ^ 64 - (b - a)" by (simp only: diff_diff_right [OF less_imp_le] add.commute)
  moreover from lt have "2 ^ 64 - (b - a) < (2 ^ 64 :: nat)" by (intro diff_less) simp_all
  ultimately show ?thesis by (simp only: sub64_def mod_less)
qed

section \<open>Searching and slicing strings\<close>

text \<open>\<open>view.find(ch)\<close>: the first position of a character.\<close>

fun find_char :: "char \<Rightarrow> string \<Rightarrow> nat option" where
  "find_char c [] = None"
| "find_char c (x # xs) = (if x = c then Some 0 else map_option Suc (find_char c xs))"

text \<open>\<open>view.find(pattern)\<close>: the first position at which a pattern occurs.\<close>

fun find_str :: "string \<Rightarrow> string \<Rightarrow> nat option" where
  "find_str p [] = (if p = [] then Some 0 else None)"
| "find_str p (x # xs) =
     (if take (length p) (x # xs) = p then Some 0 else map_option Suc (find_str p xs))"

text \<open>
  \<open>view.substr(pos, n)\<close> for a position inside the view; the length is cut to what is left,
  and \<open>npos\<close> (\<^const>\<open>None\<close>) takes everything.
\<close>

definition substr :: "nat \<Rightarrow> nat option \<Rightarrow> string \<Rightarrow> string" where
  "substr pos n s = (case n of None \<Rightarrow> drop pos s | Some k \<Rightarrow> take k (drop pos s))"

lemma substr_simps [simp, string_simps]:
  "substr pos None s = drop pos s"
  "substr pos (Some k) s = take k (drop pos s)"
  by (simp_all add: substr_def)

lemma find_char_None [string_simps]: "find_char c s = None \<longleftrightarrow> c \<notin> set s"
  by (induction s) auto

lemma find_char_Some:
  "find_char c s = Some k \<Longrightarrow> k < length s \<and> s ! k = c \<and> c \<notin> set (take k s)"
  by (induction s arbitrary: k) (auto split: if_splits)

lemma find_char_append:
  "c \<notin> set p \<Longrightarrow> find_char c (p @ c # s) = Some (length p)"
  by (induction p) auto

lemma find_char_split:
  assumes "find_char c s = Some k"
  shows "s = take k s @ c # drop (Suc k) s"
  using find_char_Some [OF assms] id_take_nth_drop [of k s] by simp

lemma find_str_bound: "find_str p s = Some k \<Longrightarrow> k + length p \<le> length s"
proof (induction s arbitrary: k)
  case Nil
  then show ?case by (auto split: if_splits)
next
  case (Cons x xs)
  show ?case
  proof (cases "take (length p) (x # xs) = p")
    case True
    then have "length p \<le> length (x # xs)" by (metis length_take min.cobounded1)
    with True Cons.prems show ?thesis by simp
  next
    case False
    with Cons.prems Cons.IH show ?thesis by fastforce
  qed
qed

lemma find_str_split:
  "find_str p s = Some k \<Longrightarrow> s = take k s @ p @ drop (k + length p) s"
proof (induction s arbitrary: k)
  case Nil
  then show ?case by (auto split: if_splits)
next
  case (Cons x xs)
  show ?case
  proof (cases "take (length p) (x # xs) = p")
    case True
    with Cons.prems have "k = 0" by simp
    with True show ?thesis by (metis append_Nil append_take_drop_id plus_nat.add_0 take0)
  next
    case False
    with Cons.prems obtain j where "find_str p xs = Some j" "k = Suc j" by auto
    with Cons.IH [of j] show ?thesis by simp
  qed
qed

lemma find_str_single: "find_str [c] s = find_char c s"
  by (induction s) auto

section \<open>The ordered map\<close>

text \<open>
  \<open>std::map\<close> keeps its entries sorted by key and iterates in that order, which the code that
  prints headers and parameters shows to the outside.  It is modelled as a sorted association
  list.  The interface below is what the components rely on.
\<close>

fun omap_put :: "'k::linorder \<Rightarrow> 'v \<Rightarrow> ('k \<times> 'v) list \<Rightarrow> ('k \<times> 'v) list" where
  "omap_put k v [] = [(k, v)]"
| "omap_put k v ((k', v') # m) =
     (if k < k' then (k, v) # (k', v') # m
      else if k = k' then (k, v) # m
      else (k', v') # omap_put k v m)"

fun omap_del :: "'k::linorder \<Rightarrow> ('k \<times> 'v) list \<Rightarrow> ('k \<times> 'v) list" where
  "omap_del k [] = []"
| "omap_del k ((k', v') # m) = (if k = k' then m else (k', v') # omap_del k m)"

definition omap_ok :: "('k::linorder \<times> 'v) list \<Rightarrow> bool" where
  "omap_ok m \<longleftrightarrow> sorted_wrt (<) (map fst m)"

locale std_map =
  fixes empty :: 'm
    and get :: "'m \<Rightarrow> 'k \<Rightarrow> 'v option"
    and put :: "'k \<Rightarrow> 'v \<Rightarrow> 'm \<Rightarrow> 'm"
    and del :: "'k \<Rightarrow> 'm \<Rightarrow> 'm"
    and ok :: "'m \<Rightarrow> bool"
  assumes get_empty: "get empty k = None"
    and get_put: "ok m \<Longrightarrow> get (put k v m) k' = (if k' = k then Some v else get m k')"
    and get_del: "ok m \<Longrightarrow> get (del k m) k' = (if k' = k then None else get m k')"
    and ok_empty: "ok empty"
    and ok_put: "ok m \<Longrightarrow> ok (put k v m)"
    and ok_del: "ok m \<Longrightarrow> ok (del k m)"
begin

lemma get_put_same: "ok m \<Longrightarrow> get (put k v m) k = Some v"
  by (simp add: get_put)

lemma get_put_other: "ok m \<Longrightarrow> k' \<noteq> k \<Longrightarrow> get (put k v m) k' = get m k'"
  by (simp add: get_put)

lemma ok_fold_put: "ok m \<Longrightarrow> ok (fold (\<lambda>(k, v). put k v) kvs m)"
  by (induction kvs arbitrary: m) (auto simp: ok_put)

lemma get_fold_put_notin:
  "ok m \<Longrightarrow> k \<notin> fst ` set kvs \<Longrightarrow> get (fold (\<lambda>(k, v). put k v) kvs m) k = get m k"
proof (induction kvs arbitrary: m)
  case Nil
  then show ?case by simp
next
  case (Cons kv kvs)
  obtain k' v' where "kv = (k', v')" by (cases kv)
  with Cons show ?case by (auto simp: get_put ok_put)
qed

end

lemma set_fst_omap_put: "fst ` set (omap_put k v m) = insert k (fst ` set m)"
  by (induction k v m rule: omap_put.induct) auto

lemma set_fst_omap_del: "fst ` set (omap_del k m) \<subseteq> fst ` set m"
  by (induction k m rule: omap_del.induct) auto

lemma omap_ok_Cons [simp]:
  "omap_ok ((k, v) # m) \<longleftrightarrow> (\<forall>k' \<in> fst ` set m. k < k') \<and> omap_ok m"
  by (simp add: omap_ok_def)

lemma omap_ok_Nil [simp]: "omap_ok []"
  by (simp add: omap_ok_def)

lemma omap_ok_put: "omap_ok m \<Longrightarrow> omap_ok (omap_put k v m)"
  by (induction k v m rule: omap_put.induct) (auto simp: set_fst_omap_put)

lemma omap_ok_del: "omap_ok m \<Longrightarrow> omap_ok (omap_del k m)"
proof (induction k m rule: omap_del.induct)
  case (2 k k' v' m)
  then show ?case using set_fst_omap_del [of k m] by (force simp: image_subset_iff)
qed simp

lemma map_of_omap_put:
  "map_of (omap_put k v m) k' = (if k' = k then Some v else map_of m k')"
  by (induction k v m rule: omap_put.induct) auto

lemma map_of_omap_notin: "omap_ok m \<Longrightarrow> \<forall>k' \<in> fst ` set m. k < k' \<Longrightarrow> map_of m k = None"
  by (metis less_irrefl map_of_eq_None_iff)

lemma map_of_omap_del:
  "omap_ok m \<Longrightarrow> map_of (omap_del k m) k' = (if k' = k then None else map_of m k')"
  by (induction k m rule: omap_del.induct) (auto simp: map_of_omap_notin)

interpretation omap: std_map "[]" map_of omap_put omap_del omap_ok
  by unfold_locales
    (simp_all add: map_of_omap_put map_of_omap_del omap_ok_put omap_ok_del)

section \<open>Pairs of tables that mirror each other\<close>

definition inverse_maps :: "('a \<rightharpoonup> 'b) \<Rightarrow> ('b \<rightharpoonup> 'a) \<Rightarrow> bool" where
  "inverse_maps f g \<longleftrightarrow> (\<forall>a b. f a = Some b \<longleftrightarrow> g b = Some a)"

lemma inverse_mapsD: "inverse_maps f g \<Longrightarrow> f a = Some b \<longleftrightarrow> g b = Some a"
  by (simp add: inverse_maps_def)

lemma inverse_maps_put:
  "inverse_maps f g \<Longrightarrow> f a = None \<Longrightarrow> g b = None \<Longrightarrow> inverse_maps (f(a \<mapsto> b)) (g(b \<mapsto> a))"
  by (auto simp: inverse_maps_def) (metis option.distinct(1))+

lemma inverse_maps_del:
  "inverse_maps f g \<Longrightarrow> f a = Some b \<Longrightarrow> inverse_maps (f(a := None)) (g(b := None))"
  by (auto simp: inverse_maps_def) (metis option.inject)+

lemma inverse_maps_empty [simp]: "inverse_maps Map.empty Map.empty"
  by (simp add: inverse_maps_def)

section \<open>Lists\<close>

lemma concat_map_append: "concat (map f (xs @ ys)) = concat (map f xs) @ concat (map f ys)"
  by simp

lemma set_concat_map: "set (concat (map f xs)) = (\<Union>x \<in> set xs. set (f x))"
  by auto

end
