(* ===== verification/Util_Strings.thy ===== *)
theory Util_Strings
  imports Algiz_Prelude
begin

text \<open>
  The string utilities of \<open>src/util/Util.cpp\<close>, \<open>include/util/Util.h\<close> and
  \<open>src/util/StringVector.cpp\<close>: splitting and joining, number parsing, the URL, HTML and
  literal escapes, hexadecimal output.  The escapes share one contract, stated as the locales
  \<open>char_escaper\<close> and \<open>decodable_escaper\<close> and interpreted for each of them.
\<close>

section \<open>Splitting and joining\<close>

text \<open>
  The loop of \<open>split\<close>.  Its state \<open>next\<close> is the position of the delimiter found last;
  here it is represented by \<open>rest\<close>, the text after that delimiter.  With an empty delimiter
  the search never advances and the loop does not end, which is the value \<^const>\<open>None\<close>.
\<close>

definition keep_piece :: "bool \<Rightarrow> string \<Rightarrow> string list" where
  "keep_piece condense sub = (if sub \<noteq> [] \<or> \<not> condense then [sub] else [])"

partial_function (option) split_loop ::
  "string \<Rightarrow> bool \<Rightarrow> string \<Rightarrow> string list \<Rightarrow> string list option" where
  "split_loop delimiter condense rest out =
     (case find_str delimiter rest of
        None \<Rightarrow> Some (out @ keep_piece condense rest)
      | Some k \<Rightarrow> split_loop delimiter condense (drop (k + length delimiter) rest)
                    (out @ keep_piece condense (take k rest)))"

definition split_view :: "string \<Rightarrow> string \<Rightarrow> bool \<Rightarrow> string list option" where
  "split_view str delimiter condense =
     (if str = [] then Some []
      else case find_str delimiter str of
        None \<Rightarrow> Some [str]
      | Some next \<Rightarrow> split_loop delimiter condense (drop (next + length delimiter) str)
                       [substr 0 (Some next) str])"

text \<open>\<open>join\<close>: the delimiter is written before every item but the first.\<close>

fun join_loop :: "bool \<Rightarrow> string list \<Rightarrow> string \<Rightarrow> string" where
  "join_loop first [] delimiter = []"
| "join_loop first (item # items) delimiter =
     (if first then [] else delimiter) @ item @ join_loop False items delimiter"

definition join :: "string list \<Rightarrow> string \<Rightarrow> string" where
  "join container delimiter = join_loop True container delimiter"

text \<open>\<open>StringVector::operator==\<close>: a null pointer in the pattern matches any string.\<close>

fun stringvector_eq_loop :: "string list \<Rightarrow> string option list \<Rightarrow> bool" where
  "stringvector_eq_loop [] _ = True"
| "stringvector_eq_loop (s # strings) [] = True"
| "stringvector_eq_loop (s # strings) (other # others) =
     (case other of None \<Rightarrow> stringvector_eq_loop strings others
      | Some o' \<Rightarrow> (if o' \<noteq> s then False else stringvector_eq_loop strings others))"

definition stringvector_eq :: "string list \<Rightarrow> string option list \<Rightarrow> bool" where
  "stringvector_eq strings others =
     (if length others \<noteq> length strings then False else stringvector_eq_loop strings others)"

fun stringvector_contains :: "string list \<Rightarrow> string \<Rightarrow> bool" where
  "stringvector_contains [] needle = False"
| "stringvector_contains (s # strings) needle =
     (if s = needle then True else stringvector_contains strings needle)"

section \<open>Characters\<close>

definition ord :: "char \<Rightarrow> nat" where
  "ord c = of_char c"

definition isNumericChar :: "char \<Rightarrow> bool" where
  "isNumericChar ch \<longleftrightarrow> 48 \<le> ord ch \<and> ord ch \<le> 57"

fun isNumericView_loop :: "string \<Rightarrow> bool" where
  "isNumericView_loop [] = True"
| "isNumericView_loop (ch # str) = (if \<not> isNumericChar ch then False else isNumericView_loop str)"

definition isNumericView :: "string \<Rightarrow> bool" where
  "isNumericView str = (if str = [] then False else isNumericView_loop str)"

definition lower_char :: "char \<Rightarrow> char" where
  "lower_char c = (if 65 \<le> ord c \<and> ord c \<le> 90 then char_of (ord c + 32) else c)"

definition upper_char :: "char \<Rightarrow> char" where
  "upper_char c = (if 97 \<le> ord c \<and> ord c \<le> 122 then char_of (ord c - 32) else c)"

definition toLower :: "string \<Rightarrow> string" where
  "toLower view = map lower_char view"

definition toUpper :: "string \<Rightarrow> string" where
  "toUpper view = map upper_char view"

text \<open>\<open>std::isxdigit\<close> and the two decoding branches of \<open>unescape\<close>.\<close>

definition isxdigit :: "char \<Rightarrow> bool" where
  "isxdigit c \<longleftrightarrow> isNumericChar c \<or> (97 \<le> ord c \<and> ord c \<le> 102) \<or> (65 \<le> ord c \<and> ord c \<le> 70)"

definition xdigit_value :: "char \<Rightarrow> nat" where
  "xdigit_value c =
     (if 97 \<le> ord c \<and> ord c \<le> 102 then ord c - 97 + 10
      else if 65 \<le> ord c \<and> ord c \<le> 70 then ord c - 65 + 10
      else ord c - 48)"

section \<open>Percent decoding\<close>

text \<open>
  \<open>unescape\<close>.  The loop runs over positions \<open>i\<close>; \<open>rest\<close> is the text from \<open>i\<close> on.  The
  bounds test is \<open>size - 3 < i\<close> on \<open>size_t\<close>, which wraps around for a path of fewer than
  three bytes; the two look-ahead reads are then past the end of the view.
\<close>

fun unescape_loop :: "bool \<Rightarrow> nat \<Rightarrow> nat \<Rightarrow> string \<Rightarrow> string result" where
  "unescape_loop plus_to_space sz i [] = Inr []"
| "unescape_loop plus_to_space sz i (ch # rest) =
     (if plus_to_space \<and> ch = CHR ''+''
      then rmap (Cons (CHR '' '')) (unescape_loop plus_to_space sz (i + 1) rest)
      else if ch \<noteq> CHR ''%'' \<or> sub64 sz 3 < i
      then rmap (Cons ch) (unescape_loop plus_to_space sz (i + 1) rest)
      else (case rest of
          next # after # rest' \<Rightarrow>
            (if \<not> isxdigit next \<or> \<not> isxdigit after
             then rmap (Cons ch) (unescape_loop plus_to_space sz (i + 1) rest)
             else rmap (Cons (char_of (16 * xdigit_value next + xdigit_value after)))
                    (unescape_loop plus_to_space sz (i + 3) rest'))
        | _ \<Rightarrow> Inl (UndefinedBehaviour ''unescape: read past the end of the view'')))"

definition unescape :: "string \<Rightarrow> bool \<Rightarrow> string result" where
  "unescape path plus_to_space =
     (if find_char (CHR ''%'') path = None
         \<and> \<not> (plus_to_space \<and> find_char (CHR ''+'') path \<noteq> None)
      then Inr path
      else unescape_loop plus_to_space (length path) 0 path)"

section \<open>Escapes\<close>

definition nibble_char :: "nat \<Rightarrow> char" where
  "nibble_char nibble = char_of (if nibble < 10 then nibble + 48 else nibble + 97 - 10)"

definition charHex :: "char \<Rightarrow> string" where
  "charHex ch = [nibble_char (ord ch div 16 mod 16), nibble_char (ord ch mod 16)]"

definition hexString :: "string \<Rightarrow> string" where
  "hexString s = concat (map (\<lambda>b. [nibble_char (ord b div 16), nibble_char (ord b mod 16)]) s)"

definition url_char :: "char \<Rightarrow> string" where
  "url_char ch =
     (if ch = CHR '' '' then ''+''
      else if ch = CHR ''.'' \<or> ch = CHR ''_'' then [ch]
      else if ord ch < 48 \<or> (57 < ord ch \<and> ord ch < 65) \<or> (90 < ord ch \<and> ord ch < 97)
           \<or> 122 < ord ch
      then CHR ''%'' # charHex ch
      else [ch])"

definition escapeURL :: "string \<Rightarrow> string" where
  "escapeURL view = concat (map url_char view)"

definition html_char :: "char \<Rightarrow> string" where
  "html_char ch =
     (if ch = CHR ''<'' then ''&lt;''
      else if ch = CHR ''>'' then ''&gt;''
      else if ch = CHR 0x22 then ''&quot;''
      else [ch])"

definition escapeHTML :: "string \<Rightarrow> string" where
  "escapeHTML view = concat (map html_char view)"

definition quote_char :: "char \<Rightarrow> string" where
  "quote_char ch = (if ch = CHR 0x22 then [CHR 0x5C, CHR 0x22] else [ch])"

definition escapeQuotes :: "string \<Rightarrow> string" where
  "escapeQuotes view = concat (map quote_char view)"

definition ansi_char :: "char \<Rightarrow> string" where
  "ansi_char ch =
     (if ch = CHR 0x1B then
        [CHR 0x1B] @ ''[2m'' @ [CHR 0x5C] @ ''x1b'' @ [CHR 0x1B] @ ''[22m''
      else if ch = CHR 0x09 then [CHR 0x5C, CHR ''t'']
      else if ch = CHR 0x0D then [CHR 0x5C, CHR ''r'']
      else if ch = CHR 0x0A then [CHR 0x5C, CHR ''n'']
      else if ch = CHR 0x0B then [CHR 0x5C, CHR ''v'']
      else if ch = CHR 0x08 then [CHR 0x5C, CHR ''b'']
      else if ch = CHR 0x07 then [CHR 0x5C, CHR ''a'']
      else if ch = CHR 0x0C then [CHR 0x5C, CHR ''f'']
      else if ch = CHR 0x00 then [CHR 0x5C, CHR ''0'']
      else if ch = CHR 0x5C then [CHR 0x5C, CHR 0x5C]
      else [ch])"

definition escapeANSI :: "string \<Rightarrow> string" where
  "escapeANSI view = concat (map ansi_char view)"

definition literal_char :: "char \<Rightarrow> string" where
  "literal_char ch =
     (if ch = CHR 0x09 then [CHR 0x5C, CHR ''t'']
      else if ch = CHR 0x0D then [CHR 0x5C, CHR ''r'']
      else if ch = CHR 0x0A then [CHR 0x5C, CHR ''n'']
      else if ch = CHR 0x0B then [CHR 0x5C, CHR ''v'']
      else if ch = CHR 0x08 then [CHR 0x5C, CHR ''b'']
      else if ch = CHR 0x07 then [CHR 0x5C, CHR ''a'']
      else if ch = CHR 0x0C then [CHR 0x5C, CHR ''f'']
      else if ch = CHR 0x00 then [CHR 0x5C, CHR ''0'']
      else if ch = CHR 0x5C then [CHR 0x5C, CHR 0x5C]
      else if ch = CHR 0x22 then [CHR 0x5C, CHR 0x22]
      else if ch = CHR 0x1B then [CHR 0x5C] @ ''x1b''
      else [ch])"

definition escape :: "string \<Rightarrow> string" where
  "escape view = concat (map literal_char view)"

section \<open>Searching from the end\<close>

text \<open>\<open>std::find_end\<close>: the last position at which a non-empty needle occurs.\<close>

fun find_end :: "string \<Rightarrow> string \<Rightarrow> nat option" where
  "find_end needle [] = None"
| "find_end needle (x # xs) =
     (case find_end needle xs of
        Some k \<Rightarrow> Some (Suc k)
      | None \<Rightarrow> (if take (length needle) (x # xs) = needle then Some 0 else None))"

definition findLast :: "string \<Rightarrow> string \<Rightarrow> nat option" where
  "findLast haystack needle =
     (if needle = [] then Some (length haystack) else find_end needle haystack)"

section \<open>Numbers\<close>

text \<open>
  Number parsing, in the default base 10 that every caller uses.  The overloads differ: the
  ones on \<open>std::string\<close> and \<open>const char *\<close> use \<open>strtol\<close>/\<open>strtoul\<close>, which skip blanks, accept
  a sign, saturate, and must consume the whole string; the ones on \<open>std::string_view\<close> use
  \<open>std::from_chars\<close>, which accepts digits only (and a minus sign for signed types), ignores
  what follows them, and on overflow leaves its output, here an uninitialised variable, as it
  was.
\<close>

definition digits_value :: "string \<Rightarrow> nat" where
  "digits_value ds = foldl (\<lambda>a c. 10 * a + (ord c - 48)) 0 ds"

definition not_an_integer :: "string \<Rightarrow> exn" where
  "not_an_integer str = InvalidArgument (''Not an integer: '' @ [CHR 0x22] @ str @ [CHR 0x22])"

definition c_isspace :: "char \<Rightarrow> bool" where
  "c_isspace c \<longleftrightarrow> ord c = 32 \<or> (9 \<le> ord c \<and> ord c \<le> 13)"

definition sign_split :: "string \<Rightarrow> bool \<times> string" where
  "sign_split s =
     (case s of
        c # t \<Rightarrow> (if c = CHR ''-'' then (True, t) else if c = CHR ''+'' then (False, t) else (False, s))
      | [] \<Rightarrow> (False, []))"

text \<open>
  \<open>strtol\<close> and \<open>strtoul\<close> on a C string: the magnitude and sign read, and the unread rest (the
  whole string if there is no digit).
\<close>

definition strto_scan :: "string \<Rightarrow> (bool \<times> nat) \<times> string" where
  "strto_scan s =
     (let (neg, t) = sign_split (dropWhile c_isspace s); ds = takeWhile isNumericChar t
      in if ds = [] then ((False, 0), s) else ((neg, digits_value ds), drop (length ds) t))"

definition clamp_long :: "bool \<Rightarrow> nat \<Rightarrow> int" where
  "clamp_long neg v =
     (if neg then max (- (2 ^ 63)) (- int v) else min (2 ^ 63 - 1) (int v))"

definition clamp_ulong :: "bool \<Rightarrow> nat \<Rightarrow> nat" where
  "clamp_ulong neg v =
     (if 2 ^ 64 \<le> v then 2 ^ 64 - 1 else if neg then (2 ^ 64 - v) mod 2 ^ 64 else v)"

definition c_str :: "string \<Rightarrow> string" where
  "c_str str = takeWhile (\<lambda>c. c \<noteq> CHR 0x00) str"

definition parseLong_string :: "string \<Rightarrow> int result" where
  "parseLong_string str =
     (let ((neg, v), rest) = strto_scan (c_str str)
      in if length (c_str str) - length rest \<noteq> length str then Inl (not_an_integer str)
         else Inr (clamp_long neg v))"

definition parseUlong_string :: "string \<Rightarrow> nat result" where
  "parseUlong_string str =
     (let ((neg, v), rest) = strto_scan (c_str str)
      in if length (c_str str) - length rest \<noteq> length str then Inl (not_an_integer str)
         else Inr (clamp_ulong neg v))"

definition parseLong_view :: "string \<Rightarrow> int result" where
  "parseLong_view view =
     (let (neg, t) = (case view of c # t \<Rightarrow> if c = CHR ''-'' then (True, t) else (False, view)
                      | [] \<Rightarrow> (False, []));
          ds = takeWhile isNumericChar t;
          v = (if neg then - int (digits_value ds) else int (digits_value ds))
      in if ds = [] then Inl (not_an_integer view)
         else if v < - (2 ^ 63) \<or> 2 ^ 63 \<le> v
         then Inl (UndefinedBehaviour ''parseLong: uninitialised result'')
         else Inr v)"

definition parseUlong_view :: "string \<Rightarrow> size_t result" where
  "parseUlong_view view =
     (let ds = takeWhile isNumericChar view
      in if ds = [] then Inl (not_an_integer view)
         else if 2 ^ 64 \<le> digits_value ds
         then Inl (UndefinedBehaviour ''parseUlong: uninitialised result'')
         else Inr (of_nat (digits_value ds)))"

text \<open>\<open>std::to_string\<close> of an unsigned number.\<close>

fun to_string_nat :: "nat \<Rightarrow> string" where
  "to_string_nat n =
     (if n < 10 then [char_of (48 + n)] else to_string_nat (n div 10) @ [char_of (48 + n mod 10)])"

definition to_string_int :: "int \<Rightarrow> string" where
  "to_string_int i =
     (if i < 0 then CHR ''-'' # to_string_nat (nat (- i)) else to_string_nat (nat i))"

declare to_string_nat.simps [simp del]

section \<open>Reference definitions\<close>

text \<open>
  What percent decoding should do, with no positions and no bounds test: a \<open>%\<close> followed by
  two hexadecimal digits is the byte they denote, everything else stands for itself.
\<close>

fun pct_decode :: "bool \<Rightarrow> string \<Rightarrow> string" where
  "pct_decode plus_to_space [] = []"
| "pct_decode plus_to_space (ch # rest) =
     (if plus_to_space \<and> ch = CHR ''+'' then CHR '' '' # pct_decode plus_to_space rest
      else (case rest of
          a # b # rest' \<Rightarrow>
            (if ch = CHR ''%'' \<and> isxdigit a \<and> isxdigit b
             then char_of (16 * xdigit_value a + xdigit_value b) # pct_decode plus_to_space rest'
             else ch # pct_decode plus_to_space rest)
        | _ \<Rightarrow> ch # pct_decode plus_to_space rest))"

text \<open>
  The part of the C++ lexer that reads the body of a narrow string literal up to its closing
  quote: simple escapes, octal escapes of up to three digits, hexadecimal escapes of any
  length.  The result is the string denoted and the text after the quote.
\<close>

definition is_octal :: "char \<Rightarrow> bool" where
  "is_octal c \<longleftrightarrow> 48 \<le> ord c \<and> ord c \<le> 55"

definition simple_escape :: "char \<Rightarrow> char option" where
  "simple_escape c =
     map_of [(CHR ''t'', CHR 0x09), (CHR ''r'', CHR 0x0D), (CHR ''n'', CHR 0x0A),
             (CHR ''v'', CHR 0x0B), (CHR ''b'', CHR 0x08), (CHR ''a'', CHR 0x07),
             (CHR ''f'', CHR 0x0C), (CHR 0x5C, CHR 0x5C), (CHR 0x22, CHR 0x22)] c"

definition octal_value :: "string \<Rightarrow> nat" where
  "octal_value ds = foldl (\<lambda>a c. 8 * a + (ord c - 48)) 0 ds"

definition hex_value :: "string \<Rightarrow> nat" where
  "hex_value ds = foldl (\<lambda>a c. 16 * a + xdigit_value c) 0 ds"

fun lex_literal :: "nat \<Rightarrow> string \<Rightarrow> (string \<times> string) option" where
  "lex_literal 0 s = None"
| "lex_literal (Suc fuel) [] = None"
| "lex_literal (Suc fuel) (c # s) =
     (if c = CHR 0x22 then Some ([], s)
      else if c = CHR 0x0A then None
      else if c \<noteq> CHR 0x5C then map_option (\<lambda>(t, r). (c # t, r)) (lex_literal fuel s)
      else (case s of
          [] \<Rightarrow> None
        | d # s' \<Rightarrow>
            (case simple_escape d of
               Some x \<Rightarrow> map_option (\<lambda>(t, r). (x # t, r)) (lex_literal fuel s')
             | None \<Rightarrow>
                 (if d = CHR ''x''
                  then (let hs = takeWhile isxdigit s'
                        in if hs = [] \<or> 256 \<le> hex_value hs then None
                           else map_option (\<lambda>(t, r). (char_of (hex_value hs) # t, r))
                                  (lex_literal fuel (drop (length hs) s')))
                  else if is_octal d
                  then (let os = takeWhile is_octal (take 3 s)
                        in if 256 \<le> octal_value os then None
                           else map_option (\<lambda>(t, r). (char_of (octal_value os) # t, r))
                                  (lex_literal fuel (drop (length os) s)))
                  else None))))"

section \<open>Contracts of the escapes\<close>

locale char_escaper =
  fixes esc :: "char \<Rightarrow> string" and bad :: "char set"
  assumes esc_safe: "set (esc c) \<inter> bad = {}"
begin

lemma escaped_safe: "set (concat (map esc s)) \<inter> bad = {}"
  using esc_safe by (fastforce simp: set_concat_map)

end

locale decodable_escaper =
  fixes esc :: "char \<Rightarrow> string" and dec :: "string \<Rightarrow> string"
  assumes dec_nil: "dec [] = []"
    and dec_esc: "dec (esc c @ s) = c # dec s"
begin

lemma dec_inverse: "dec (concat (map esc s)) = s"
  by (induction s) (simp_all add: dec_nil dec_esc)

lemma escape_inj: "concat (map esc s) = concat (map esc t) \<longleftrightarrow> s = t"
  by (metis dec_inverse)

end

section \<open>Characters and digits\<close>

lemma ord_less [simp]: "ord c < 256"
  by (simp add: ord_def)

lemma ord_char_of [simp]: "n < 256 \<Longrightarrow> ord (char_of n) = n"
  by (simp add: ord_def)

lemma char_of_ord [simp]: "char_of (ord c) = c"
  by (simp add: ord_def)

lemma ord_eq_iff: "ord c = ord d \<longleftrightarrow> c = d"
  by (metis char_of_ord)

lemma isxdigit_nibble [simp]: "n < 16 \<Longrightarrow> isxdigit (nibble_char n)"
  by (auto simp: isxdigit_def nibble_char_def isNumericChar_def)

lemma xdigit_value_nibble [simp]: "n < 16 \<Longrightarrow> xdigit_value (nibble_char n) = n"
  by (auto simp: xdigit_value_def nibble_char_def)

lemma nibbles_of_byte: "16 * (ord c div 16) + ord c mod 16 = ord c"
  by simp

lemma ord_div_16 [simp]: "ord c div 16 < 16"
  using ord_less [of c] by (simp add: less_mult_imp_div_less)

lemma lower_char_idem [simp]: "lower_char (lower_char c) = lower_char c"
  by (auto simp: lower_char_def)

lemma toLower_idem [simp]: "toLower (toLower s) = toLower s"
  by (simp add: toLower_def comp_def)

lemma length_toLower [simp]: "length (toLower s) = length s"
  by (simp add: toLower_def)

lemma char_eq_ord: "c = d \<longleftrightarrow> ord c = ord d"
  by (simp add: ord_eq_iff)

lemma ord_literal [simp]:
  "ord (CHR ''+'') = 43" "ord (CHR '' '') = 32" "ord (CHR ''%'') = 37" "ord (CHR ''.'') = 46"
  "ord (CHR ''_'') = 95" "ord (CHR ''-'') = 45" "ord (CHR ''<'') = 60" "ord (CHR ''>'') = 62"
  "ord (CHR 0x22) = 34" "ord (CHR 0x5C) = 92"
  by (simp_all add: ord_def)

section \<open>Percent encoding and decoding\<close>

declare unescape_loop.simps(2) [simp del]
declare pct_decode.simps(2) [simp del]

lemmas unescape_loop_Cons = unescape_loop.simps(2)
lemmas pct_decode_Cons = pct_decode.simps(2)

lemma unescape_loop_pct_decode:
  "\<lbrakk>sz = i + length rest; 3 \<le> sz; sz < 2 ^ 64\<rbrakk>
   \<Longrightarrow> unescape_loop plus_to_space sz i rest = Inr (pct_decode plus_to_space rest)"
proof (induction plus_to_space sz i rest rule: unescape_loop.induct)
  case (1 plus_to_space sz i)
  then show ?case by simp
next
  case (2 plus_to_space sz i ch rest)
  have "sub64 sz 3 = sz - 3" using "2.prems" by (intro sub64_no_wrap)
  then have bound: "sub64 sz 3 < i \<longleftrightarrow> length rest < 2" using "2.prems" by auto
  show ?case
    using 2 bound
    by (subst unescape_loop_Cons, subst pct_decode_Cons) (auto split: list.splits)
qed

lemma unescape_loop_plain:
  "ch \<noteq> CHR ''%'' \<Longrightarrow> unescape_loop plus_to_space sz i (ch # rest) =
     rmap (Cons (if plus_to_space \<and> ch = CHR ''+'' then CHR '' '' else ch))
       (unescape_loop plus_to_space sz (i + 1) rest)"
  by (simp add: unescape_loop_Cons)

lemma pct_decode_plain:
  "ch \<noteq> CHR ''%'' \<Longrightarrow> pct_decode plus_to_space (ch # rest) =
     (if plus_to_space \<and> ch = CHR ''+'' then CHR '' '' else ch) # pct_decode plus_to_space rest"
  by (subst pct_decode_Cons) (auto split: list.splits)

lemma pct_decode_id:
  "CHR ''%'' \<notin> set s \<Longrightarrow> \<not> (plus_to_space \<and> CHR ''+'' \<in> set s) \<Longrightarrow> pct_decode plus_to_space s = s"
  by (induction s) (auto simp: pct_decode_plain)

lemma unescape_pct_decode:
  assumes "CHR ''%'' \<notin> set path \<or> 3 \<le> length path" and "length path < 2 ^ 64"
  shows "unescape path plus_to_space = Inr (pct_decode plus_to_space path)"
proof (cases "CHR ''%'' \<notin> set path")
  case True
  have "unescape_loop plus_to_space sz i rest = Inr (pct_decode plus_to_space rest)"
    if "CHR ''%'' \<notin> set rest" for sz i rest
    using that by (induction rest arbitrary: i) (auto simp: unescape_loop_plain pct_decode_plain)
  with True show ?thesis by (auto simp: unescape_def string_simps pct_decode_id)
next
  case False
  with assms show ?thesis
    by (auto simp: unescape_def string_simps unescape_loop_pct_decode)
qed

lemma unescape_loop_short:
  "\<lbrakk>sz < 3; i + length rest = sz; CHR ''%'' \<in> set rest\<rbrakk>
   \<Longrightarrow> unescape_loop plus_to_space sz i rest =
       Inl (UndefinedBehaviour ''unescape: read past the end of the view'')"
proof (induction plus_to_space sz i rest rule: unescape_loop.induct)
  case (1 plus_to_space sz i)
  then show ?case by simp
next
  case (2 plus_to_space sz i ch rest)
  have "sub64 sz 3 = 2 ^ 64 - (3 - sz)" using "2.prems" by (intro sub64_wrap) simp_all
  then have "\<not> sub64 sz 3 < i" using "2.prems" by simp
  with 2 show ?case
    by (subst unescape_loop_Cons) (auto simp: result_simps split: list.splits)
qed

text \<open>
  (C38) \<open>unescape\<close> is defined exactly where its look-ahead stays inside the path: on every path
  of at least three bytes, and on a shorter one that has no percent sign, it computes the
  percent decoding of the path; on a path of one or two bytes that contains a percent sign,
  the unsigned test \<open>size - 3 < i\<close> wraps around and the code reads past the end of the view.
\<close>

theorem unescape_correct:
  assumes "length path < 2 ^ 64"
  shows "unescape path plus_to_space =
    (if CHR ''%'' \<in> set path \<and> length path < 3
     then Inl (UndefinedBehaviour ''unescape: read past the end of the view'')
     else Inr (pct_decode plus_to_space path))"
proof (cases "CHR ''%'' \<in> set path \<and> length path < 3")
  case True
  with unescape_loop_short [of "length path" 0 path plus_to_space]
  show ?thesis by (auto simp: unescape_def string_simps)
next
  case False
  then show ?thesis using unescape_pct_decode [OF _ assms] by auto
qed

theorem unescape_correct_witness:
  "length ''%2'' < 2 ^ 64 \<and> length ''a%2Fb+c'' < 2 ^ 64
   \<and> unescape ''%2'' True = Inl (UndefinedBehaviour ''unescape: read past the end of the view'')
   \<and> unescape ''a%2Fb+c'' True = Inr ''a/b c''"
  using unescape_correct [of "''%2''" True] unescape_correct [of "''a%2Fb+c''" True]
  by (simp add: pct_decode_Cons isxdigit_def xdigit_value_def isNumericChar_def ord_def char_of_def bit_0)

lemma pct_decode_url_char: "pct_decode True (url_char c @ s) = c # pct_decode True s"
proof -
  have byte: "ord c div 16 mod 16 = ord c div 16" by simp
  consider (space) "c = CHR '' ''" | (kept) "url_char c = [c]" "c \<noteq> CHR ''+''" "c \<noteq> CHR ''%''"
    | (hex) "url_char c = CHR ''%'' # charHex c"
  proof (cases "url_char c = [c]")
    case True
    then have "c \<noteq> CHR ''+''" "c \<noteq> CHR ''%''" by (auto simp: url_char_def charHex_def ord_def)
    with True show ?thesis using kept by blast
  next
    case False
    then show ?thesis using space hex by (auto simp: url_char_def split: if_splits)
  qed
  then show ?thesis
  proof cases
    case space
    then show ?thesis by (simp add: url_char_def pct_decode_Cons)
  next
    case kept
    then show ?thesis by (auto simp: pct_decode_Cons split: list.splits)
  next
    case hex
    then show ?thesis by (simp add: charHex_def byte nibbles_of_byte pct_decode_Cons)
  qed
qed

interpretation url: decodable_escaper url_char "pct_decode True"
  by unfold_locales (simp_all add: pct_decode_url_char)

lemma escapeURL_short:
  assumes "CHR ''%'' \<in> set (escapeURL s)"
  shows "3 \<le> length (escapeURL s)"
proof -
  from assms obtain c where "c \<in> set s" "CHR ''%'' \<in> set (url_char c)"
    by (auto simp: escapeURL_def)
  then have "length (url_char c) = 3"
    by (auto simp: url_char_def charHex_def char_eq_ord split: if_splits)
  moreover have "length (url_char c) \<le> length (escapeURL s)"
    using \<open>c \<in> set s\<close> by (auto simp: escapeURL_def length_concat intro!: member_le_sum_list)
  ultimately show ?thesis by simp
qed

text \<open>
  Round trip of the URL codec: decoding what \<open>escapeURL\<close> produced gives back the
  original bytes, and the decoder never leaves its defined domain on such text.
\<close>

lemma unescape_escapeURL:
  assumes "length (escapeURL s) < 2 ^ 64"
  shows "unescape (escapeURL s) True = Inr s"
  using unescape_pct_decode [OF _ assms, of True] escapeURL_short [of s] url.dec_inverse [of s]
  by (auto simp: escapeURL_def)

lemma unescape_escapeURL_example:
  "length (escapeURL ''a b%/+'') < 2 ^ 64 \<and> unescape (escapeURL ''a b%/+'') True = Inr ''a b%/+''"
proof -
  have "length (escapeURL ''a b%/+'') < 2 ^ 64"
    by (simp add: escapeURL_def url_char_def charHex_def nibble_char_def ord_def)
  with unescape_escapeURL [OF this] show ?thesis by simp
qed

section \<open>Splitting and joining, verified\<close>

text \<open>The fields of a text between the occurrences of a delimiter.\<close>

function pieces :: "string \<Rightarrow> string \<Rightarrow> string list" where
  "pieces d s =
     (case find_str d s of
        None \<Rightarrow> [s]
      | Some k \<Rightarrow> (if d = [] then [s] else take k s # pieces d (drop (k + length d) s)))"
  by pat_completeness auto
termination
proof (relation "measure (\<lambda>(d, s). length s)", goal_cases)
  case 1
  then show ?case by simp
next
  case (2 d s k)
  then show ?case using find_str_bound [of d s k] by (cases d; cases s) auto
qed

declare pieces.simps [simp del]

lemma find_str_take_None: "find_str d s = Some k \<Longrightarrow> d \<noteq> [] \<Longrightarrow> find_str d (take k s) = None"
proof (induction s arbitrary: k)
  case Nil
  then show ?case by (simp split: if_splits)
next
  case (Cons x xs)
  show ?case
  proof (cases "take (length d) (x # xs) = d")
    case True
    with Cons.prems show ?thesis by simp
  next
    case False
    with Cons.prems obtain j where j: "find_str d xs = Some j" "k = Suc j" by auto
    have "take (length d) (x # take j xs) \<noteq> d"
    proof
      assume eq: "take (length d) (x # take j xs) = d"
      then have "length d \<le> Suc j" by (metis length_Cons length_take min.bounded_iff min.cobounded1 nat_le_linear not_less_eq_eq)
      then have "take (length d) (take (Suc j) (x # xs)) = take (length d) (x # xs)"
        by (simp only: take_take min.absorb1)
      with eq False show False by simp
    qed
    with j Cons.IH [of j] Cons.prems(2) show ?thesis by simp
  qed
qed

lemma pieces_no_delimiter: "d \<noteq> [] \<Longrightarrow> p \<in> set (pieces d s) \<Longrightarrow> find_str d p = None"
proof (induction d s rule: pieces.induct)
  case (1 d s)
  then show ?case
    by (subst (asm) (2) pieces.simps) (auto split: option.splits dest: find_str_take_None)
qed

lemma pieces_ne: "pieces d s \<noteq> []"
  by (subst pieces.simps) (simp split: option.splits)

lemma join_loop_False: "join_loop False ps d = (if ps = [] then [] else d @ join ps d)"
  by (cases ps) (simp_all add: join_def)

lemma join_Cons: "join (p # ps) d = p @ (if ps = [] then [] else d @ join ps d)"
  by (simp add: join_def join_loop_False [unfolded join_def])

lemma join_pieces: "d \<noteq> [] \<Longrightarrow> join (pieces d s) d = s"
proof (induction d s rule: pieces.induct)
  case (1 d s)
  show ?case
  proof (cases "find_str d s")
    case None
    then show ?thesis by (subst pieces.simps) (simp add: join_Cons)
  next
    case (Some k)
    with 1 have "join (pieces d (drop (k + length d) s)) d = drop (k + length d) s" by simp
    with Some "1.prems" show ?thesis
      using find_str_split [OF Some] by (subst pieces.simps) (simp add: join_Cons pieces_ne)
  qed
qed

definition condensed :: "bool \<Rightarrow> string list \<Rightarrow> string list" where
  "condensed condense ps = (if condense then filter (\<lambda>p. p \<noteq> []) ps else ps)"

lemma condensed_Cons: "condensed c (p # ps) = keep_piece c p @ condensed c ps"
  by (simp add: condensed_def keep_piece_def)

lemma condensed_Nil [simp]: "condensed c [] = []"
  by (simp add: condensed_def)

lemma split_loop_pieces:
  "d \<noteq> [] \<Longrightarrow> split_loop d c rest out = Some (out @ condensed c (pieces d rest))"
proof (induction d rest arbitrary: out rule: pieces.induct)
  case (1 d rest)
  then show ?case
    by (subst split_loop.simps, subst pieces.simps)
      (auto simp: condensed_Cons split: option.splits)
qed

lemma split_view_pieces:
  assumes "d \<noteq> []" and "s \<noteq> []"
  shows "split_view s d c = Some (hd (pieces d s) # condensed c (tl (pieces d s)))"
  using assms
  by (subst pieces.simps, subst pieces.simps)
    (auto simp: split_view_def split_loop_pieces split: option.splits)

text \<open>
  \<open>split\<close> returns for every non-empty delimiter.  Without condensing it is the inverse
  of \<open>join\<close> and no piece contains the delimiter; condensing drops exactly the empty pieces
  after the first one.
\<close>

lemma split_view_correct:
  assumes "delimiter \<noteq> []"
  shows "\<exists>ps. split_view str delimiter False = Some ps \<and> join ps delimiter = str
    \<and> (\<forall>p \<in> set ps. find_str delimiter p = None)
    \<and> split_view str delimiter True = Some (take 1 ps @ filter (\<lambda>p. p \<noteq> []) (drop 1 ps))"
proof (cases "str = []")
  case True
  then show ?thesis by (auto simp: split_view_def join_def)
next
  case False
  obtain p ps where ps: "pieces delimiter str = p # ps" by (meson neq_Nil_conv pieces_ne)
  with join_pieces [OF assms, of str] pieces_no_delimiter [OF assms, of _ str] False
  show ?thesis
    by (auto simp: split_view_pieces [OF assms False] condensed_def intro!: exI [of _ "p # ps"])
qed

lemma split_view_correct_example:
  "''/'' \<noteq> [] \<and> (\<exists>ps. split_view ''/a//b'' ''/'' False = Some ps \<and> join ps ''/'' = ''/a//b''
    \<and> (\<forall>p \<in> set ps. find_str ''/'' p = None)
    \<and> split_view ''/a//b'' ''/'' True = Some (take 1 ps @ filter (\<lambda>p. p \<noteq> []) (drop 1 ps)))
   \<and> split_view ''/a//b'' ''/'' True = Some ['''', ''a'', ''b'']"
  using split_view_correct [of "''/''" "''/a//b''"]
  by (simp add: split_view_def split_loop.simps keep_piece_def)

text \<open>An empty delimiter is found at every position and the loop makes no progress.\<close>

lemma find_str_Nil: "find_str [] s = Some 0"
  by (cases s) simp_all

lemma split_loop_Nil_diverges: "split_loop [] c s out = None"
proof (rule ccontr)
  assume "split_loop [] c s out \<noteq> None"
  then obtain r where ret: "split_loop [] c s out = Some r" by blast
  have "[] \<noteq> ([] :: string)"
  proof (rule split_loop.raw_induct [where P = "\<lambda>d c s out r. d \<noteq> []", OF _ ret])
    fix f d c s out r
    assume IH: "\<And>d c s out r. f d c s out = Some r \<Longrightarrow> d \<noteq> []"
      and eq: "(case find_str d s of None \<Rightarrow> Some (out @ keep_piece c s)
        | Some k \<Rightarrow> f d c (drop (k + length d) s) (out @ keep_piece c (take k s))) = Some r"
    then show "d \<noteq> []" by (auto simp: find_str_Nil split: option.splits)
  qed
  then show False by simp
qed

lemma split_view_empty_delimiter: "s \<noteq> [] \<Longrightarrow> split_view s [] c = None"
  by (simp add: split_view_def find_str_Nil split_loop_Nil_diverges)

section \<open>Escapes, verified\<close>

interpretation html: char_escaper html_char "{CHR ''<'', CHR ''>'', CHR 0x22}"
  by unfold_locales (auto simp: html_char_def)

interpretation urlsafe: char_escaper url_char
  "{c. \<not> (isNumericChar c \<or> (65 \<le> ord c \<and> ord c \<le> 90) \<or> (97 \<le> ord c \<and> ord c \<le> 122))} - set ''+%._''"
proof
  have nibble: "n < 16 \<Longrightarrow> isNumericChar (nibble_char n) \<or> (97 \<le> ord (nibble_char n) \<and> ord (nibble_char n) \<le> 122)"
    for n by (auto simp: nibble_char_def isNumericChar_def)
  fix c
  show "set (url_char c) \<inter> ({c. \<not> (isNumericChar c \<or> (65 \<le> ord c \<and> ord c \<le> 90)
    \<or> (97 \<le> ord c \<and> ord c \<le> 122))} - set ''+%._'') = {}"
    using nibble [of "ord c div 16 mod 16"] nibble [of "ord c mod 16"]
    by (auto simp: url_char_def charHex_def isNumericChar_def)
qed

interpretation ansi: char_escaper ansi_char
  "{CHR 0x09, CHR 0x0D, CHR 0x0A, CHR 0x0B, CHR 0x08, CHR 0x07, CHR 0x0C, CHR 0x00}"
  by unfold_locales (auto simp: ansi_char_def)

interpretation literal: char_escaper literal_char
  "{CHR 0x09, CHR 0x0D, CHR 0x0A, CHR 0x0B, CHR 0x08, CHR 0x07, CHR 0x0C, CHR 0x00, CHR 0x1B}"
  by unfold_locales (auto simp: literal_char_def)


text \<open>Hexadecimal output is decodable, hence injective.\<close>

fun hex_decode :: "string \<Rightarrow> string" where
  "hex_decode (a # b # s) = char_of (16 * xdigit_value a + xdigit_value b) # hex_decode s"
| "hex_decode s = []"

interpretation hexs: decodable_escaper
  "\<lambda>b. [nibble_char (ord b div 16), nibble_char (ord b mod 16)]" hex_decode
  by unfold_locales (simp_all add: nibbles_of_byte)

lemma hexString_inj: "hexString s = hexString t \<longleftrightarrow> s = t"
  unfolding hexString_def by (rule hexs.escape_inj)

lemma length_hexString: "length (hexString s) = 2 * length s"
  by (induction s) (simp_all add: hexString_def)

text \<open>
  A string is safe for \<open>escape\<close> if no NUL byte is followed by an octal digit and no ESC byte
  by a hexadecimal one: the escapes \<open>\0\<close> and \<open>\x1b\<close> have no fixed length in C++.
\<close>

fun literal_safe :: "string \<Rightarrow> bool" where
  "literal_safe [] = True"
| "literal_safe (c # s) =
     ((c = CHR 0x00 \<longrightarrow> (case s of [] \<Rightarrow> True | d # _ \<Rightarrow> \<not> is_octal d))
      \<and> (c = CHR 0x1B \<longrightarrow> (case s of [] \<Rightarrow> True | d # _ \<Rightarrow> \<not> isxdigit d))
      \<and> literal_safe s)"

lemma literal_char_head:
  "\<exists>d t. literal_char c = d # t \<and> (d = c \<or> d = CHR 0x5C)"
  by (simp add: literal_char_def)

lemma head_escape:
  assumes "case s of [] \<Rightarrow> True | d # _ \<Rightarrow> \<not> P d" and "\<not> P (CHR 0x5C)" and "\<not> P (CHR 0x22)"
  shows "takeWhile P (escape s @ CHR 0x22 # rest) = []"
proof (cases s)
  case Nil
  with assms show ?thesis by (simp add: escape_def)
next
  case (Cons c s')
  obtain d t where "literal_char c = d # t" "d = c \<or> d = CHR 0x5C" using literal_char_head by blast
  with Cons assms show ?thesis by (auto simp: escape_def)
qed

lemma not_digits_literal:
  "\<not> is_octal (CHR 0x5C)" "\<not> is_octal (CHR 0x22)" "\<not> isxdigit (CHR 0x5C)" "\<not> isxdigit (CHR 0x22)"
  by (simp_all add: is_octal_def isxdigit_def isNumericChar_def)

lemma takeWhile_take_Nil: "takeWhile P xs = [] \<Longrightarrow> takeWhile P (take n xs) = []"
  by (cases xs; cases n) (auto split: if_splits)

lemma lex_literal_char:
  assumes "c = CHR 0x00 \<longrightarrow> takeWhile is_octal t = []"
    and "c = CHR 0x1B \<longrightarrow> takeWhile isxdigit t = []"
  shows "lex_literal (Suc fuel) (literal_char c @ t) =
    map_option (\<lambda>(x, r). (c # x, r)) (lex_literal fuel t)"
proof -
  have nul: "takeWhile is_octal (take 2 t) = []" if "c = CHR 0x00"
    using assms(1) that takeWhile_take_Nil by blast
  have three: "take 3 (d # t) = d # take 2 t" for d by (simp add: take_Cons')
  have hexb: "takeWhile isxdigit (CHR ''1'' # CHR ''b'' # t) = ''1b''" if "c = CHR 0x1B"
    using assms(2) that by (simp add: isxdigit_def isNumericChar_def ord_def)
  show ?thesis
    using nul hexb
    by (auto simp: literal_char_def simple_escape_def three is_octal_def octal_value_def hex_value_def
        xdigit_value_def ord_def char_of_def bit_0 Let_def)
qed

text \<open>
  A C++ compiler reads the literal that the module preprocessor writes around escaped
  text back as that text, and ends it at the closing quote the preprocessor wrote: no page
  text can break out of the literal.  This holds for every text in which no NUL byte is
  followed by an octal digit and no ESC byte by a hexadecimal digit.
\<close>

lemma escape_literal_roundtrip:
  "literal_safe s \<Longrightarrow> length s < fuel \<Longrightarrow>
   lex_literal fuel (escape s @ CHR 0x22 # rest) = Some (s, rest)"
proof (induction s arbitrary: fuel)
  case Nil
  then obtain f where "fuel = Suc f" by (cases fuel) auto
  then show ?case by (simp add: escape_def)
next
  case (Cons c s)
  then obtain f where f: "fuel = Suc f" "length s < f" by (cases fuel) auto
  let ?t = "escape s @ CHR 0x22 # rest"
  have "takeWhile is_octal ?t = []" if "c = CHR 0x00"
    using Cons.prems(1) that by (intro head_escape) (simp_all add: not_digits_literal)
  moreover have "takeWhile isxdigit ?t = []" if "c = CHR 0x1B"
    using Cons.prems(1) that by (intro head_escape) (simp_all add: not_digits_literal)
  ultimately have "lex_literal fuel (literal_char c @ ?t) =
      map_option (\<lambda>(x, r). (c # x, r)) (lex_literal f ?t)"
    unfolding f(1) by (intro lex_literal_char) blast+
  with Cons.IH [OF _ f(2)] Cons.prems(1) show ?case by (simp add: escape_def)
qed

lemma escape_literal_roundtrip_example:
  "literal_safe [CHR ''a'', CHR 0x22, CHR 0x0A, CHR 0x00] \<and>
   lex_literal 5 (escape [CHR ''a'', CHR 0x22, CHR 0x0A, CHR 0x00] @ CHR 0x22 # '');'')
     = Some ([CHR ''a'', CHR 0x22, CHR 0x0A, CHR 0x00], '');'')"
  using escape_literal_roundtrip [of "[CHR ''a'', CHR 0x22, CHR 0x0A, CHR 0x00]" 5 "'');''"]
  by simp

text \<open>Outside that domain the literal denotes another text: NUL then \<open>1\<close> reads as one byte.\<close>

lemma escape_literal_confusion:
  "lex_literal 5 (escape [CHR 0x00, CHR ''1''] @ [CHR 0x22]) = Some ([CHR 0x01], [])"
  by (simp add: escape_def literal_char_def simple_escape_def is_octal_def octal_value_def ord_def
      char_of_def bit_0 numeral_eq_Suc Let_def)

section \<open>Searching from the end, verified\<close>

definition occurs_at :: "string \<Rightarrow> nat \<Rightarrow> string \<Rightarrow> bool" where
  "occurs_at needle k haystack \<longleftrightarrow> take (length needle) (drop k haystack) = needle"

lemma find_end_Some:
  "find_end needle h = Some k \<Longrightarrow>
   occurs_at needle k h \<and> (\<forall>j. k < j \<longrightarrow> j < length h \<longrightarrow> \<not> occurs_at needle j h)"
proof (induction h arbitrary: k)
  case Nil
  then show ?case by simp
next
  case (Cons x xs)
  show ?case
  proof (cases "find_end needle xs")
    case None
    have none: "\<not> occurs_at needle j xs" if "j < length xs" "needle \<noteq> []" for j
      using None that
    proof (induction xs arbitrary: j)
      case (Cons y ys)
      then show ?case by (cases j) (auto simp: occurs_at_def split: option.splits if_splits)
    qed simp
    show ?thesis
    proof (cases "needle = []")
      case True
      with None Cons.prems show ?thesis by (cases xs) (auto simp: occurs_at_def split: option.splits)
    next
      case False
      with None Cons.prems none show ?thesis
        by (auto simp: occurs_at_def less_Suc_eq_0_disj split: if_splits)
    qed
  next
    case (Some j)
    with Cons.prems Cons.IH [OF Some] show ?thesis
      by (auto simp: occurs_at_def Suc_less_eq2)
  qed
qed

lemma find_end_None:
  "find_end needle h = None \<Longrightarrow> needle \<noteq> [] \<Longrightarrow> \<not> occurs_at needle j h"
proof (induction h arbitrary: j)
  case Nil
  then show ?case by (simp add: occurs_at_def)
next
  case (Cons x xs)
  then show ?case by (cases j) (auto simp: occurs_at_def split: option.splits if_splits)
qed

lemma findLast_correct:
  assumes "needle \<noteq> []"
  shows "(case findLast h needle of
      None \<Rightarrow> \<forall>j. \<not> occurs_at needle j h
    | Some k \<Rightarrow> occurs_at needle k h \<and> (\<forall>j. k < j \<longrightarrow> j < length h \<longrightarrow> \<not> occurs_at needle j h))"
  using assms find_end_None find_end_Some by (auto simp: findLast_def split: option.splits)

section \<open>Numbers, verified\<close>

lemma ord_digit: "n < 10 \<Longrightarrow> isNumericChar (char_of (48 + n)) \<and> ord (char_of (48 + n)) - 48 = n"
  by (simp add: isNumericChar_def)

lemma digits_value_snoc: "digits_value (ds @ [c]) = 10 * digits_value ds + (ord c - 48)"
  by (simp add: digits_value_def)

lemma to_string_nat_digits: "list_all isNumericChar (to_string_nat n) \<and> to_string_nat n \<noteq> []"
proof (induction n rule: to_string_nat.induct)
  case (1 n)
  then show ?case
    by (subst to_string_nat.simps, subst to_string_nat.simps)
      (auto simp: ord_digit [THEN conjunct1])
qed

lemma digits_value_to_string_nat: "digits_value (to_string_nat n) = n"
proof (induction n rule: to_string_nat.induct)
  case (1 n)
  then show ?case
    by (subst to_string_nat.simps)
      (auto simp: digits_value_snoc ord_digit [THEN conjunct2] digits_value_def)
qed

lemma takeWhile_digits:
  "list_all isNumericChar ds \<Longrightarrow> (case rest of [] \<Rightarrow> True | c # _ \<Rightarrow> \<not> isNumericChar c) \<Longrightarrow>
   takeWhile isNumericChar (ds @ rest) = ds"
  by (induction ds) (auto split: list.splits)

lemma parseUlong_view_digits:
  assumes "case rest of [] \<Rightarrow> True | c # _ \<Rightarrow> \<not> isNumericChar c"
  shows "parseUlong_view (to_string_nat n @ rest) =
    (if n < 2 ^ 64 then Inr (of_nat n)
     else Inl (UndefinedBehaviour ''parseUlong: uninitialised result''))"
  using takeWhile_digits [OF conjunct1 [OF to_string_nat_digits] assms, of n]
    to_string_nat_digits [of n]
  by (simp add: parseUlong_view_def digits_value_to_string_nat Let_def)

text \<open>
  Decimal numbers survive printing and parsing: a number printed by \<open>std::to_string\<close> and
  followed by anything but a digit is read back by \<open>parseUlong\<close> if it fits in 64 bits.  If it
  does not, \<open>std::errc::result_out_of_range\<close> is not checked and the function returns a variable
  it never initialised.
\<close>

lemma parseUlong_view_to_string:
  assumes "case rest of [] \<Rightarrow> True | c # _ \<Rightarrow> \<not> isNumericChar c"
  shows "parseUlong_view (to_string_nat n @ rest) =
    (if n < 2 ^ 64 then Inr (of_nat n)
     else Inl (UndefinedBehaviour ''parseUlong: uninitialised result''))"
  using assms by (rule parseUlong_view_digits)

lemma parseUlong_view_to_string_example:
  "parseUlong_view (to_string_nat 1234 @ '', x'') = Inr 1234
   \<and> parseUlong_view (to_string_nat (2 ^ 64) @ []) =
       Inl (UndefinedBehaviour ''parseUlong: uninitialised result'')"
  using parseUlong_view_to_string [of "'', x''" 1234] parseUlong_view_to_string [of "[]" "2 ^ 64"]
  by (simp add: isNumericChar_def ord_def)

text \<open>Splitting at a character undoes joining with it, when no item contains it.\<close>

lemma pieces_single_Cons: "c \<notin> set p \<Longrightarrow> pieces [c] (p @ c # s) = p # pieces [c] s"
  by (subst pieces.simps) (simp add: find_str_single find_char_append)

lemma pieces_single_free: "c \<notin> set p \<Longrightarrow> pieces [c] p = [p]"
  by (subst pieces.simps) (simp add: find_str_single find_char_None [THEN iffD2])

lemma pieces_join_single:
  "ps \<noteq> [] \<Longrightarrow> \<forall>p \<in> set ps. c \<notin> set p \<Longrightarrow> pieces [c] (join ps [c]) = ps"
proof (induction ps rule: induct_list012)
  case (3 p q ps)
  then have "pieces [c] (join (q # ps) [c]) = q # ps" by simp
  with 3 show ?case by (simp add: join_Cons pieces_single_Cons)
qed (simp_all add: join_def pieces_single_free)

lemma split_view_join_single:
  assumes "join ps [c] \<noteq> []" "ps \<noteq> []" "\<forall>p \<in> set ps. c \<notin> set p"
  shows "split_view (join ps [c]) [c] False = Some ps"
  using assms split_view_pieces [of "[c]" "join ps [c]" False] pieces_join_single [OF assms(2,3)]
  by (cases ps) (simp_all add: condensed_def)

end
