(* ===== verification/Base64.thy ===== *)
theory Base64
  imports Util_Strings
begin

text \<open>
  \<open>src/util/Base64.cpp\<close>: the encoder used for the WebSocket handshake and the decoder used for
  HTTP basic authentication.  The accumulator \<open>val\<close> is a 32-bit \<open>int\<close>: it wraps around on long
  inputs, and the right shifts are arithmetic; only its low bits are ever used, which the
  round-trip proof has to show.
\<close>

unbundle bit_operations_syntax

section \<open>Model\<close>

definition CHARS :: string where
  "CHARS = ''ABCDEFGHIJKLMNOPQRSTUVWXYZabcdefghijklmnopqrstuvwxyz0123456789+/''"

definition t_table :: "int list" where
  "t_table = foldl (\<lambda>out i. out[ord (CHARS ! i) := int i]) (replicate 256 (-1)) [0..<64]"

definition low_bits :: "nat \<Rightarrow> nat \<Rightarrow> 32 word \<Rightarrow> nat" where
  "low_bits valb m val = unat (signed_drop_bit valb val AND mask m)"

function enc_emit :: "32 word \<Rightarrow> int \<Rightarrow> string \<Rightarrow> int \<times> string" where
  "enc_emit val valb out =
     (if 0 \<le> valb
      then enc_emit val (valb - 6) (out @ [CHARS ! low_bits (nat valb) 6 val])
      else (valb, out))"
  by pat_completeness auto
termination
  by (relation "measure (\<lambda>(val, valb, out). nat (valb + 1))") auto

declare enc_emit.simps [simp del]

fun enc_loop :: "string \<Rightarrow> 32 word \<Rightarrow> int \<Rightarrow> string \<Rightarrow> 32 word \<times> int \<times> string" where
  "enc_loop [] val valb out = (val, valb, out)"
| "enc_loop (c # cs) val valb out =
     (let val' = push_bit 8 val + of_nat (ord c);
          (valb', out') = enc_emit val' (valb + 8) out
      in enc_loop cs val' valb' out')"

function pad_loop :: "string \<Rightarrow> string" where
  "pad_loop out = (if length out mod 4 \<noteq> 0 then pad_loop (out @ ''='') else out)"
  by pat_completeness auto
termination
proof (relation "measure (\<lambda>out. if length out mod 4 = 0 then 0 else 4 - length out mod 4)", goal_cases)
  case (2 out)
  then show ?case by (auto simp: mod_Suc)
qed simp

declare pad_loop.simps [simp del]

definition base64Encode :: "string \<Rightarrow> string" where
  "base64Encode s =
     (let (val, valb, out) = enc_loop s 0 (-6) [];
          out' = (if -6 < valb
                  then out @ [CHARS ! low_bits (nat (valb + 8)) 6 (push_bit 8 val)] else out)
      in pad_loop out')"

fun dec_loop :: "string \<Rightarrow> 32 word \<Rightarrow> int \<Rightarrow> string \<Rightarrow> string" where
  "dec_loop [] val valb out = out"
| "dec_loop (c # cs) val valb out =
     (if t_table ! ord c = -1 then out
      else let val' = push_bit 6 val + of_int (t_table ! ord c); valb' = valb + 6
           in if 0 \<le> valb'
              then dec_loop cs val' (valb' - 8) (out @ [char_of (low_bits (nat valb') 8 val')])
              else dec_loop cs val' valb' out)"

definition base64Decode :: "string \<Rightarrow> string" where
  "base64Decode s = dec_loop s 0 (-8) []"

section \<open>The accumulator, read as a number\<close>

lemma low_bits_nat:
  assumes "k + m \<le> 32"
  shows "low_bits k m v = unat v div 2 ^ k mod 2 ^ m"
proof -
  have "signed_drop_bit k v AND mask m = drop_bit k v AND mask m"
    using assms by (intro bit_word_eqI) (auto simp: bit_simps)
  then have "low_bits k m v = unat (take_bit m (drop_bit k v))"
    by (simp add: low_bits_def take_bit_eq_mask)
  also have "\<dots> = take_bit m (drop_bit k (unat v))"
    by (simp only: unsigned_take_bit_eq unat_drop_bit_eq)
  finally show ?thesis by (simp only: take_bit_eq_mod drop_bit_eq_div)
qed

lemma low_bits_mod:
  assumes "unat v = V mod 2 ^ 32" and "k + m \<le> 32"
  shows "low_bits k m v = V div 2 ^ k mod 2 ^ m"
proof -
  have "V mod 2 ^ 32 div 2 ^ k mod 2 ^ m = V div 2 ^ k mod 2 ^ m"
    using assms(2)
    by (simp only: take_bit_eq_mod [symmetric] drop_bit_eq_div [symmetric] drop_bit_take_bit
        take_bit_take_bit min_absorb1 le_diff_conv2 add_leD1 add.commute)
  with assms show ?thesis by (simp add: low_bits_nat)
qed

lemma acc_shift:
  assumes "unat (v :: 32 word) = V mod 2 ^ 32"
  shows "unat (push_bit k v + of_nat n) = (V * 2 ^ k + n) mod 2 ^ 32"
proof -
  have "push_bit k v + of_nat n = of_nat (unat v * 2 ^ k + n)"
    by (simp add: push_bit_eq_mult)
  then have "unat (push_bit k v + of_nat n) = (unat v * 2 ^ k + n) mod 2 ^ 32"
    by (simp only: unat_of_nat) simp
  also have "\<dots> = (V * 2 ^ k + n) mod 2 ^ 32"
    by (simp only: assms) (metis mod_add_left_eq mod_mult_left_eq)
  finally show ?thesis .
qed

section \<open>One group of three bytes\<close>

definition sextets :: "nat \<Rightarrow> nat \<Rightarrow> nat \<Rightarrow> nat list" where
  "sextets a b c = [a div 4, a mod 4 * 16 + b div 16, b mod 16 * 4 + c div 64, c mod 64]"

lemma sextets_less: "a < 256 \<Longrightarrow> b < 256 \<Longrightarrow> c < 256 \<Longrightarrow> n \<in> set (sextets a b c) \<Longrightarrow> n < 64"
  by (auto simp: sextets_def)

lemma enc_emit_done: "valb < 0 \<Longrightarrow> enc_emit v valb out = (valb, out)"
  by (simp add: enc_emit.simps)

lemma enc_emit_2: "enc_emit v 2 out = (-4, out @ [CHARS ! low_bits 2 6 v])"
  by (simp add: enc_emit.simps [of v 2] enc_emit_done)

lemma enc_emit_4: "enc_emit v 4 out = (-2, out @ [CHARS ! low_bits 4 6 v])"
  by (simp add: enc_emit.simps [of v 4] enc_emit_done)

lemma enc_emit_6: "enc_emit v 6 out = (-6, out @ [CHARS ! low_bits 6 6 v, CHARS ! low_bits 0 6 v])"
  by (simp add: enc_emit.simps [of v 6] enc_emit.simps [of v 0] enc_emit_done)

lemma mod_mult_split: "m < p \<Longrightarrow> (V * p + m) mod (p * q) = V mod q * p + m" for V p q m :: nat
  by (simp add: mod_mult2_eq)

lemma div_shift: "(V * (p * q) + n) div p = V * q + n div p" if "0 < p" for V p q n :: nat
proof -
  have "V * (p * q) + n = n + (V * q) * p" by (simp add: algebra_simps)
  then show ?thesis using that by (simp only: div_mult_self1)
qed

lemma enc_one:
  assumes V: "unat v = V mod 2 ^ 32" and n: "n < 256"
  shows "low_bits 2 6 (push_bit 8 v + of_nat n) = n div 4"
    and "low_bits 4 6 (push_bit 8 v + of_nat n) = V mod 4 * 16 + n div 16"
    and "low_bits 6 6 (push_bit 8 v + of_nat n) = V mod 16 * 4 + n div 64"
    and "low_bits 0 6 (push_bit 8 v + of_nat n) = n mod 64"
proof -
  note acc = acc_shift [OF V, of 8 n, THEN low_bits_mod]
  have m: "n div 4 < 64" "n div 16 < 16" "n div 64 < 4" using n by auto
  show "low_bits 2 6 (push_bit 8 v + of_nat n) = n div 4"
    using acc [of 2 6] div_shift [of 4 V 64 n] mod_mult_split [OF m(1), of V 1] by simp
  show "low_bits 4 6 (push_bit 8 v + of_nat n) = V mod 4 * 16 + n div 16"
    using acc [of 4 6] div_shift [of 16 V 16 n] mod_mult_split [OF m(2), of V 4] by simp
  show "low_bits 6 6 (push_bit 8 v + of_nat n) = V mod 16 * 4 + n div 64"
    using acc [of 6 6] div_shift [of 64 V 4 n] mod_mult_split [OF m(3), of V 16] by simp
  have "(V * 256 + n) mod 64 = n mod 64" using mod_mult_self3 [of "V * 4" 64 n] by (simp add: mult.commute)
  with acc [of 0 6] show "low_bits 0 6 (push_bit 8 v + of_nat n) = n mod 64" by simp
qed

text \<open>Three bytes from a group boundary give four characters and end at a group boundary.\<close>

lemma enc_loop_3:
  "\<exists>v'. enc_loop (a # b # c # cs) v (-6) out =
     enc_loop cs v' (-6) (out @ map ((!) CHARS) (sextets (ord a) (ord b) (ord c)))"
proof -
  define v1 where "v1 = push_bit 8 v + of_nat (ord a)"
  define v2 where "v2 = push_bit 8 v1 + of_nat (ord b)"
  define v3 where "v3 = push_bit 8 v2 + of_nat (ord c)"
  have V: "unat v = unat v mod 2 ^ 32" using unsigned_less [of v, where 'a = nat] by simp
  note V1 = acc_shift [OF V, of 8 "ord a", folded v1_def]
  note V2 = acc_shift [OF V1, of 8 "ord b", folded v2_def]
  note 1 = enc_one [OF V ord_less, of a, folded v1_def]
  note 2 = enc_one [OF V1 ord_less, of b, folded v2_def]
  note 3 = enc_one [OF V2 ord_less, of c, folded v3_def]
  have "(unat v * 2 ^ 8 + ord a) mod 4 = ord a mod 4"
    and "((unat v * 2 ^ 8 + ord a) * 2 ^ 8 + ord b) mod 16 = ord b mod 16"
    using mod_mult_self3 [of "unat v * 64" 4 "ord a"]
      mod_mult_self3 [of "(unat v * 2 ^ 8 + ord a) * 16" 16 "ord b"]
    by (simp_all add: mult.commute)
  then have "enc_loop (a # b # c # cs) v (-6) out =
     enc_loop cs v3 (-6) (out @ map ((!) CHARS) (sextets (ord a) (ord b) (ord c)))"
    using 1 2 3
    by (simp add: v1_def [symmetric] v2_def [symmetric] v3_def [symmetric] enc_emit_2 enc_emit_4
        enc_emit_6 sextets_def)
  then show ?thesis by blast
qed

section \<open>The decoding table\<close>

lemma length_CHARS: "length CHARS = 64"
  by (simp add: CHARS_def)

lemma length_foldl_update: "length (foldl (\<lambda>out i. out[f i := g i]) xs is) = length xs"
  by (induction "is" arbitrary: xs) simp_all

lemma foldl_update_other:
  "j \<notin> f ` set is \<Longrightarrow> foldl (\<lambda>out i. out[f i := g i]) xs is ! j = xs ! j"
  by (induction "is" arbitrary: xs) auto

lemma foldl_update_same:
  "\<lbrakk>inj_on f (set is); distinct is; i \<in> set is; f i < length xs\<rbrakk>
   \<Longrightarrow> foldl (\<lambda>out i. out[f i := g i]) xs is ! f i = g i"
proof (induction "is" arbitrary: xs)
  case (Cons k ks)
  show ?case
  proof (cases "i = k")
    case True
    with Cons.prems have "f i \<notin> f ` set ks" by (auto simp: inj_on_def)
    with True Cons.prems show ?thesis by (simp add: foldl_update_other)
  next
    case False
    with Cons show ?thesis by simp
  qed
qed simp

lemma distinct_CHARS: "distinct CHARS"
  by (simp add: CHARS_def)

lemma inj_ord_CHARS: "inj_on (\<lambda>i. ord (CHARS ! i)) (set [0..<64])"
  using distinct_CHARS length_CHARS by (auto simp: inj_on_def ord_eq_iff nth_eq_iff_index_eq)

lemma t_table_CHARS: "i < 64 \<Longrightarrow> t_table ! ord (CHARS ! i) = int i"
  unfolding t_table_def
  using foldl_update_same [OF inj_ord_CHARS, of i "replicate 256 (-1)" int] by simp

lemma t_table_pad: "t_table ! ord (CHR ''='') = -1"
proof -
  have "CHR ''='' \<notin> set CHARS" by (simp add: CHARS_def)
  then have "ord (CHR ''='') \<notin> (\<lambda>i. ord (CHARS ! i)) ` set [0..<64]"
    using length_CHARS by (auto simp: ord_eq_iff dest: nth_mem)
  then show ?thesis by (simp add: t_table_def foldl_update_other)
qed

section \<open>Decoding\<close>

lemma dec_one:
  assumes V: "unat v = V mod 2 ^ 32" and n: "n < 64"
  shows "low_bits 4 8 (push_bit 6 v + of_nat n) = V mod 64 * 4 + n div 16"
    and "low_bits 2 8 (push_bit 6 v + of_nat n) = V mod 16 * 16 + n div 4"
    and "low_bits 0 8 (push_bit 6 v + of_nat n) = V mod 4 * 64 + n"
proof -
  note acc = acc_shift [OF V, of 6 n, THEN low_bits_mod]
  have m: "n div 16 < 4" "n div 4 < 16" using n by auto
  show "low_bits 4 8 (push_bit 6 v + of_nat n) = V mod 64 * 4 + n div 16"
    using acc [of 4 8] div_shift [of 16 V 4 n] mod_mult_split [OF m(1), of V 64] by simp
  show "low_bits 2 8 (push_bit 6 v + of_nat n) = V mod 16 * 16 + n div 4"
    using acc [of 2 8] div_shift [of 4 V 16 n] mod_mult_split [OF m(2), of V 16] by simp
  show "low_bits 0 8 (push_bit 6 v + of_nat n) = V mod 4 * 64 + n"
    using acc [of 0 8] mod_mult_split [OF n, of V 4] by simp
qed

lemma dec_char:
  "n < 64 \<Longrightarrow> dec_loop (CHARS ! n # cs) v valb out =
    (if 0 \<le> valb + 6
     then dec_loop cs (push_bit 6 v + of_nat n) (valb - 2)
            (out @ [char_of (low_bits (nat (valb + 6)) 8 (push_bit 6 v + of_nat n))])
     else dec_loop cs (push_bit 6 v + of_nat n) (valb + 6) out)"
  by (simp add: t_table_CHARS Let_def)

declare dec_loop.simps(2) [simp del]

text \<open>
  Four characters from a group boundary give three bytes; two and three characters give one and
  two.
\<close>

lemma dec_loop_prefix:
  assumes "a < 256" "b < 256" "c < 256"
  shows "\<exists>v'. dec_loop (map ((!) CHARS) (take 2 (sextets a b c)) @ cs) v (-8) out =
           dec_loop cs v' (-4) (out @ [char_of a])"
    and "\<exists>v'. dec_loop (map ((!) CHARS) (take 3 (sextets a b c)) @ cs) v (-8) out =
           dec_loop cs v' (-6) (out @ [char_of a, char_of b])"
    and "\<exists>v'. dec_loop (map ((!) CHARS) (sextets a b c) @ cs) v (-8) out =
           dec_loop cs v' (-8) (out @ [char_of a, char_of b, char_of c])"
proof -
  define i1 where "i1 = a div 4"
  define i2 where "i2 = a mod 4 * 16 + b div 16"
  define i3 where "i3 = b mod 16 * 4 + c div 64"
  define i4 where "i4 = c mod 64"
  have less: "i1 < 64" "i2 < 64" "i3 < 64" "i4 < 64"
    using assms by (auto simp: i1_def i2_def i3_def i4_def)
  define v1 where "v1 = push_bit 6 v + of_nat i1"
  define v2 where "v2 = push_bit 6 v1 + of_nat i2"
  define v3 where "v3 = push_bit 6 v2 + of_nat i3"
  define v4 where "v4 = push_bit 6 v3 + of_nat i4"
  have V: "unat v = unat v mod 2 ^ 32" using unsigned_less [of v, where 'a = nat] by simp
  note V1 = acc_shift [OF V, of 6 i1, folded v1_def]
  note V2 = acc_shift [OF V1, of 6 i2, folded v2_def]
  note V3 = acc_shift [OF V2, of 6 i3, folded v3_def]
  note d2 = dec_one(1) [OF V1 less(2), folded v2_def]
  note d3 = dec_one(2) [OF V2 less(3), folded v3_def]
  note d4 = dec_one(3) [OF V3 less(4), folded v4_def]
  have m1: "(unat v * 2 ^ 6 + i1) mod 64 = i1"
    using less mod_mult_self3 [of "unat v" 64 i1] by simp
  have m2: "(x * 2 ^ 6 + i2) mod 16 = i2 mod 16" for x
    using mod_mult_self3 [of "x * 4" 16 i2] by (simp add: mult.commute)
  have m3: "(x * 2 ^ 6 + i3) mod 4 = i3 mod 4" for x
    using mod_mult_self3 [of "x * 16" 4 i3] by (simp add: mult.commute)
  have "b div 16 < 16" "c div 64 < 4" using assms by auto
  then have "i2 div 16 = a mod 4" "i2 mod 16 = b div 16" "i3 div 4 = b mod 16" "i3 mod 4 = c div 64"
    unfolding i2_def i3_def by simp_all
  note parts = this div_mult_mod_eq
  have a: "low_bits 4 8 v2 = a" unfolding d2 by (simp only: m1 parts) (simp only: i1_def parts)
  have b: "low_bits 2 8 v3 = b" unfolding d3 m2 parts ..
  have c: "low_bits 0 8 v4 = c" unfolding d4 m3 parts i4_def ..
  have two: "dec_loop (map ((!) CHARS) (take 2 (sextets a b c)) @ cs) v (-8) out =
      dec_loop cs v2 (-4) (out @ [char_of a])" for cs out
    by (simp add: sextets_def i1_def [symmetric] i2_def [symmetric] dec_char less
        v1_def [symmetric] v2_def [symmetric] a)
  then show "\<exists>v'. dec_loop (map ((!) CHARS) (take 2 (sextets a b c)) @ cs) v (-8) out =
      dec_loop cs v' (-4) (out @ [char_of a])" by blast
  have three: "dec_loop (map ((!) CHARS) (take 3 (sextets a b c)) @ cs) v (-8) out =
      dec_loop cs v3 (-6) (out @ [char_of a, char_of b])" for cs out
    using two [of "CHARS ! i3 # cs" out]
    by (simp add: sextets_def i3_def [symmetric] dec_char less v3_def [symmetric] b)
  then show "\<exists>v'. dec_loop (map ((!) CHARS) (take 3 (sextets a b c)) @ cs) v (-8) out =
      dec_loop cs v' (-6) (out @ [char_of a, char_of b])" by blast
  have "dec_loop (map ((!) CHARS) (sextets a b c) @ cs) v (-8) out =
      dec_loop cs v4 (-8) (out @ [char_of a, char_of b, char_of c])"
    using three [of "CHARS ! i4 # cs" out]
    by (simp add: sextets_def i4_def [symmetric] dec_char less v4_def [symmetric] c)
  then show "\<exists>v'. dec_loop (map ((!) CHARS) (sextets a b c) @ cs) v (-8) out =
      dec_loop cs v' (-8) (out @ [char_of a, char_of b, char_of c])" by blast
qed

section \<open>Round trip\<close>

lemma pad_loop_pads: "\<exists>n. pad_loop out = out @ replicate n (CHR ''='')"
proof (induction out rule: pad_loop.induct)
  case (1 out)
  show ?case
  proof (cases "length out mod 4 = 0")
    case True
    then show ?thesis by (subst pad_loop.simps) (auto intro: exI [of _ 0])
  next
    case False
    with 1 obtain n where "pad_loop (out @ ''='') = (out @ ''='') @ replicate n (CHR ''='')" by blast
    with False show ?thesis by (subst pad_loop.simps) (auto intro: exI [of _ "Suc n"])
  qed
qed

lemma length_pad_loop: "length (pad_loop out) mod 4 = 0"
proof (induction out rule: pad_loop.induct)
  case (1 out)
  then show ?case by (subst pad_loop.simps) simp
qed

lemma dec_loop_pad: "dec_loop (replicate n (CHR ''='')) v valb out = out"
  by (cases n) (simp_all add: dec_loop.simps(2) t_table_pad)

lemma dec_loop_pad_loop:
  "(\<And>n. dec_loop (out @ replicate n (CHR ''='')) v valb res = x) \<Longrightarrow>
   dec_loop (pad_loop out) v valb res = x"
  using pad_loop_pads [of out] by auto

definition enc_finish :: "32 word \<times> int \<times> string \<Rightarrow> string" where
  "enc_finish st =
     (case st of (val, valb, out) \<Rightarrow>
        if -6 < valb then out @ [CHARS ! low_bits (nat (valb + 8)) 6 (push_bit 8 val)] else out)"

lemma base64Encode_finish: "base64Encode s = pad_loop (enc_finish (enc_loop s 0 (-6) []))"
  by (simp add: base64Encode_def enc_finish_def Let_def split: prod.splits)

text \<open>The text the encoder produces from a group boundary, group by group.\<close>

fun enc_text :: "string \<Rightarrow> string" where
  "enc_text [] = []"
| "enc_text [a] = map ((!) CHARS) (take 2 (sextets (ord a) 0 0))"
| "enc_text [a, b] = map ((!) CHARS) (take 3 (sextets (ord a) (ord b) 0))"
| "enc_text (a # b # c # cs) = map ((!) CHARS) (sextets (ord a) (ord b) (ord c)) @ enc_text cs"

lemma enc_last:
  assumes V: "unat (v :: 32 word) = V mod 2 ^ 32"
  shows "low_bits 4 6 (push_bit 8 v) = V mod 4 * 16" and "low_bits 6 6 (push_bit 8 v) = V mod 16 * 4"
  using enc_one(2,3) [OF V, of 0] by simp_all

lemma enc_loop_text: "enc_finish (enc_loop s v (-6) out) = out @ enc_text s"
proof (induction s arbitrary: v out rule: enc_text.induct)
  case 1
  then show ?case by (simp add: enc_finish_def)
next
  case (2 a)
  have V: "unat v = unat v mod 2 ^ 32" using unsigned_less [of v, where 'a = nat] by simp
  have "(unat v * 2 ^ 8 + ord a) mod 4 = ord a mod 4"
    using mod_mult_self3 [of "unat v * 64" 4 "ord a"] by (simp add: mult.commute)
  then show ?case
    using enc_one(1) [OF V ord_less, of a] enc_last(1) [OF acc_shift [OF V, of 8 "ord a"]]
    by (simp add: enc_finish_def enc_emit_2 sextets_def Let_def)
next
  case (3 a b)
  have V: "unat v = unat v mod 2 ^ 32" using unsigned_less [of v, where 'a = nat] by simp
  note V1 = acc_shift [OF V, of 8 "ord a"]
  have "(unat v * 2 ^ 8 + ord a) mod 4 = ord a mod 4"
    and "((unat v * 2 ^ 8 + ord a) * 2 ^ 8 + ord b) mod 16 = ord b mod 16"
    using mod_mult_self3 [of "unat v * 64" 4 "ord a"]
      mod_mult_self3 [of "(unat v * 2 ^ 8 + ord a) * 16" 16 "ord b"]
    by (simp_all add: mult.commute)
  then show ?case
    using enc_one(1) [OF V ord_less, of a] enc_one(2) [OF V1 ord_less, of b]
      enc_last(2) [OF acc_shift [OF V1, of 8 "ord b"]]
    by (simp add: enc_finish_def enc_emit_2 enc_emit_4 sextets_def Let_def)
next
  case (4 a b c cs)
  then show ?case using enc_loop_3 [of a b c cs v out] by auto
qed

lemma dec_loop_text:
  "dec_loop (enc_text s @ replicate n (CHR ''='')) v (-8) out = out @ s"
proof (induction s arbitrary: v out rule: enc_text.induct)
  case 1
  then show ?case by (simp add: dec_loop_pad)
next
  case (2 a)
  then show ?case
    using dec_loop_prefix(1) [of "ord a" 0 0 "replicate n (CHR ''='')" v out]
    by (auto simp: dec_loop_pad)
next
  case (3 a b)
  then show ?case
    using dec_loop_prefix(2) [of "ord a" "ord b" 0 "replicate n (CHR ''='')" v out]
    by (auto simp: dec_loop_pad)
next
  case (4 a b c cs)
  then show ?case
    using dec_loop_prefix(3) [of "ord a" "ord b" "ord c" "enc_text cs @ replicate n (CHR ''='')" v out]
    by auto
qed

lemma base64Decode_base64Encode: "base64Decode (base64Encode s) = s"
  unfolding base64Decode_def base64Encode_finish
  by (rule dec_loop_pad_loop) (simp add: enc_loop_text dec_loop_text)

text \<open>
  (C40) Base64 round trip: decoding an encoded string gives the string back, for strings of any
  length (the 32-bit accumulator wraps around but the bits that are emitted are never lost),
  and the encoder always produces a multiple of four characters.
\<close>

theorem base64_roundtrip:
  "base64Decode (base64Encode s) = s \<and> length (base64Encode s) mod 4 = 0"
  by (simp add: base64Decode_base64Encode) (simp add: base64Encode_finish length_pad_loop)

end
