(* ===== verification/Http_Request.thy ===== *)
theory Http_Request
  imports Base64
begin

text \<open>
  \<open>src/http/Request.cpp\<close> and \<open>include/http/Request.h\<close>: the incremental HTTP request parser, range
  headers, query and form parameters, basic authentication.

  An operation that can throw after it has changed the object returns the changed state beside
  the outcome, because the connection may go on using the object after the exception was
  handled.  The parser also writes two fields of the connection that owns it (\<open>maxRead\<close> and
  \<open>keepAlive\<close>), which form the record \<open>client_flags\<close>, and asks the server for the option
  \<open>postMax\<close>, which is the parameter \<open>post_max_opt\<close>.
\<close>

section \<open>State\<close>

datatype http_method = MethodInvalid | GET | HEAD | PUT | POST

datatype request_mode = ModeMethod | ModeHeaders | ModeContent

datatype handle_result = Continue | DisableLineMode | Done

datatype auth_result = AuthInvalid | Missing | Malformed | BadUsername | BadPassword | Success

type_synonym range = "size_t \<times> size_t"

record request =
  rq_mode :: request_mode
  rq_contentLength :: size_t
  rq_lengthRemaining :: size_t
  rq_method :: http_method
  rq_path :: string
  rq_version :: string
  rq_content :: string
  rq_charset :: string
  rq_headers :: "(string \<times> string) list"
  rq_parameters :: "(string \<times> string) list"
  rq_postParameters :: "(string \<times> string) list"
  rq_ranges :: "range list"
  rq_suffixLength :: size_t

definition new_request :: request where
  "new_request = \<lparr>rq_mode = ModeMethod, rq_contentLength = 0, rq_lengthRemaining = 0,
     rq_method = MethodInvalid, rq_path = [], rq_version = [], rq_content = [], rq_charset = [],
     rq_headers = [], rq_parameters = [], rq_postParameters = [], rq_ranges = [],
     rq_suffixLength = 0\<rparr>"

record client_flags =
  cf_maxRead :: size_t
  cf_keepAlive :: bool

definition POST_MAX :: size_t where
  "POST_MAX = push_bit 24 1"

section \<open>Query and form parameters\<close>

definition getPath :: "string \<Rightarrow> string" where
  "getPath path = substr 0 (find_char (CHR ''?'') path) path"

text \<open>The right-hand side of an assignment is evaluated before the subscript on its left.\<close>

definition add_parameter ::
  "string \<Rightarrow> nat option \<Rightarrow> (string \<times> string) list \<Rightarrow> (string \<times> string) list result" where
  "add_parameter path ampersand parameters =
     (let pair = substr 0 ampersand path in
      if pair = [] then Inr parameters
      else case find_char (CHR ''='') pair of
        None \<Rightarrow> rmap (\<lambda>k. omap_put k [] parameters) (unescape pair True)
      | Some equals \<Rightarrow>
          rbind (unescape (substr (equals + 1) None pair) True) (\<lambda>v.
          rmap (\<lambda>k. omap_put k v parameters) (unescape (substr 0 (Some equals) pair) True)))"

function parameters_loop ::
  "string \<Rightarrow> (string \<times> string) list \<Rightarrow> (string \<times> string) list result" where
  "parameters_loop path parameters =
     (case find_char (CHR ''&'') path of
        None \<Rightarrow> add_parameter path None parameters
      | Some ampersand \<Rightarrow>
          rbind (add_parameter path (Some ampersand) parameters)
                (parameters_loop (drop (ampersand + 1) path)))"
  by pat_completeness auto
termination
  by (relation "measure (\<lambda>(path, parameters). length path)") (auto dest: find_char_Some)

declare parameters_loop.simps [simp del]

definition getParameters :: "string \<Rightarrow> bool \<Rightarrow> (string \<times> string) list result" where
  "getParameters path chop_question_mark =
     (if chop_question_mark
      then (case find_char (CHR ''?'') path of
              None \<Rightarrow> Inr []
            | Some question_mark \<Rightarrow> parameters_loop (drop (question_mark + 1) path) [])
      else parameters_loop path [])"

section \<open>Ranges\<close>

text \<open>
  One round of the loop of \<open>parseRange\<close>.  With no hyphen in the piece, \<open>hyphen\<close> is \<open>npos\<close> and
  \<open>hyphen + 1\<close> wraps around to 0: both ends are read from the whole piece.
\<close>

definition parse_piece :: "string \<Rightarrow> request \<Rightarrow> request \<times> unit result" where
  "parse_piece piece r =
     (case find_char (CHR ''-'') piece of
        Some 0 \<Rightarrow>
          (if length piece = 1 then (r, Inl (ParseError ''parseRange: invalid range''))
           else case parseUlong_view (drop 1 piece) of
             Inl e \<Rightarrow> (r, Inl e)
           | Inr n \<Rightarrow> (r\<lparr>rq_suffixLength := n\<rparr>, Inr ()))
      | hyphen \<Rightarrow>
          (case parseUlong_view (substr 0 hyphen piece) of
             Inl e \<Rightarrow> (r, Inl e)
           | Inr start \<Rightarrow>
               (case (if hyphen = Some (length piece - 1) then Inr (-1)
                      else parseUlong_view (case hyphen of None \<Rightarrow> piece
                                            | Some h \<Rightarrow> drop (h + 1) piece)) of
                  Inl e \<Rightarrow> (r, Inl e)
                | Inr end' \<Rightarrow> (r\<lparr>rq_ranges := rq_ranges r @ [(start, end')]\<rparr>, Inr ()))))"

function range_loop :: "string \<Rightarrow> request \<Rightarrow> request \<times> unit result" where
  "range_loop content r =
     (if content = [] then (r, Inr ())
      else case find_str '', '' content of
        None \<Rightarrow> parse_piece content r
      | Some separator \<Rightarrow>
          (case parse_piece (take separator content) r of
             (r', Inl e) \<Rightarrow> (r', Inl e)
           | (r', Inr _) \<Rightarrow> range_loop (drop (separator + 2) content) r'))"
  by pat_completeness auto
termination
  by (relation "measure (\<lambda>(content, r). length content)") auto

declare range_loop.simps [simp del]

fun range_catch :: "exn \<Rightarrow> exn" where
  "range_catch (InvalidArgument _) = ParseError ''parseRange: number parsing failed''"
| "range_catch e = e"

definition parseRange :: "string \<Rightarrow> request \<Rightarrow> request \<times> unit result" where
  "parseRange content r =
     (if take 6 content \<noteq> ''bytes='' then (r, Inl (ParseError ''parseRange: invalid unit''))
      else case range_loop (drop 6 content) (r\<lparr>rq_ranges := []\<rparr>) of
        (r', Inl e) \<Rightarrow> (r', Inl (range_catch e))
      | (r', Inr u) \<Rightarrow> (r', Inr u))"

text \<open>
  \<open>valid\<close> sorts the ranges in place.  The comparison it gives to \<open>std::sort\<close> relates the start of
  one range to the end of the other and is no strict weak ordering, so which permutation the
  library produces is a parameter.  (With fewer than two ranges nothing is compared.)
\<close>

fun valid_pairs :: "size_t \<Rightarrow> range list \<Rightarrow> bool" where
  "valid_pairs total_size ((s0, e0) # (s1, e1) # ranges) =
     (if e1 \<le> s1 \<or> s1 < e0 \<or> total_size \<le> s1 \<or> total_size < e1 then False
      else valid_pairs total_size ((s1, e1) # ranges))"
| "valid_pairs total_size ranges = True"

definition valid :: "(range list \<Rightarrow> range list) \<Rightarrow> size_t \<Rightarrow> request \<Rightarrow> request \<times> bool" where
  "valid std_sort total_size r =
     (if total_size < rq_suffixLength r then (r, False)
      else if rq_ranges r = [] then (r, True)
      else let ranges = std_sort (rq_ranges r); r' = r\<lparr>rq_ranges := ranges\<rparr>
           in if \<not> valid_pairs total_size ranges then (r', False)
              else (r', snd (last ranges) \<le> total_size - rq_suffixLength r))"

definition hackRanges :: "request \<Rightarrow> request \<times> bool" where
  "hackRanges r = (if rq_ranges r = [(0, -1)] then (r\<lparr>rq_ranges := []\<rparr>, True) else (r, False))"

section \<open>The line parser\<close>

definition absorbPOST :: "request \<Rightarrow> request \<times> unit result" where
  "absorbPOST r =
     (case map_of (rq_headers r) ''content-type'' of
        Some ctype \<Rightarrow>
          (if ctype \<noteq> ''application/x-www-form-urlencoded'' then (r, Inr ())
           else case getParameters (rq_content r) False of
             Inl e \<Rightarrow> (r, Inl e)
           | Inr ps \<Rightarrow> (r\<lparr>rq_postParameters := ps, rq_content := []\<rparr>, Inr ()))
      | None \<Rightarrow>
          (case getParameters (rq_content r) False of
             Inl e \<Rightarrow> (r, Inl e)
           | Inr ps \<Rightarrow> (r\<lparr>rq_postParameters := ps, rq_content := []\<rparr>, Inr ())))"

definition strip_suffix :: "char \<Rightarrow> string \<Rightarrow> string" where
  "strip_suffix c line = (if line \<noteq> [] \<and> last line = c then butlast line else line)"

definition parse_method :: "string \<Rightarrow> http_method option" where
  "parse_method m =
     (if m = ''GET'' then Some GET else if m = ''HEAD'' then Some HEAD
      else if m = ''PUT'' then Some PUT else if m = ''POST'' then Some POST else None)"

text \<open>The \<open>Mode::Method\<close> branch: the request line.\<close>

definition handle_method_line :: "string \<Rightarrow> request \<Rightarrow> request \<times> handle_result result" where
  "handle_method_line line r =
     (case find_char (CHR '' '') line of
        None \<Rightarrow> (r, Inl (ParseError (''Bad method line: can'' @ [CHR 0x27] @ ''t determine method'')))
      | Some first_space \<Rightarrow>
          (case parse_method (take first_space line) of
             None \<Rightarrow> (r, Inl (UnsupportedMethod (take first_space line)))
           | Some m \<Rightarrow>
               (let r = r\<lparr>rq_method := m\<rparr>; rest = drop (first_space + 1) line
                in case find_char (CHR '' '') rest of
                  None \<Rightarrow> (r, Inl (ParseError (''Bad method line: can'' @ [CHR 0x27] @ ''t determine path'')))
                | Some next_space \<Rightarrow>
                    (let full_path = take next_space rest; r = r\<lparr>rq_path := getPath full_path\<rparr>
                     in case getParameters full_path True of
                       Inl e \<Rightarrow> (r, Inl e)
                     | Inr ps \<Rightarrow>
                         (let version = drop (next_space + 1) rest;
                              r = r\<lparr>rq_parameters := ps, rq_version := version\<rparr>
                          in if version \<noteq> ''HTTP/1.1'' \<and> version \<noteq> ''HTTP/1.0''
                             then (r, Inl (ParseError (''Invalid HTTP version: '' @ version)))
                             else (r\<lparr>rq_mode := ModeHeaders\<rparr>, Inr Continue))))))"

text \<open>A repeated header is joined to the earlier one with a blank.\<close>

definition merge_header ::
  "string \<Rightarrow> string \<Rightarrow> (string \<times> string) list \<Rightarrow> (string \<times> string) list" where
  "merge_header name value headers =
     (case map_of headers name of
        Some old \<Rightarrow> (if old = [] then omap_put name value headers
                     else omap_put name (old @ '' '' @ value) headers)
      | None \<Rightarrow> omap_put name value headers)"

fun length_catch :: "exn \<Rightarrow> exn" where
  "length_catch (InvalidArgument what) = ParseError what"
| "length_catch e = e"

text \<open>The \<open>Content-Length\<close> header: the body of the \<open>try\<close> block and its handler.\<close>

definition handle_content_length ::
  "(string \<Rightarrow> size_t option result) \<Rightarrow> string \<Rightarrow> request \<Rightarrow> request \<times> handle_result result" where
  "handle_content_length post_max_opt header_content r =
     (case parseUlong_view header_content of
        Inl e \<Rightarrow> (r, Inl (length_catch e))
      | Inr n \<Rightarrow>
          (let r = r\<lparr>rq_contentLength := n, rq_lengthRemaining := n\<rparr>
           in if rq_method r \<noteq> POST then (r, Inr Continue)
              else case post_max_opt (rq_path r) of
                Inl e \<Rightarrow> (r, Inl (length_catch e))
              | Inr opt \<Rightarrow>
                  (let post_max = (case opt of Some m \<Rightarrow> m | None \<Rightarrow> POST_MAX)
                   in if post_max < rq_lengthRemaining r
                      then (r, Inl (ParseError (''POST length too long: ''
                              @ to_string_nat (unat (rq_lengthRemaining r)))))
                      else (r, Inr Continue))))"

text \<open>The \<open>Mode::Headers\<close> branch.  The special headers are recognised by their exact spelling.\<close>

definition handle_header_line ::
  "(string \<Rightarrow> size_t option result) \<Rightarrow> string \<Rightarrow> request \<Rightarrow> client_flags
   \<Rightarrow> (request \<times> client_flags) \<times> handle_result result" where
  "handle_header_line post_max_opt line r cf =
     (case find_str '': '' line of
        None \<Rightarrow> ((r, cf), Inl (ParseError ''Invalid HTTP header: no separator''))
      | Some separator \<Rightarrow>
          (let header_name = take separator line;
               header_content = drop (separator + 2) line;
               r = r\<lparr>rq_headers := merge_header (toLower header_name) header_content (rq_headers r)\<rparr>
           in if header_name = ''Content-Length''
              then (case handle_content_length post_max_opt header_content r of
                      (r', res) \<Rightarrow> ((r', cf), res))
              else if header_name = ''Range''
              then (case parseRange header_content r of
                      (r', Inl e) \<Rightarrow> ((r', cf), Inl e)
                    | (r', Inr _) \<Rightarrow> ((r', cf), Inr Continue))
              else if header_name = ''Connection''
              then ((r, cf\<lparr>cf_keepAlive := header_content \<noteq> ''close''\<rparr>), Inr Continue)
              else ((r, cf), Inr Continue)))"

text \<open>The \<open>Mode::Content\<close> branch.\<close>

definition handle_content :: "string \<Rightarrow> request \<Rightarrow> request \<times> handle_result result" where
  "handle_content line r =
     (let r = (if unat (rq_lengthRemaining r) < length line
               then r\<lparr>rq_content := rq_content r @ drop (unat (rq_lengthRemaining r)) line,
                      rq_lengthRemaining := 0\<rparr>
               else if unat (rq_lengthRemaining r) = length line
               then r\<lparr>rq_content := rq_content r @ line, rq_lengthRemaining := 0\<rparr>
               else r)
      in if rq_lengthRemaining r = 0
         then (case (if rq_method r = POST then absorbPOST r else (r, Inr ())) of
                 (r', Inl e) \<Rightarrow> (r', Inl e)
               | (r', Inr _) \<Rightarrow> (r'\<lparr>rq_mode := ModeMethod\<rparr>, Inr Done))
         else (r\<lparr>rq_content := rq_content r @ line,
                 rq_lengthRemaining := rq_lengthRemaining r - of_nat (length line)\<rparr>, Inr Continue))"

definition handleLine ::
  "(string \<Rightarrow> size_t option result) \<Rightarrow> string \<Rightarrow> request \<Rightarrow> client_flags
   \<Rightarrow> (request \<times> client_flags) \<times> handle_result result" where
  "handleLine post_max_opt line r cf =
     (let line = (if rq_mode r \<noteq> ModeContent
                  then strip_suffix (CHR 0x0D) (strip_suffix (CHR 0x0A) line) else line)
      in if line = [] \<and> rq_mode r = ModeHeaders
         then (let r = r\<lparr>rq_mode := ModeContent\<rparr>
               in if map_of (rq_headers r) ''content-length'' \<noteq> None
                  then ((r, cf\<lparr>cf_maxRead := rq_contentLength r\<rparr>), Inr DisableLineMode)
                  else ((r, cf), Inr Done))
         else (case rq_mode r of
             ModeMethod \<Rightarrow> (case handle_method_line line r of (r', res) \<Rightarrow> ((r', cf), res))
           | ModeHeaders \<Rightarrow> handle_header_line post_max_opt line r cf
           | ModeContent \<Rightarrow> (case handle_content line r of (r', res) \<Rightarrow> ((r', cf), res))))"

section \<open>Inspecting a request\<close>

definition checkAuthentication :: "request \<Rightarrow> string \<Rightarrow> string \<Rightarrow> auth_result" where
  "checkAuthentication r username password =
     (case map_of (rq_headers r) ''authorization'' of
        None \<Rightarrow> Missing
      | Some auth \<Rightarrow>
          (if take 6 auth \<noteq> ''Basic '' then Malformed
           else let decoded = base64Decode (drop 6 auth) in
             (case find_char (CHR '':'') decoded of
                None \<Rightarrow> Malformed
              | Some colon \<Rightarrow>
                  (if take colon decoded \<noteq> username then BadUsername
                   else if drop (colon + 1) decoded \<noteq> password then BadPassword
                   else Success))))"

definition getHeader :: "request \<Rightarrow> string \<Rightarrow> string" where
  "getHeader r name = (case map_of (rq_headers r) name of Some v \<Rightarrow> v | None \<Rightarrow> [])"

fun parameters_text :: "bool \<Rightarrow> (string \<times> string) list \<Rightarrow> string" where
  "parameters_text first [] = []"
| "parameters_text first ((key, value) # ps) =
     (if first then ''?'' else ''&'') @ key @ (if value = [] then [] else ''='' @ value)
     @ parameters_text False ps"

definition pathWithParameters :: "request \<Rightarrow> string" where
  "pathWithParameters r = rq_path r @ parameters_text True (rq_parameters r)"

definition method_name :: "http_method \<Rightarrow> string" where
  "method_name m =
     (case m of MethodInvalid \<Rightarrow> ''Invalid'' | GET \<Rightarrow> ''GET'' | HEAD \<Rightarrow> ''HEAD'' | PUT \<Rightarrow> ''PUT''
      | POST \<Rightarrow> ''POST'')"

section \<open>Parameters\<close>

text \<open>A well-behaved browser's encoding of a form or query.\<close>

definition encode_pair :: "string \<times> string \<Rightarrow> string" where
  "encode_pair kv = escapeURL (fst kv) @ ''='' @ escapeURL (snd kv)"

definition encode_query :: "(string \<times> string) list \<Rightarrow> string" where
  "encode_query kvs = join (map encode_pair kvs) ''&''"

lemma unescape_encoded: "length (escapeURL s) < 2 ^ 64 \<Longrightarrow> unescape (escapeURL s) True = Inr s"
  using unescape_pct_decode [of "escapeURL s" True] escapeURL_short [of s] url.dec_inverse [of s]
  by (auto simp: escapeURL_def)

lemma escapeURL_avoids:
  "\<not> (isNumericChar c \<or> (65 \<le> ord c \<and> ord c \<le> 90) \<or> (97 \<le> ord c \<and> ord c \<le> 122))
     \<and> c \<notin> set ''+%._'' \<Longrightarrow> c \<notin> set (escapeURL s)"
  unfolding escapeURL_def using urlsafe.escaped_safe [of s] by blast

lemma escapeURL_plain: "CHR ''='' \<notin> set (escapeURL s)" "CHR ''&'' \<notin> set (escapeURL s)"
  "CHR '' '' \<notin> set (escapeURL s)" "CHR ''?'' \<notin> set (escapeURL s)"
  by (rule escapeURL_avoids, simp add: isNumericChar_def ord_def)+

lemma encode_pair_plain: "CHR ''&'' \<notin> set (encode_pair kv)" "encode_pair kv \<noteq> []"
  "CHR '' '' \<notin> set (encode_pair kv)"
  by (auto simp: encode_pair_def escapeURL_plain)

lemma add_encoded_parameter:
  assumes "length (encode_pair kv) < 2 ^ 64"
    and "substr 0 ampersand path = encode_pair kv"
  shows "add_parameter path ampersand ps = Inr (omap_put (fst kv) (snd kv) ps)"
proof -
  have "find_char (CHR ''='') (encode_pair kv) = Some (length (escapeURL (fst kv)))"
    by (simp add: encode_pair_def find_char_append escapeURL_plain)
  moreover have "length (escapeURL (fst kv)) < 2 ^ 64" "length (escapeURL (snd kv)) < 2 ^ 64"
    using assms(1) by (simp_all add: encode_pair_def)
  ultimately show ?thesis
    unfolding add_parameter_def assms(2)
    by (simp add: encode_pair_plain) (simp add: encode_pair_def unescape_encoded)
qed

lemma parameters_loop_encoded:
  "\<forall>kv \<in> set kvs. length (encode_pair kv) < 2 ^ 64 \<Longrightarrow> kvs \<noteq> [] \<Longrightarrow>
   parameters_loop (encode_query kvs) ps = Inr (fold (\<lambda>(k, v). omap_put k v) kvs ps)"
proof (induction kvs arbitrary: ps)
  case Nil
  then show ?case by simp
next
  case (Cons kv kvs)
  show ?case
  proof (cases kvs)
    case Nil
    with Cons.prems show ?thesis
      by (subst parameters_loop.simps)
        (simp add: encode_query_def join_Cons find_char_None [THEN iffD2] encode_pair_plain
          add_encoded_parameter case_prod_unfold)
  next
    case more: (Cons kv' kvs')
    then have enc: "encode_query (kv # kvs) = encode_pair kv @ CHR ''&'' # encode_query kvs"
      by (simp add: encode_query_def join_Cons)
    have "find_char (CHR ''&'') (encode_query (kv # kvs)) = Some (length (encode_pair kv))"
      unfolding enc by (simp add: find_char_append encode_pair_plain)
    moreover have "add_parameter (encode_query (kv # kvs)) (Some (length (encode_pair kv))) ps
      = Inr (omap_put (fst kv) (snd kv) ps)"
      using Cons.prems by (intro add_encoded_parameter) (simp_all add: enc)
    moreover have "drop (length (encode_pair kv) + 1) (encode_query (kv # kvs)) = encode_query kvs"
      by (simp add: enc)
    ultimately show ?thesis
      using Cons.IH [of "omap_put (fst kv) (snd kv) ps"] Cons.prems more
      by (subst parameters_loop.simps) (simp add: case_prod_unfold)
  qed
qed

lemma encode_query_plain: "CHR '' '' \<notin> set (encode_query kvs)"
proof (induction kvs)
  case Nil
  then show ?case by (simp add: encode_query_def join_def)
next
  case (Cons kv kvs)
  then show ?case by (simp add: encode_query_def join_Cons encode_pair_plain)
qed

text \<open>
  (C35) Query strings round trip: a query or form in which every key and value was encoded with
  \<open>escapeURL\<close> is parsed into exactly the map a client meant, the last of several values of one
  key winning, both as the query of a path and as the body of a form.
\<close>

theorem getParameters_roundtrip:
  assumes "\<forall>kv \<in> set kvs. length (encode_pair kv) < 2 ^ 64" and "kvs \<noteq> []"
    and "CHR ''?'' \<notin> set path"
  shows "getParameters (encode_query kvs) False = Inr (fold (\<lambda>(k, v). omap_put k v) kvs [])
    \<and> getParameters (path @ ''?'' @ encode_query kvs) True = Inr (fold (\<lambda>(k, v). omap_put k v) kvs [])
    \<and> getPath (path @ ''?'' @ encode_query kvs) = path"
  using assms
  by (simp add: getParameters_def getPath_def find_char_append parameters_loop_encoded)

theorem getParameters_roundtrip_witness:
  "getParameters (''/p?'' @ encode_query [(''a b'', ''1''), (''c'', '''')]) True
     = Inr [(''a b'', ''1''), (''c'', '''')]
   \<and> encode_query [(''a b'', ''1''), (''c'', '''')] = ''a+b=1&c=''"
  using getParameters_roundtrip [of "[(''a b'', ''1''), (''c'', '''')]" "''/p''"]
  by (simp add: encode_query_def encode_pair_def join_def escapeURL_def url_char_def
      isNumericChar_def ord_def less_char_def)

section \<open>Feeding lines\<close>

text \<open>
  The connection hands the parser one line after another for as long as it answers \<open>Continue\<close>.
\<close>

fun handleLines ::
  "(string \<Rightarrow> size_t option result) \<Rightarrow> string list \<Rightarrow> request \<Rightarrow> client_flags
   \<Rightarrow> (request \<times> client_flags) \<times> handle_result result" where
  "handleLines post_max_opt [] r cf = ((r, cf), Inr Continue)"
| "handleLines post_max_opt (l # ls) r cf =
     (case handleLine post_max_opt l r cf of
        ((r', cf'), Inr Continue) \<Rightarrow> handleLines post_max_opt ls r' cf'
      | stop \<Rightarrow> stop)"

definition eol :: string where
  "eol = [CHR 0x0D, CHR 0x0A]"

lemma strip_eol [simp]: "strip_suffix (CHR 0x0D) (strip_suffix (CHR 0x0A) (l @ eol)) = l"
  by (simp add: strip_suffix_def eol_def butlast_append)

lemma find_str_pair: "c \<notin> set p \<Longrightarrow> find_str [c, d] (p @ c # d # s) = Some (length p)"
  by (induction p) auto

lemma find_str_colon:
  "CHR '':'' \<notin> set name \<Longrightarrow> find_str '': '' (name @ '': '' @ value) = Some (length name)"
  by (simp add: find_str_pair)

lemma parse_method_name: "m \<noteq> MethodInvalid \<Longrightarrow> parse_method (method_name m) = Some m"
  by (cases m) (simp_all add: parse_method_def method_name_def)

lemma find_method_space:
  "find_char (CHR '' '') (method_name m @ CHR '' '' # s) = Some (length (method_name m))"
  by (cases m) (simp_all add: method_name_def)

lemma handleLine_method:
  assumes "rq_mode r = ModeMethod" and "m \<noteq> MethodInvalid" and "CHR '' '' \<notin> set target"
    and "getParameters target True = Inr ps" and "version \<in> {''HTTP/1.0'', ''HTTP/1.1''}"
  shows "handleLine pm (method_name m @ '' '' @ target @ '' '' @ version @ eol) r cf =
    ((r\<lparr>rq_method := m, rq_path := getPath target, rq_parameters := ps, rq_version := version,
        rq_mode := ModeHeaders\<rparr>, cf), Inr Continue)"
proof -
  let ?line = "method_name m @ '' '' @ target @ '' '' @ version"
  have "strip_suffix (CHR 0x0D) (strip_suffix (CHR 0x0A) (?line @ eol)) = ?line" by (rule strip_eol)
  moreover have "handle_method_line ?line r =
    (r\<lparr>rq_method := m, rq_path := getPath target, rq_parameters := ps, rq_version := version,
        rq_mode := ModeHeaders\<rparr>, Inr Continue)"
    using assms
    by (auto simp: handle_method_line_def find_method_space parse_method_name find_char_append)
  ultimately show ?thesis using assms(1) by (simp add: handleLine_def)
qed

definition header_text :: "string \<times> string \<Rightarrow> string" where
  "header_text h = fst h @ '': '' @ snd h @ eol"

definition plain_header :: "string \<times> string \<Rightarrow> bool" where
  "plain_header h \<longleftrightarrow> CHR '':'' \<notin> set (fst h)
     \<and> fst h \<noteq> ''Content-Length'' \<and> fst h \<noteq> ''Range'' \<and> fst h \<noteq> ''Connection''"

definition merge_headers ::
  "(string \<times> string) list \<Rightarrow> (string \<times> string) list \<Rightarrow> (string \<times> string) list" where
  "merge_headers hs headers = fold (\<lambda>h. merge_header (toLower (fst h)) (snd h)) hs headers"

lemma header_text_strip:
  "strip_suffix (CHR 0x0D) (strip_suffix (CHR 0x0A) (header_text h)) = fst h @ '': '' @ snd h"
  using strip_eol [of "fst h @ '': '' @ snd h"] by (simp only: header_text_def append_assoc)

lemma handleLine_header:
  assumes "rq_mode r = ModeHeaders" and "CHR '':'' \<notin> set (fst h)"
  shows "handleLine pm (header_text h) r cf = handle_header_line pm (fst h @ '': '' @ snd h) r cf"
  using assms header_text_strip [of h] by (simp add: handleLine_def)

lemma handleLine_plain_header:
  assumes "rq_mode r = ModeHeaders" and "plain_header h"
  shows "handleLine pm (header_text h) r cf =
    ((r\<lparr>rq_headers := merge_header (toLower (fst h)) (snd h) (rq_headers r)\<rparr>, cf), Inr Continue)"
  using assms find_str_colon [of "fst h" "snd h"]
  by (simp add: handleLine_header plain_header_def handle_header_line_def)

lemma handleLines_headers:
  assumes "list_all plain_header hs" and "rq_mode r = ModeHeaders"
  shows "handleLines pm (map header_text hs @ ls) r cf =
    handleLines pm ls (r\<lparr>rq_headers := merge_headers hs (rq_headers r)\<rparr>) cf"
  using assms
proof (induction hs arbitrary: r)
  case Nil
  then show ?case by (simp add: merge_headers_def)
next
  case (Cons h hs)
  then show ?case by (simp add: handleLine_plain_header merge_headers_def)
qed

text \<open>
  (C8) Request heads: a request line and header lines terminated by CR LF, with none of the
  three headers the parser interprets, are read into a request with that method, path,
  parameters and version; the headers are stored under their lower-case names with repeated
  ones joined, and the empty line completes a request that announced no body.
\<close>

theorem request_head_parsed:
  assumes "m \<noteq> MethodInvalid" and "CHR '' '' \<notin> set target" and "getParameters target True = Inr ps"
    and "version \<in> {''HTTP/1.0'', ''HTTP/1.1''}"
    and "list_all plain_header hs" and "map_of (merge_headers hs []) ''content-length'' = None"
  shows "handleLines pm ((method_name m @ '' '' @ target @ '' '' @ version @ eol)
      # map header_text hs @ [eol]) new_request cf =
    ((new_request\<lparr>rq_method := m, rq_path := getPath target, rq_parameters := ps,
        rq_version := version, rq_headers := merge_headers hs [], rq_mode := ModeContent\<rparr>, cf),
     Inr Done)"
proof -
  have start: "rq_mode new_request = ModeMethod" "rq_headers new_request = []"
    by (simp_all add: new_request_def)
  have "strip_suffix (CHR 0x0D) (strip_suffix (CHR 0x0A) eol) = []" using strip_eol [of "[]"] by simp
  then show ?thesis
    using handleLine_method [OF start(1) assms(1-4), of pm cf] assms(5,6)
    by (simp add: handleLines_headers start handleLine_def [of pm eol])
qed

theorem request_head_parsed_witness:
  "\<exists>r. handleLines (\<lambda>_. Inr None) [''GET /a HTTP/1.1'' @ eol, ''Host: x'' @ eol, ''host: y'' @ eol, eol]
      new_request \<lparr>cf_maxRead = 0, cf_keepAlive = False\<rparr>
    = ((r, \<lparr>cf_maxRead = 0, cf_keepAlive = False\<rparr>), Inr Done)
    \<and> rq_method r = GET \<and> rq_path r = ''/a'' \<and> rq_headers r = [(''host'', ''x y'')]"
proof -
  have low: "toLower ''Host'' = ''host''" "toLower ''host'' = ''host''"
    by (simp_all add: toLower_def lower_char_def ord_def char_of_def bit_0)
  have merged: "merge_headers [(''Host'', ''x''), (''host'', ''y'')] [] = [(''host'', ''x y'')]"
    by (simp add: merge_headers_def merge_header_def low)
  have "getParameters ''/a'' True = Inr []" by (simp add: getParameters_def)
  then show ?thesis
    using request_head_parsed [of GET "''/a''" "[]" "''HTTP/1.1''" "[(''Host'', ''x''), (''host'', ''y'')]"
        "\<lambda>_. Inr None" "\<lparr>cf_maxRead = 0, cf_keepAlive = False\<rparr>"]
    by (simp add: merged plain_header_def header_text_def method_name_def getPath_def)
qed

section \<open>Bodies\<close>

lemma handle_content_partial:
  assumes "length line < unat (rq_lengthRemaining r)"
  shows "handle_content line r =
    (r\<lparr>rq_content := rq_content r @ line,
       rq_lengthRemaining := rq_lengthRemaining r - of_nat (length line)\<rparr>, Inr Continue)"
  using assms by (auto simp: handle_content_def Let_def)

text \<open>What happens to a request whose body is complete.\<close>

definition finish_body :: "request \<Rightarrow> request \<times> handle_result result" where
  "finish_body r =
     (case (if rq_method r = POST then absorbPOST r else (r, Inr ())) of
        (r', Inl e) \<Rightarrow> (r', Inl e)
      | (r', Inr _) \<Rightarrow> (r'\<lparr>rq_mode := ModeMethod\<rparr>, Inr Done))"

lemma handle_content_exact:
  assumes "length line = unat (rq_lengthRemaining r)"
  shows "handle_content line r =
    finish_body (r\<lparr>rq_content := rq_content r @ line, rq_lengthRemaining := 0\<rparr>)"
  using assms by (simp add: handle_content_def finish_body_def)

lemma finish_body_not_Continue: "snd (finish_body r) \<noteq> Inr Continue"
  by (auto simp: finish_body_def split: prod.splits sum.splits)

lemma unat_sub_of_nat:
  assumes "n \<le> unat (w :: size_t)"
  shows "unat (w - of_nat n) = unat w - n"
proof -
  have "unat w < 2 ^ 64" using unsigned_less [of w] by simp
  with assms have "n < 2 ^ 64" by (rule le_less_trans)
  then have "unat (of_nat n :: size_t) = n"
    by (simp add: unsigned_of_nat take_bit_nat_eq_self)
  with assms show ?thesis by (simp add: unat_sub word_le_nat_alt)
qed

lemma handleLines_body:
  assumes "rq_mode r = ModeContent" and "unat (rq_lengthRemaining r) = length (concat chunks)"
    and "\<forall>c \<in> set chunks. c \<noteq> []" and "chunks \<noteq> []"
  shows "handleLines pm chunks r cf =
    (case finish_body (r\<lparr>rq_content := rq_content r @ concat chunks, rq_lengthRemaining := 0\<rparr>) of
       (r', res) \<Rightarrow> ((r', cf), res))"
  using assms
proof (induction chunks arbitrary: r)
  case Nil
  then show ?case by simp
next
  case (Cons c chunks)
  show ?case
  proof (cases chunks)
    case Nil
    with Cons.prems show ?thesis
      using finish_body_not_Continue [of "r\<lparr>rq_content := rq_content r @ c, rq_lengthRemaining := 0\<rparr>"]
      by (auto simp: handleLine_def handle_content_exact split: prod.splits sum.splits handle_result.splits)
  next
    case more: (Cons c' cs)
    let ?r = "r\<lparr>rq_content := rq_content r @ c,
                rq_lengthRemaining := rq_lengthRemaining r - of_nat (length c)\<rparr>"
    have "length c < unat (rq_lengthRemaining r)" using Cons.prems more by simp
    then have "handleLine pm c r cf = ((?r, cf), Inr Continue)"
      using Cons.prems by (simp add: handleLine_def handle_content_partial)
    moreover have "unat (rq_lengthRemaining ?r) = length (concat chunks)"
      using Cons.prems by (simp add: unat_sub_of_nat)
    ultimately show ?thesis using Cons.IH [of ?r] Cons.prems more by simp
  qed
qed

text \<open>
  (C9) Bodies: however the network splits a body into pieces, feeding them to a request that
  waits for exactly that many bytes ends with \<open>Done\<close>, the body in the content in order and none
  of it lost; a form posted that way ends up as the parameters its encoder meant, the content
  being cleared.
\<close>

theorem body_reassembled:
  assumes "rq_mode r = ModeContent" and "rq_content r = []"
    and "unat (rq_lengthRemaining r) = length (concat chunks)"
    and "\<forall>c \<in> set chunks. c \<noteq> []" and "chunks \<noteq> []"
  shows "(rq_method r \<noteq> POST \<longrightarrow> handleLines pm chunks r cf =
      ((r\<lparr>rq_content := concat chunks, rq_lengthRemaining := 0, rq_mode := ModeMethod\<rparr>, cf), Inr Done))
    \<and> (rq_method r = POST \<and> concat chunks = encode_query kvs \<and> kvs \<noteq> []
        \<and> map_of (rq_headers r) ''content-type'' \<in> {None, Some ''application/x-www-form-urlencoded''}
        \<and> (\<forall>kv \<in> set kvs. length (encode_pair kv) < 2 ^ 64) \<longrightarrow>
      handleLines pm chunks r cf =
      ((r\<lparr>rq_content := [], rq_lengthRemaining := 0, rq_mode := ModeMethod,
          rq_postParameters := fold (\<lambda>(k, v). omap_put k v) kvs []\<rparr>, cf), Inr Done))"
  using handleLines_body [OF assms(1,3-5), of pm cf] assms(2)
  by (auto simp: finish_body_def absorbPOST_def getParameters_def parameters_loop_encoded)

theorem body_reassembled_witness:
  "handleLines (\<lambda>_. Inr None) [''a='', ''1&b=2'']
      (new_request\<lparr>rq_mode := ModeContent, rq_method := POST, rq_lengthRemaining := 7\<rparr>)
      \<lparr>cf_maxRead = 7, cf_keepAlive = False\<rparr>
   = ((new_request\<lparr>rq_method := POST, rq_postParameters := [(''a'', ''1''), (''b'', ''2'')]\<rparr>,
       \<lparr>cf_maxRead = 7, cf_keepAlive = False\<rparr>), Inr Done)"
  using body_reassembled [of "new_request\<lparr>rq_mode := ModeContent, rq_method := POST, rq_lengthRemaining := 7\<rparr>"
      "[''a='', ''1&b=2'']" "\<lambda>_. Inr None" "\<lparr>cf_maxRead = 7, cf_keepAlive = False\<rparr>"
      "[(''a'', ''1''), (''b'', ''2'')]"]
  by (simp add: new_request_def encode_query_def encode_pair_def join_def escapeURL_def url_char_def
      isNumericChar_def ord_def less_char_def)

text \<open>
  Two behaviours at the edges.  A piece longer than what is missing contributes its \<^emph>\<open>tail\<close>: the
  bytes that belong to the body are dropped and those after it are kept.  And a request without
  a body stays in content mode after \<open>Done\<close>: the next request line on a connection that is kept
  alive is not parsed but completes the old request a second time.
\<close>

lemma oversized_piece_keeps_tail:
  assumes "unat (rq_lengthRemaining r) < length line"
  shows "handle_content line r = finish_body (r\<lparr>rq_content :=
    rq_content r @ drop (unat (rq_lengthRemaining r)) line, rq_lengthRemaining := 0\<rparr>)"
  using assms by (simp add: handle_content_def finish_body_def)

lemma finished_request_replayed:
  assumes "rq_mode r = ModeContent" and "rq_lengthRemaining r = 0" and "rq_method r \<noteq> POST"
  shows "handleLine pm line r cf =
    ((r\<lparr>rq_content := rq_content r @ line, rq_mode := ModeMethod\<rparr>, cf), Inr Done)"
  using assms by (auto simp: handleLine_def handle_content_def)

section \<open>The invariant\<close>

text \<open>
  What holds of a request at all times: its maps are maps, and every header is stored under a
  lower-case name, which is what the look-ups of \<open>content-type\<close>, \<open>authorization\<close> and the rest
  rely on.
\<close>

definition request_ok :: "request \<Rightarrow> bool" where
  "request_ok r \<longleftrightarrow> omap_ok (rq_headers r) \<and> omap_ok (rq_parameters r) \<and> omap_ok (rq_postParameters r)
     \<and> (\<forall>k \<in> fst ` set (rq_headers r). toLower k = k)"

lemma add_parameter_ok: "add_parameter path a ps = Inr ps' \<Longrightarrow> omap_ok ps \<Longrightarrow> omap_ok ps'"
  by (auto simp: add_parameter_def Let_def result_simps omap_ok_put split: if_splits option.splits)

lemma parameters_loop_ok: "parameters_loop path ps = Inr ps' \<Longrightarrow> omap_ok ps \<Longrightarrow> omap_ok ps'"
proof (induction path ps arbitrary: ps' rule: parameters_loop.induct)
  case (1 path ps)
  show ?case
  proof (cases "find_char (CHR ''&'') path")
    case None
    with 1 show ?thesis by (subst (asm) (2) parameters_loop.simps) (auto intro: add_parameter_ok)
  next
    case (Some a)
    with "1.prems" obtain qs where "add_parameter path (Some a) ps = Inr qs"
      "parameters_loop (drop (a + 1) path) qs = Inr ps'"
      by (subst (asm) parameters_loop.simps) (auto simp: result_simps)
    with Some 1 show ?thesis by (blast intro: add_parameter_ok)
  qed
qed

lemma getParameters_ok: "getParameters path b = Inr ps \<Longrightarrow> omap_ok ps"
  by (auto simp: getParameters_def intro: parameters_loop_ok split: if_splits option.splits)

lemma merge_header_ok: "omap_ok hs \<Longrightarrow> omap_ok (merge_header n v hs)"
  by (simp add: merge_header_def omap_ok_put split: option.splits)

lemma merge_header_keys: "fst ` set (merge_header n v hs) = insert n (fst ` set hs)"
  by (simp add: merge_header_def set_fst_omap_put split: option.splits)

lemma parse_piece_ok: "request_ok r \<Longrightarrow> request_ok (fst (parse_piece piece r))"
  by (auto simp: parse_piece_def request_ok_def split: option.splits nat.splits sum.splits if_splits)

lemma range_loop_ok: "request_ok r \<Longrightarrow> request_ok (fst (range_loop content r))"
proof (induction content r rule: range_loop.induct)
  case (1 content r)
  show ?case
  proof (cases "content = [] \<or> find_str '', '' content = None")
    case True
    with "1.prems" show ?thesis by (subst range_loop.simps) (auto simp: parse_piece_ok)
  next
    case False
    then obtain sep where sep: "content \<noteq> []" "find_str '', '' content = Some sep" by auto
    obtain r' res where piece: "parse_piece (take sep content) r = (r', res)" by fastforce
    with parse_piece_ok [OF "1.prems", of "take sep content"] have ok: "request_ok r'" by simp
    show ?thesis
    proof (cases res)
      case (Inl e)
      with sep piece ok show ?thesis by (subst range_loop.simps) simp
    next
      case (Inr u)
      with "1.IH" [OF sep piece [symmetric] Inr ok] sep piece show ?thesis
        by (subst range_loop.simps) simp
    qed
  qed
qed

lemma parseRange_ok: "request_ok r \<Longrightarrow> request_ok (fst (parseRange content r))"
  using range_loop_ok [of "r\<lparr>rq_ranges := []\<rparr>" "drop 6 content"]
  by (auto simp: parseRange_def request_ok_def split: prod.splits sum.splits)

lemma handle_content_length_ok:
  "request_ok r \<Longrightarrow> request_ok (fst (handle_content_length pm h r))"
  by (auto simp: handle_content_length_def request_ok_def Let_def split: sum.splits)

lemma handle_header_line_ok:
  assumes "request_ok r"
  shows "request_ok (fst (fst (handle_header_line pm line r cf)))"
proof (cases "find_str '': '' line")
  case None
  with assms show ?thesis by (simp add: handle_header_line_def)
next
  case (Some sep)
  have ok: "request_ok (r\<lparr>rq_headers := merge_header (toLower n) v (rq_headers r)\<rparr>)" for n v
    using assms by (simp add: request_ok_def merge_header_ok merge_header_keys)
  with Some show ?thesis
    by (simp add: handle_header_line_def Let_def case_prod_unfold handle_content_length_ok
        parseRange_ok split: sum.split)
qed

lemma handle_method_line_ok: "request_ok r \<Longrightarrow> request_ok (fst (handle_method_line line r))"
  by (auto simp: handle_method_line_def request_ok_def Let_def getParameters_ok
      split: option.splits sum.splits)

lemma finish_body_ok: "request_ok r \<Longrightarrow> request_ok (fst (finish_body r))"
  by (auto simp: finish_body_def absorbPOST_def request_ok_def getParameters_ok
      split: prod.splits sum.splits option.splits if_splits)

lemma handle_content_cases:
  "\<exists>c. fst (handle_content line r) = fst (finish_body (r\<lparr>rq_content := c, rq_lengthRemaining := 0\<rparr>))
     \<or> (\<exists>n. fst (handle_content line r) = r\<lparr>rq_content := c, rq_lengthRemaining := n\<rparr>)"
  by (cases "length line" "unat (rq_lengthRemaining r)" rule: linorder_cases)
    (auto simp: handle_content_partial handle_content_exact oversized_piece_keeps_tail)

lemma handle_content_ok: "request_ok r \<Longrightarrow> request_ok (fst (handle_content line r))"
proof -
  assume ok: "request_ok r"
  then have "request_ok (r\<lparr>rq_content := c, rq_lengthRemaining := n\<rparr>)" for c n
    by (simp add: request_ok_def)
  with handle_content_cases [of line r] finish_body_ok show ?thesis by metis
qed

text \<open>
  (C34) The parser's invariant: whatever bytes arrive, and also when a line is answered with an
  exception, the request keeps well-formed maps and lower-case header names.
\<close>

theorem handleLine_request_ok:
  assumes "request_ok r"
  shows "request_ok new_request \<and> request_ok (fst (fst (handleLine pm line r cf)))"
proof
  show "request_ok new_request" by (simp add: request_ok_def new_request_def)
  have "request_ok (r\<lparr>rq_mode := ModeContent\<rparr>)" using assms by (simp add: request_ok_def)
  then show "request_ok (fst (fst (handleLine pm line r cf)))"
    using handle_method_line_ok [OF assms] handle_header_line_ok [OF assms] handle_content_ok [OF assms]
    by (auto simp: handleLine_def Let_def case_prod_unfold split: request_mode.splits)
qed

theorem handleLine_request_ok_witness:
  "request_ok (fst (fst (handleLine (\<lambda>_. Inr None) ''PATCH / HTTP/1.1'' new_request
     \<lparr>cf_maxRead = 0, cf_keepAlive = False\<rparr>)))"
  using handleLine_request_ok [of new_request "\<lambda>_. Inr None" "''PATCH / HTTP/1.1''"
      "\<lparr>cf_maxRead = 0, cf_keepAlive = False\<rparr>"]
  by (simp add: request_ok_def new_request_def)

section \<open>Authentication\<close>

lemma find_char_Some_iff:
  "find_char c s = Some k \<longleftrightarrow> k < length s \<and> s = take k s @ c # drop (Suc k) s \<and> c \<notin> set (take k s)"
proof
  assume "find_char c s = Some k"
  then show "k < length s \<and> s = take k s @ c # drop (Suc k) s \<and> c \<notin> set (take k s)"
    using find_char_Some find_char_split by blast
next
  assume k: "k < length s \<and> s = take k s @ c # drop (Suc k) s \<and> c \<notin> set (take k s)"
  then have "find_char c (take k s @ c # drop (Suc k) s) = Some (length (take k s))"
    by (intro find_char_append) blast
  with k show "find_char c s = Some k" by simp
qed

text \<open>
  (C33) Basic authentication: credentials encoded as RFC 7617 says are decoded again and
  compared, user name first; and nothing but an \<open>authorization\<close> header whose decoded text is the
  configured user name, a colon and the configured password is accepted.
\<close>

theorem checkAuthentication_correct:
  assumes "CHR '':'' \<notin> set user"
  shows "(map_of (rq_headers r) ''authorization'' = Some (''Basic '' @ base64Encode (user @ '':'' @ pass)) \<longrightarrow>
      checkAuthentication r username password =
        (if user \<noteq> username then BadUsername else if pass \<noteq> password then BadPassword else Success))
    \<and> (checkAuthentication r username password = Success \<longrightarrow>
      (\<exists>code. map_of (rq_headers r) ''authorization'' = Some (''Basic '' @ code)
        \<and> base64Decode code = username @ '':'' @ password))"
proof (intro conjI impI)
  assume "map_of (rq_headers r) ''authorization'' = Some (''Basic '' @ base64Encode (user @ '':'' @ pass))"
  then show "checkAuthentication r username password =
      (if user \<noteq> username then BadUsername else if pass \<noteq> password then BadPassword else Success)"
    using assms
    by (simp add: checkAuthentication_def base64Decode_base64Encode find_char_append)
next
  assume "checkAuthentication r username password = Success"
  then obtain auth colon where auth: "map_of (rq_headers r) ''authorization'' = Some auth"
      "take 6 auth = ''Basic ''" "find_char (CHR '':'') (base64Decode (drop 6 auth)) = Some colon"
      "take colon (base64Decode (drop 6 auth)) = username"
      "drop (colon + 1) (base64Decode (drop 6 auth)) = password"
    by (auto simp: checkAuthentication_def Let_def split: option.splits if_splits)
  have "base64Decode (drop 6 auth) = username @ '':'' @ password"
    using find_char_split [OF auth(3)] auth(4,5) by simp
  moreover have "auth = ''Basic '' @ drop 6 auth"
    using auth(2) append_take_drop_id [of 6 auth] by simp
  ultimately show "\<exists>code. map_of (rq_headers r) ''authorization'' = Some (''Basic '' @ code)
      \<and> base64Decode code = username @ '':'' @ password"
    using auth(1) by metis
qed

theorem checkAuthentication_correct_witness:
  "checkAuthentication (new_request\<lparr>rq_headers := [(''authorization'',
       ''Basic '' @ base64Encode (''kai'' @ '':'' @ ''a:b''))]\<rparr>) ''kai'' ''a:b'' = Success"
  using checkAuthentication_correct [of "''kai''" "new_request\<lparr>rq_headers := [(''authorization'',
       ''Basic '' @ base64Encode (''kai'' @ '':'' @ ''a:b''))]\<rparr>" "''a:b''" "''kai''" "''a:b''"]
  by simp

section \<open>Ranges, verified\<close>

definition range_text :: "nat \<times> nat \<Rightarrow> string" where
  "range_text se = to_string_nat (fst se) @ ''-'' @ to_string_nat (snd se)"

definition range_words :: "nat \<times> nat \<Rightarrow> range" where
  "range_words se = (of_nat (fst se), of_nat (snd se))"

lemma to_string_nat_avoids: "\<not> isNumericChar c \<Longrightarrow> c \<notin> set (to_string_nat n)"
  using to_string_nat_digits [of n] by (auto simp: list_all_iff)

lemma digit_heads:
  "\<not> isNumericChar (CHR ''-'')" "\<not> isNumericChar (CHR '','')"
  by (simp_all add: isNumericChar_def ord_def)

lemma parse_piece_text:
  assumes "fst se < 2 ^ 64" and "snd se < 2 ^ 64"
  shows "parse_piece (range_text se) r = (r\<lparr>rq_ranges := rq_ranges r @ [range_words se]\<rparr>, Inr ())"
proof -
  let ?a = "to_string_nat (fst se)" and ?b = "to_string_nat (snd se)"
  have ne: "?a \<noteq> []" "?b \<noteq> []" using to_string_nat_digits by blast+
  have hyphen: "find_char (CHR ''-'') (range_text se) = Some (length ?a)"
    by (simp add: range_text_def find_char_append to_string_nat_avoids digit_heads)
  obtain k where k: "length ?a = Suc k" using ne by (cases ?a) auto
  have "parseUlong_view ?a = Inr (of_nat (fst se))" "parseUlong_view ?b = Inr (of_nat (snd se))"
    using parseUlong_view_digits [of "[]"] assms by simp_all
  moreover have "take (Suc k) (range_text se) = ?a" "drop (Suc k + 1) (range_text se) = ?b"
    using k by (simp_all add: range_text_def)
  moreover have "Suc k \<noteq> length (range_text se) - 1" using k ne by (simp add: range_text_def)
  ultimately show ?thesis
    unfolding parse_piece_def hyphen k by (simp add: range_words_def)
qed

lemma find_separator_text:
  "find_str '', '' (range_text se) = None"
  "find_str '', '' (range_text se @ '', '' @ s) = Some (length (range_text se))"
proof -
  have avoid: "CHR '','' \<notin> set (range_text se)"
    by (simp add: range_text_def to_string_nat_avoids digit_heads)
  show "find_str '', '' (range_text se @ '', '' @ s) = Some (length (range_text se))"
    using find_str_pair [OF avoid, of "CHR '' ''" s] by simp
  have "find_str '', '' t = None" if "CHR '','' \<notin> set t" for t
    using that by (induction t) auto
  with avoid show "find_str '', '' (range_text se) = None" by blast
qed

lemma range_loop_text:
  assumes "\<forall>se \<in> set ses. fst se < 2 ^ 64 \<and> snd se < 2 ^ 64"
  shows "range_loop (join (map range_text ses) '', '') r =
    (r\<lparr>rq_ranges := rq_ranges r @ map range_words ses\<rparr>, Inr ())"
  using assms
proof (induction ses arbitrary: r)
  case Nil
  then show ?case by (subst range_loop.simps) (simp add: join_def)
next
  case (Cons se ses)
  have ne: "range_text se \<noteq> []" by (simp add: range_text_def)
  show ?case
  proof (cases ses)
    case Nil
    with Cons.prems ne show ?thesis
      by (subst range_loop.simps) (simp add: join_Cons find_separator_text parse_piece_text)
  next
    case (Cons se' ses')
    then have split: "join (map range_text (se # ses)) '', '' =
        range_text se @ '', '' @ join (map range_text ses) '', ''"
      by (simp add: join_Cons)
    have "find_str '', '' (join (map range_text (se # ses)) '', '') = Some (length (range_text se))"
      "take (length (range_text se)) (join (map range_text (se # ses)) '', '') = range_text se"
      "drop (length (range_text se) + 2) (join (map range_text (se # ses)) '', '') = join (map range_text ses) '', ''"
      "join (map range_text (se # ses)) '', '' \<noteq> []"
      unfolding split by (simp_all only: find_separator_text) (simp_all add: ne)
    then show ?thesis
      using Cons.IH [of "r\<lparr>rq_ranges := rq_ranges r @ [range_words se]\<rparr>"] Cons.prems
      by (subst range_loop.simps) (simp add: parse_piece_text)
  qed
qed

text \<open>
  (C32) Range headers: a list of closed byte ranges in the syntax of RFC 9110 (with a blank
  after each comma) is read into exactly those ranges, in order, replacing any earlier ones;
  any other unit is refused and leaves the request as it was.
\<close>

theorem parseRange_text:
  assumes "\<forall>se \<in> set ses. fst se < 2 ^ 64 \<and> snd se < 2 ^ 64"
  shows "parseRange (''bytes='' @ join (map range_text ses) '', '') r =
      (r\<lparr>rq_ranges := map range_words ses\<rparr>, Inr ())
    \<and> (take 6 content \<noteq> ''bytes='' \<longrightarrow>
      parseRange content r = (r, Inl (ParseError ''parseRange: invalid unit'')))"
  using range_loop_text [OF assms, of "r\<lparr>rq_ranges := []\<rparr>"] by (simp add: parseRange_def)

theorem parseRange_text_witness:
  "parseRange ''bytes=0-99, 200-299'' new_request
     = (new_request\<lparr>rq_ranges := [(0, 99), (200, 299)]\<rparr>, Inr ())"
  using parseRange_text [of "[(0, 99), (200, 299)]" new_request]
  by (simp add: range_text_def range_words_def join_def to_string_nat.simps char_of_def bit_0)

text \<open>
  What \<open>valid\<close> guarantees.  The loop starts at the second range, so the order of the ends of the
  first is never looked at, and a range may end at the size itself, one past the last byte.
\<close>

lemma valid_single:
  assumes "rq_ranges r = [(s, e)]" and "std_sort [(s, e)] = [(s, e)]"
    and "rq_suffixLength r \<le> sz"
  shows "snd (valid std_sort sz r) \<longleftrightarrow> e \<le> sz - rq_suffixLength r"
  using assms by (auto simp: valid_def Let_def not_less)

lemma valid_pairs_bounds:
  "valid_pairs sz rs \<Longrightarrow> Suc i < length rs \<Longrightarrow>
   fst (rs ! Suc i) < snd (rs ! Suc i) \<and> snd (rs ! i) \<le> fst (rs ! Suc i) \<and> snd (rs ! Suc i) \<le> sz"
proof (induction sz rs arbitrary: i rule: valid_pairs.induct)
  case (1 sz s0 e0 s1 e1 ranges)
  then show ?case by (cases i) (auto split: if_splits)
qed auto

end
