(* ===== verification/Http_Response.thy ===== *)
theory Http_Response
  imports Util_Strings
begin

text \<open>
  \<open>src/http/Response.cpp\<close> and \<open>include/http/Response.h\<close>: an HTTP response and its
  serialisation.  The variant \<open>content\<close> holds a string or a view of one; both are the byte
  string they denote.  The rendering of a time stamp (\<open>localtime_r\<close>, \<open>strftime\<close>, the time zone
  of the host) is a parameter of \<open>setLastModified\<close>.
\<close>

section \<open>Model\<close>

record response =
  rs_code :: int
  rs_mime :: string
  rs_content :: string
  rs_charset :: string
  rs_headers :: "(string \<times> string) list"
  rs_noContentType :: bool

definition codeDescriptions :: "(int \<times> string) list" where
  "codeDescriptions =
    [(100, ''Continue''),
     (101, ''Switching Protocols''),
     (102, ''Processing''),
     (103, ''Early Hints''),
     (200, ''OK''),
     (201, ''Created''),
     (202, ''Accepted''),
     (203, ''Non-Authoritative Information''),
     (204, ''No Content''),
     (205, ''Reset Content''),
     (206, ''Partial Content''),
     (207, ''Multi-Status''),
     (208, ''Already Reported''),
     (226, ''IM Used''),
     (300, ''Multiple Choices''),
     (301, ''Moved Permanently''),
     (302, ''Found''),
     (303, ''See Other''),
     (304, ''Not Modified''),
     (305, ''Use Proxy''),
     (306, ''Switch Proxy''),
     (307, ''Temporary Redirect''),
     (308, ''Permanent Redirect''),
     (400, ''Bad Request''),
     (401, ''Unauthorized''),
     (402, ''Payment Required''),
     (403, ''Forbidden''),
     (404, ''Not Found''),
     (405, ''Method Not Allowed''),
     (406, ''Not Acceptable''),
     (407, ''Proxy Authentication Required''),
     (408, ''Request Timeout''),
     (409, ''Conflict''),
     (410, ''Gone''),
     (411, ''Length Required''),
     (412, ''Precondition Failed''),
     (413, ''Payload Too Large''),
     (414, ''URI Too Long''),
     (415, ''Unsupported Media Type''),
     (416, ''Range Not Satisfiable''),
     (417, ''Expectation Failed''),
     (418, ''I'' @ [CHR 0x27] @ ''m a teapot''),
     (421, ''Misdirected Request''),
     (422, ''Unprocessable Entity''),
     (423, ''Locked''),
     (424, ''Failed Dependency''),
     (425, ''Too Early''),
     (426, ''Upgrade Required''),
     (428, ''Precondition Required''),
     (429, ''Too Many Requests''),
     (431, ''Request Header Fields Too Large''),
     (451, ''Unavailable For Legal Reasons''),
     (500, ''Internal Server Error''),
     (501, ''Not Implemented''),
     (502, ''Bad Gateway''),
     (503, ''Service Unavailable''),
     (504, ''Gateway Timeout''),
     (505, ''HTTP Version Not Supported''),
     (506, ''Variant Also Negotiates''),
     (507, ''Insufficient Storage''),
     (508, ''Loop Detected''),
     (510, ''Not Extended''),
     (511, ''Network Authentication Required'')]"

abbreviation crlf :: string where
  "crlf \<equiv> [CHR 0x0D, CHR 0x0A]"

definition generate500 :: string where
  "generate500 =
     (let body = ''Internal Server Error''
      in ''HTTP/1.1 500 Internal Server Error'' @ crlf
         @ ''Content-Type: text/html; charset=UTF-8'' @ crlf
         @ ''Content-Length: '' @ to_string_nat (length body) @ crlf
         @ ''Connection: close'' @ crlf @ crlf @ body)"

definition setHeader :: "string \<Rightarrow> string \<Rightarrow> response \<Rightarrow> response" where
  "setHeader header value r = r\<lparr>rs_headers := omap_put (toLower header) value (rs_headers r)\<rparr>"

definition setClose :: "bool \<Rightarrow> response \<Rightarrow> response" where
  "setClose close r =
     (if close then setHeader ''Connection'' ''close'' r
      else if map_of (rs_headers r) ''connection'' = Some ''close''
      then r\<lparr>rs_headers := omap_del ''connection'' (rs_headers r)\<rparr>
      else r)"

definition Response :: "int \<Rightarrow> string \<Rightarrow> string \<Rightarrow> response" where
  "Response code content mime =
     setClose True \<lparr>rs_code = code, rs_mime = mime, rs_content = content, rs_charset = [],
       rs_headers = [], rs_noContentType = False\<rparr>"

abbreviation HtmlResponse :: "int \<Rightarrow> string \<Rightarrow> response" where
  "HtmlResponse code content \<equiv> Response code content ''text/html''"

definition setMIME :: "string \<Rightarrow> response \<Rightarrow> response" where
  "setMIME mime r = r\<lparr>rs_mime := mime\<rparr>"

definition setCharset :: "string \<Rightarrow> response \<Rightarrow> response" where
  "setCharset charset r = r\<lparr>rs_charset := charset\<rparr>"

definition setHeaders :: "(string \<times> string) list \<Rightarrow> response \<Rightarrow> response" where
  "setHeaders headers r = r\<lparr>rs_headers := headers\<rparr>"

definition setNoContentType :: "bool \<Rightarrow> response \<Rightarrow> response" where
  "setNoContentType value r = r\<lparr>rs_noContentType := value\<rparr>"

definition setAcceptRanges :: "bool \<Rightarrow> response \<Rightarrow> response" where
  "setAcceptRanges value r =
     (if value then r\<lparr>rs_headers := omap_put ''accept-ranges'' ''bytes'' (rs_headers r)\<rparr>
      else r\<lparr>rs_headers := omap_del ''accept-ranges'' (rs_headers r)\<rparr>)"

definition setLastModified :: "('time \<Rightarrow> string) \<Rightarrow> 'time \<Rightarrow> response \<Rightarrow> response" where
  "setLastModified formatTime when r =
     r\<lparr>rs_headers := omap_put ''last-modified'' (formatTime when) (rs_headers r)\<rparr>"

text \<open>\<open>response[name] = value\<close>: the name is used as it is, without lowering its case.\<close>

definition putHeader :: "string \<Rightarrow> string \<Rightarrow> response \<Rightarrow> response" where
  "putHeader name value r = r\<lparr>rs_headers := omap_put name value (rs_headers r)\<rparr>"

definition contentView :: "response \<Rightarrow> string" where
  "contentView r = rs_content r"

definition header_line :: "string \<times> string \<Rightarrow> string" where
  "header_line = (\<lambda>(header, value). header @ '': '' @ value)"

definition head_lines :: "response \<Rightarrow> string \<Rightarrow> string list" where
  "head_lines r description =
     [''HTTP/1.1 '' @ to_string_int (rs_code r) @ '' '' @ description]
     @ (if \<not> rs_noContentType r \<and> map_of (rs_headers r) ''content-type'' = None
        then [''Content-Type: '' @ rs_mime r
              @ (if rs_charset r = [] then [] else ''; charset='' @ rs_charset r)]
        else [])
     @ (if map_of (rs_headers r) ''content-length'' = None
        then [''Content-Length: '' @ to_string_nat (length (rs_content r))] else [])
     @ map header_line (rs_headers r)"

definition noContent :: "response \<Rightarrow> string" where
  "noContent r =
     (case map_of codeDescriptions (rs_code r) of
        None \<Rightarrow> generate500
      | Some description \<Rightarrow> concat (map (\<lambda>l. l @ crlf) (head_lines r description)) @ crlf)"

definition response_string :: "response \<Rightarrow> string" where
  "response_string r = noContent r @ rs_content r"

section \<open>Framing\<close>

text \<open>
  How a client reads a response: lines ended by CRLF up to an empty line, then the body.
\<close>

function read_head :: "string \<Rightarrow> (string list \<times> string) option" where
  "read_head s =
     (case find_str crlf s of
        None \<Rightarrow> None
      | Some k \<Rightarrow>
          (if k = 0 then Some ([], drop 2 s)
           else map_option (\<lambda>(ls, body). (take k s # ls, body)) (read_head (drop (k + 2) s))))"
  by pat_completeness auto
termination
proof (relation "measure length", goal_cases)
  case (2 s k)
  then show ?case using find_str_bound [of crlf s k] by auto
qed simp

declare read_head.simps [simp del]

definition clean :: "string \<Rightarrow> bool" where
  "clean s \<longleftrightarrow> CHR 0x0A \<notin> set s"

definition clean_response :: "response \<Rightarrow> bool" where
  "clean_response r \<longleftrightarrow> clean (rs_mime r) \<and> clean (rs_charset r)
     \<and> (\<forall>(h, v) \<in> set (rs_headers r). clean h \<and> clean v)"

lemma clean_simps [simp]:
  "clean []" "clean (c # s) \<longleftrightarrow> c \<noteq> CHR 0x0A \<and> clean s" "clean (s @ t) \<longleftrightarrow> clean s \<and> clean t"
  by (auto simp: clean_def)

lemma clean_to_string_nat [simp]: "clean (to_string_nat n)"
  using to_string_nat_digits [of n]
  by (auto simp: clean_def list_all_iff isNumericChar_def ord_def)

lemma clean_to_string_int [simp]: "clean (to_string_int n)"
  by (simp add: to_string_int_def)

lemma find_crlf: "clean l \<Longrightarrow> find_str crlf (l @ crlf @ s) = Some (length l)"
proof (induction l)
  case (Cons c l)
  then have "take 2 (c # l @ crlf @ s) \<noteq> crlf" by (cases l) auto
  with Cons show ?case by simp
qed simp

lemma read_head_line:
  "clean l \<Longrightarrow> l \<noteq> [] \<Longrightarrow> read_head (l @ crlf @ s) =
     map_option (\<lambda>(ls, body). (l # ls, body)) (read_head s)"
  using find_crlf [of l s] by (subst read_head.simps) simp

lemma read_head_lines:
  "\<forall>l \<in> set ls. clean l \<and> l \<noteq> [] \<Longrightarrow>
   read_head (concat (map (\<lambda>l. l @ crlf) ls) @ crlf @ body) = Some (ls, body)"
proof (induction ls)
  case Nil
  show ?case by (subst read_head.simps) simp
next
  case (Cons l ls)
  then show ?case using read_head_line [of l "concat (map (\<lambda>l. l @ crlf) ls) @ crlf @ body"] by simp
qed

lemma clean_descriptions: "map_of codeDescriptions code = Some d \<Longrightarrow> clean d"
proof -
  assume "map_of codeDescriptions code = Some d"
  then have "(code, d) \<in> set codeDescriptions" by (rule map_of_SomeD)
  moreover have "list_all (\<lambda>(c, d). clean d) codeDescriptions"
    by (simp add: codeDescriptions_def)
  ultimately show "clean d" by (auto simp: list_all_iff)
qed

lemma head_lines_clean:
  assumes "clean_response r" and "clean d" and "l \<in> set (head_lines r d)"
  shows "clean l \<and> l \<noteq> []"
  using assms
  by (auto simp: head_lines_def header_line_def clean_response_def split: if_splits)

text \<open>
  (C37) Framing of responses: when no header value, media type or charset contains a line feed,
  a client that reads lines up to the empty one gets exactly the status line and the headers
  of the response, and after them exactly its content.  If no \<open>content-length\<close> header was set,
  the announced length is the length of that content.
\<close>

theorem response_framing:
  assumes "clean_response r" and "map_of codeDescriptions (rs_code r) = Some d"
  shows "read_head (response_string r) = Some (head_lines r d, rs_content r)
    \<and> (map_of (rs_headers r) ''content-length'' = None \<longrightarrow>
        ''Content-Length: '' @ to_string_nat (length (rs_content r)) \<in> set (head_lines r d))"
proof
  have "clean d" using assms(2) by (rule clean_descriptions)
  then have "\<forall>l \<in> set (head_lines r d). clean l \<and> l \<noteq> []"
    using head_lines_clean [OF assms(1)] by blast
  then show "read_head (response_string r) = Some (head_lines r d, rs_content r)"
    using assms(2) read_head_lines [of "head_lines r d" "rs_content r"]
    by (simp add: response_string_def noContent_def)
qed (simp add: head_lines_def)

theorem response_framing_witness:
  "read_head (response_string (HtmlResponse 404 ''Not Found''))
     = Some ([''HTTP/1.1 404 Not Found'', ''Content-Type: text/html'', ''Content-Length: 9'',
              ''connection: close''], ''Not Found'')"
proof -
  have "map_of codeDescriptions 404 = Some ''Not Found''" by (simp add: codeDescriptions_def)
  moreover have "to_string_int 404 = ''404''"
    by (simp add: to_string_int_def to_string_nat.simps char_of_def bit_0)
  moreover have "to_string_nat (length ''Not Found'') = ''9''"
    by (simp add: to_string_nat.simps char_of_def bit_0)
  moreover have "toLower ''Connection'' = ''connection''"
    by (simp add: toLower_def lower_char_def ord_def char_of_def bit_0)
  ultimately show ?thesis
    using response_framing [of "HtmlResponse 404 ''Not Found''" "''Not Found''"]
    by (simp add: Response_def setClose_def setHeader_def clean_response_def head_lines_def
        header_line_def)
qed

text \<open>
  A status code without a description replaces the head by a complete 500 response, to which
  the content is still appended: the body a client is told to expect is followed by more bytes.
\<close>

lemma response_unknown_code:
  "map_of codeDescriptions (rs_code r) = None \<Longrightarrow> response_string r = generate500 @ rs_content r"
  by (simp add: response_string_def noContent_def)

section \<open>Well-formedness\<close>

definition response_ok :: "response \<Rightarrow> bool" where
  "response_ok r \<longleftrightarrow> omap_ok (rs_headers r)"

lemma response_ok_setters [simp]:
  "response_ok (Response code content mime)"
  "response_ok r \<Longrightarrow> response_ok (setHeader h v r)"
  "response_ok r \<Longrightarrow> response_ok (putHeader h v r)"
  "response_ok r \<Longrightarrow> response_ok (setClose b r)"
  "response_ok r \<Longrightarrow> response_ok (setMIME m r)"
  "response_ok r \<Longrightarrow> response_ok (setCharset c r)"
  "response_ok r \<Longrightarrow> response_ok (setNoContentType b r)"
  "response_ok r \<Longrightarrow> response_ok (setAcceptRanges b r)"
  "response_ok r \<Longrightarrow> response_ok (setLastModified f t r)"
  by (simp_all add: response_ok_def Response_def setHeader_def putHeader_def setClose_def setMIME_def
      setCharset_def setNoContentType_def setAcceptRanges_def setLastModified_def omap.ok_put
      omap.ok_del)

text \<open>\<open>setClose(false)\<close> undoes the \<open>Connection: close\<close> every response starts with.\<close>

lemma setClose_False:
  "response_ok r \<Longrightarrow> map_of (rs_headers (setClose False r)) ''connection'' \<noteq> Some ''close''"
  by (auto simp: setClose_def response_ok_def omap.get_del)

lemma putHeader_get [simp]:
  "map_of (rs_headers (putHeader k v r)) k' = (if k' = k then Some v else map_of (rs_headers r) k')"
  "rs_code (putHeader k v r) = rs_code r" "rs_content (putHeader k v r) = rs_content r"
  by (simp_all add: putHeader_def map_of_omap_put)

lemma Response_code [simp]: "rs_code (Response code content mime) = code"
  by (simp add: Response_def setClose_def setHeader_def)

end
