(* ===== verification/Http_Client.thy ===== *)
theory Http_Client
  imports Http_Request Http_Response
begin

text \<open>
  \<open>src/http/Client.cpp\<close>, \<open>include/http/Client.h\<close> and the base class of
  \<open>include/net/GenericClient.h\<close>: the per-connection state, the WebSocket frame parser and the
  frame writer.

  What a connection asks of the server (bytes to send, the connection to close, a message to
  dispatch, a request to answer) is returned as the list of these calls in the order the code
  makes them; the server's theories interpret them.  None of those calls can reach the private
  fields the parser works on.
\<close>

unbundle bit_operations_syntax

section \<open>State\<close>

record http_client =
  cl_id :: int
  cl_ip :: string
  cl_lineMode :: bool
  cl_maxLineSize :: nat
  cl_flags :: client_flags
  cl_awaitingWebSocketHeader :: bool
  cl_lastFin :: bool
  cl_webSocketMask :: "32 word"
  cl_maskOffset :: nat
  cl_remainingBytesInPacket :: nat
  cl_packet :: string
  cl_leftoverMessage :: string
  cl_request :: request
  cl_isWebSocket :: bool
  cl_webSocketPath :: "string list"
  cl_maxWebSocketPacketLength :: nat

definition new_client :: "int \<Rightarrow> string \<Rightarrow> http_client" where
  "new_client i ip = \<lparr>cl_id = i, cl_ip = ip, cl_lineMode = True, cl_maxLineSize = 8192,
     cl_flags = \<lparr>cf_maxRead = 0, cf_keepAlive = True\<rparr>,
     cl_awaitingWebSocketHeader = True, cl_lastFin = False, cl_webSocketMask = 0,
     cl_maskOffset = 0, cl_remainingBytesInPacket = 0, cl_packet = [], cl_leftoverMessage = [],
     cl_request = new_request, cl_isWebSocket = False, cl_webSocketPath = [],
     cl_maxWebSocketPacketLength = 2 ^ 24\<rparr>"

datatype client_call =
    Send string
  | CloseSocket
  | CloseWebSocket
  | Send400
  | WebSocketMessage string
  | HandleGET request
  | HandlePOST request

section \<open>Writing\<close>

text \<open>\<open>Client::close\<close>: a connection that is kept alive stays open.\<close>

definition client_close :: "http_client \<Rightarrow> client_call list" where
  "client_close c = (if \<not> cf_keepAlive (cl_flags c) then [CloseSocket] else [])"

definition removeSelf :: "http_client \<Rightarrow> client_call list" where
  "removeSelf c = [CloseSocket]"

definition byte_char :: "byte \<Rightarrow> char" where
  "byte_char b = char_of (unat b)"

definition char_byte :: "char \<Rightarrow> byte" where
  "char_byte c = of_nat (ord c)"

text \<open>The byte \<open>uint8_t((message_size >> k) & 0xff)\<close>.\<close>

definition size_byte :: "size_t \<Rightarrow> nat \<Rightarrow> char" where
  "size_byte message_size k = byte_char (ucast (drop_bit k message_size AND 0xff))"

definition frame_header :: "size_t \<Rightarrow> bool \<Rightarrow> byte \<Rightarrow> string" where
  "frame_header message_size is_binary opcode_override =
     (let opcode = (if opcode_override \<noteq> 255 then opcode_override else if is_binary then 2 else 1);
          header = [byte_char (push_bit 7 1 OR opcode)]
      in if message_size \<le> 125 then header @ [byte_char (ucast message_size)]
         else if message_size < 65536
         then header @ [byte_char 126, size_byte message_size 8, size_byte message_size 0]
         else header @ [byte_char 127,
                size_byte message_size 56, size_byte message_size 48,
                size_byte message_size 40, size_byte message_size 32,
                size_byte message_size 24, size_byte message_size 16,
                size_byte message_size 8, size_byte message_size 0])"

definition sendWebSocket :: "string \<Rightarrow> bool \<Rightarrow> byte \<Rightarrow> client_call list" where
  "sendWebSocket message is_binary opcode_override =
     [Send (frame_header (of_nat (length message)) is_binary opcode_override), Send message]"

definition closeWebSocket :: "client_call list" where
  "closeWebSocket = sendWebSocket ''Error'' False 8 @ [CloseWebSocket]"

definition onMaxLineSizeExceeded :: "client_call list" where
  "onMaxLineSizeExceeded = [Send (response_string (Response 413 ''Payload too large'' ''text/html''))]"

definition getID :: "string \<Rightarrow> http_client \<Rightarrow> string" where
  "getID server_id c = server_id @ '':'' @ to_string_int (cl_id c)"

section \<open>Reading WebSocket frames\<close>

definition mask_byte :: "32 word \<Rightarrow> nat \<Rightarrow> byte" where
  "mask_byte webSocketMask maskOffset = ucast (drop_bit (8 * (3 - maskOffset)) webSocketMask)"

fun unmask_loop :: "32 word \<Rightarrow> nat \<Rightarrow> string \<Rightarrow> string \<times> nat" where
  "unmask_loop webSocketMask maskOffset [] = ([], maskOffset)"
| "unmask_loop webSocketMask maskOffset (m # message) =
     (case unmask_loop webSocketMask ((maskOffset + 1) mod 4) message of
        (out, off) \<Rightarrow> (byte_char (char_byte m XOR mask_byte webSocketMask maskOffset) # out, off))"

text \<open>A big-endian number: \<open>memcpy\<close> followed by a byte swap on little-endian machines.\<close>

definition big_endian :: "string \<Rightarrow> nat" where
  "big_endian bytes = foldl (\<lambda>v c. v * 256 + ord c) 0 bytes"

text \<open>
  The payload length and the index of the mask; \<^const>\<open>None\<close> when the header is not complete.
  The first two bytes are known to be there.
\<close>

definition payload_header :: "string \<Rightarrow> (nat \<times> nat) option" where
  "payload_header message =
     (let payload_length = unat (char_byte (message ! 1) AND 0x7f)
      in if payload_length = 126
         then (if length message < 4 then None else Some (big_endian (take 2 (drop 2 message)), 4))
         else if payload_length = 127
         then (if length message < 10 then None else Some (big_endian (take 8 (drop 2 message)), 10))
         else Some (payload_length, 2))"

text \<open>\<open>CHECKSIZE\<close> gives up for now and keeps everything that arrived so far.\<close>

definition keep_for_later :: "string \<Rightarrow> http_client \<Rightarrow> http_client \<times> client_call list" where
  "keep_for_later message c = (c\<lparr>cl_leftoverMessage := message\<rparr>, [])"

text \<open>The message, or the refusal of a fragmented one.\<close>

definition deliver :: "bool \<Rightarrow> http_client \<Rightarrow> client_call list" where
  "deliver fin c = (if fin then [WebSocketMessage (cl_packet c)] else closeWebSocket)"

text \<open>The end of the header branch, once the payload at hand was unmasked.\<close>

definition finish_header ::
  "bool \<Rightarrow> byte \<Rightarrow> nat \<Rightarrow> nat \<Rightarrow> string \<Rightarrow> http_client \<Rightarrow> http_client \<times> client_call list" where
  "finish_header fin opcode payload_length end' message c =
     (if opcode = 9
      then (c, if payload_length \<le> 125 then sendWebSocket (cl_packet c) True 10 else closeWebSocket)
      else if end' < length message
      then (c\<lparr>cl_awaitingWebSocketHeader := True, cl_leftoverMessage := drop end' message,
              cl_remainingBytesInPacket := (if fin then 0 else cl_remainingBytesInPacket c),
              cl_packet := []\<rparr>, deliver fin c)
      else if end' = length message \<and> cl_remainingBytesInPacket c = 0
      then (c\<lparr>cl_awaitingWebSocketHeader := True, cl_packet := [], cl_leftoverMessage := []\<rparr>,
            deliver fin c)
      else (c\<lparr>cl_awaitingWebSocketHeader := False, cl_leftoverMessage := []\<rparr>, []))"

definition handle_frame_header :: "string \<Rightarrow> http_client \<Rightarrow> http_client \<times> client_call list" where
  "handle_frame_header message c =
     (if length message < 2 then keep_for_later message c
      else let byte1 = char_byte (message ! 0);
               fin = (drop_bit 7 byte1 AND 1 = 1);
               c = c\<lparr>cl_lastFin := fin\<rparr>;
               opcode = byte1 AND 0xf;
               use_mask = (drop_bit 7 (char_byte (message ! 1)) AND 1 = 1)
           in case payload_header message of
             None \<Rightarrow> keep_for_later message c
           | Some (payload_length, mask_index) \<Rightarrow>
               (if \<not> use_mask \<or> cl_maxWebSocketPacketLength c < payload_length
                then (c, Send400 # removeSelf c)
                else if length message < mask_index + 4 then keep_for_later message c
                else let mask = of_nat (big_endian (take 4 (drop mask_index message)));
                         payload_length_here = min payload_length (length message - mask_index - 4);
                         (out, off) = unmask_loop mask 0
                           (take payload_length_here (drop (mask_index + 4) message));
                         c = c\<lparr>cl_webSocketMask := mask, cl_maskOffset := off,
                               cl_remainingBytesInPacket := payload_length - payload_length_here,
                               cl_packet := cl_packet c @ out\<rparr>
                     in finish_header fin opcode payload_length
                          (payload_length_here + mask_index + 4) message c))"

definition handle_frame_payload :: "string \<Rightarrow> http_client \<Rightarrow> http_client \<times> client_call list" where
  "handle_frame_payload message c =
     (let payload_length_here = min (cl_remainingBytesInPacket c) (length message);
          (out, off) = unmask_loop (cl_webSocketMask c) (cl_maskOffset c) (take payload_length_here message);
          c = c\<lparr>cl_packet := cl_packet c @ out, cl_maskOffset := off\<rparr>;
          c = (if cl_remainingBytesInPacket c < length message
               then c\<lparr>cl_leftoverMessage := drop payload_length_here message,
                      cl_remainingBytesInPacket := 0\<rparr>
               else c\<lparr>cl_remainingBytesInPacket := cl_remainingBytesInPacket c - payload_length_here\<rparr>)
      in if cl_remainingBytesInPacket c = 0
         then let c = c\<lparr>cl_awaitingWebSocketHeader := True\<rparr>
              in if cl_lastFin c then (c\<lparr>cl_packet := []\<rparr>, [WebSocketMessage (cl_packet c)])
                 else (c, [])
         else (c, []))"

definition handle_websocket :: "string \<Rightarrow> http_client \<Rightarrow> http_client \<times> client_call list" where
  "handle_websocket message_in c =
     (let has_leftover = (cl_leftoverMessage c \<noteq> []);
          c = (if has_leftover then c\<lparr>cl_leftoverMessage := cl_leftoverMessage c @ message_in\<rparr> else c);
          message = (if has_leftover then cl_leftoverMessage c else message_in)
      in if cl_awaitingWebSocketHeader c then handle_frame_header message c
         else handle_frame_payload message c)"

section \<open>Input\<close>

definition method_code :: "http_method \<Rightarrow> int" where
  "method_code m = (case m of MethodInvalid \<Rightarrow> 0 | GET \<Rightarrow> 1 | HEAD \<Rightarrow> 2 | PUT \<Rightarrow> 3 | POST \<Rightarrow> 4)"

definition handleRequest :: "http_client \<Rightarrow> client_call list result" where
  "handleRequest c =
     (case rq_method (cl_request c) of
        GET \<Rightarrow> Inr [HandleGET (cl_request c)]
      | POST \<Rightarrow> Inr [HandlePOST (cl_request c)]
      | m \<Rightarrow> Inl (ParseError (''Invalid method: '' @ to_string_int (method_code m))))"

definition handleInput ::
  "(string \<Rightarrow> size_t option result) \<Rightarrow> string \<Rightarrow> http_client \<Rightarrow> http_client \<times> client_call list result" where
  "handleInput post_max_opt message_in c =
     (if cl_isWebSocket c then (case handle_websocket message_in c of (c', calls) \<Rightarrow> (c', Inr calls))
      else case handleLine post_max_opt message_in (cl_request c) (cl_flags c) of
        ((r, cf), res) \<Rightarrow>
          (let c = c\<lparr>cl_request := r, cl_flags := cf\<rparr>
           in case res of
             Inr DisableLineMode \<Rightarrow> (c\<lparr>cl_lineMode := False\<rparr>, Inr [])
           | Inr Done \<Rightarrow> (c, handleRequest c)
           | Inr Continue \<Rightarrow> (c, Inr [])
           | Inl (UnsupportedMethod m) \<Rightarrow> (c, Inr (Send400 # removeSelf c))
           | Inl e \<Rightarrow> (c, Inl e)))"

section \<open>Bytes and masks\<close>

lemma char_byte_byte_char [simp]: "char_byte (byte_char b) = b"
  by (simp add: char_byte_def byte_char_def)

lemma byte_char_char_byte [simp]: "byte_char (char_byte c) = c"
  by (simp add: char_byte_def byte_char_def unsigned_of_nat take_bit_nat_eq_self)

lemma unat_char_byte [simp]: "unat (char_byte c) = ord c"
  by (simp add: char_byte_def unsigned_of_nat take_bit_nat_eq_self)

lemma ord_byte_char [simp]: "ord (byte_char b) = unat b"
  by (simp add: byte_char_def)

text \<open>The mask read from four bytes gives those bytes back, one per offset.\<close>

lemma base256: "(x * 256 + ord d) div 256 = x" "(x * 256 + ord d) mod 256 = ord d"
  using ord_less [of d] by (simp_all add: mult.commute)

lemma big_endian_4:
  "big_endian [a, b, c, d] = ((ord a * 256 + ord b) * 256 + ord c) * 256 + ord d"
  by (simp add: big_endian_def)

lemma big_endian_bound: "big_endian bytes < 256 ^ length bytes"
proof (induction bytes rule: rev_induct)
  case (snoc c bytes)
  then have "big_endian bytes + 1 \<le> 256 ^ length bytes" by simp
  moreover have "x + 1 \<le> m \<Longrightarrow> x * 256 + ord c < m * 256" for x m :: nat
    using ord_less [of c] by (simp del: ord_less)
  ultimately have "big_endian bytes * 256 + ord c < 256 ^ length bytes * 256" by blast
  then show ?case by (simp add: big_endian_def mult.commute)
qed (simp add: big_endian_def)

lemma mask_byte_nat:
  assumes "n < 2 ^ 32"
  shows "mask_byte (of_nat n) off = of_nat (n div 2 ^ (8 * (3 - off)) mod 256)"
proof -
  have "unat (of_nat n :: 32 word) = n" using assms by (simp add: unsigned_of_nat take_bit_nat_eq_self)
  then have "unat (drop_bit (8 * (3 - off)) (of_nat n :: 32 word)) = n div 2 ^ (8 * (3 - off))"
    using assms unsigned_drop_bit_eq [of "8 * (3 - off)" "of_nat n :: 32 word", where ?'a = nat]
    by (simp only: drop_bit_eq_div len_num1 len_bit0) (simp add: take_bit_nat_eq_self)
  then have "mask_byte (of_nat n) off = (of_nat (n div 2 ^ (8 * (3 - off))) :: byte)"
    unfolding mask_byte_def by (metis of_nat_unat)
  also have "\<dots> = of_nat (n div 2 ^ (8 * (3 - off)) mod 256)"
    by (simp add: word_unat_eq_iff unsigned_of_nat take_bit_eq_mod)
  finally show ?thesis .
qed

lemma mask_byte_key:
  assumes "length key = 4" and "off < 4"
  shows "mask_byte (of_nat (big_endian key)) off = char_byte (key ! off)"
proof -
  from assms(1) obtain a b c d where key: "key = [a, b, c, d]"
    by (auto simp: numeral_eq_Suc length_Suc_conv)
  have bound: "big_endian key < 2 ^ 32"
    using big_endian_bound [of key] by (simp add: assms(1))
  have shifts: "n div 2 ^ 16 = n div 256 div 256" "n div 2 ^ 24 = n div 256 div 256 div 256" for n :: nat
    by (simp_all add: div_mult2_eq [symmetric])
  from assms(2) consider "off = 0" | "off = 1" | "off = 2" | "off = 3" by linarith
  then have "big_endian key div 2 ^ (8 * (3 - off)) mod 256 = ord (key ! off)"
  proof cases
    case 1
    have "big_endian key div 2 ^ 24 mod 256 = ord a mod 256"
      by (simp only: key big_endian_4 shifts base256)
    with 1 show ?thesis by (simp add: key)
  next
    case 2
    have "big_endian key div 2 ^ 16 mod 256 = ord b"
      by (simp only: key big_endian_4 shifts base256)
    with 2 show ?thesis by (simp add: key)
  next
    case 3
    have "big_endian key div 256 mod 256 = ord c" by (simp only: key big_endian_4 base256)
    with 3 show ?thesis by (simp add: key)
  next
    case 4
    have "big_endian key mod 256 = ord d" by (simp only: key big_endian_4 base256)
    with 4 show ?thesis by (simp add: key)
  qed
  then show ?thesis by (simp add: mask_byte_nat [OF bound] char_byte_def)
qed

section \<open>The frames of RFC 6455\<close>

text \<open>A client's frame: the payload is combined with the four-byte key, cyclically.\<close>

fun apply_key :: "string \<Rightarrow> nat \<Rightarrow> string \<Rightarrow> string" where
  "apply_key key i [] = []"
| "apply_key key i (m # ms) =
     byte_char (char_byte m XOR char_byte (key ! (i mod 4))) # apply_key key (i + 1) ms"

text \<open>A number as \<open>w\<close> bytes, most significant first.\<close>

definition be_bytes :: "nat \<Rightarrow> nat \<Rightarrow> string" where
  "be_bytes w n = map (\<lambda>k. char_of (n div 256 ^ k mod 256)) (rev [0..<w])"

text \<open>The length field: seven bits, or a marker and two or eight bytes; \<open>mbit\<close> is the mask bit.\<close>

definition frame_length :: "nat \<Rightarrow> nat \<Rightarrow> string" where
  "frame_length mbit n =
     (if n \<le> 125 then [char_of (mbit + n)]
      else if n < 65536 then char_of (mbit + 126) # be_bytes 2 n
      else char_of (mbit + 127) # be_bytes 8 n)"

definition frame_head :: "nat \<Rightarrow> nat \<Rightarrow> nat \<Rightarrow> string" where
  "frame_head opcode mbit n = char_of (128 + opcode) # frame_length mbit n"

definition client_frame :: "nat \<Rightarrow> string \<Rightarrow> string \<Rightarrow> string" where
  "client_frame opcode key payload =
     frame_head opcode 128 (length payload) @ key @ apply_key key 0 payload"

lemma apply_key_involution: "apply_key key i (apply_key key i ms) = ms"
  by (induction ms arbitrary: i) (simp_all add: xor.assoc)

lemma length_apply_key [simp]: "length (apply_key key i ms) = length ms"
  by (induction ms arbitrary: i) simp_all

lemma apply_key_append: "apply_key key i (xs @ ys) = apply_key key i xs @ apply_key key (i + length xs) ys"
  by (induction xs arbitrary: i) simp_all

lemma unmask_loop_key:
  assumes "length key = 4"
  shows "unmask_loop (of_nat (big_endian key)) (i mod 4) ms
    = (apply_key key i ms, (i + length ms) mod 4)"
proof (induction ms arbitrary: i)
  case (Cons m ms)
  then show ?case
    using Cons [of "i + 1"] mask_byte_key [OF assms, of "i mod 4"] by (simp add: mod_Suc_eq)
qed simp

lemma big_endian_be_bytes: "n < 256 ^ w \<Longrightarrow> big_endian (be_bytes w n) = n"
proof -
  have "big_endian (be_bytes w n) = n mod 256 ^ w"
  proof (induction w arbitrary: n)
    case 0
    then show ?case by (simp add: big_endian_def be_bytes_def)
  next
    case (Suc w)
    have "rev [0..<Suc w] = map Suc (rev [0..<w]) @ [0]"
      by (simp add: rev_map [symmetric] map_Suc_upt del: upt_Suc) (simp add: upt_conv_Cons)
    then have "be_bytes (Suc w) n = be_bytes w (n div 256) @ [char_of (n mod 256)]"
      by (simp add: be_bytes_def div_mult2_eq del: upt_Suc)
    then have "big_endian (be_bytes (Suc w) n) = big_endian (be_bytes w (n div 256)) * 256 + n mod 256"
      by (simp add: big_endian_def ord_def)
    then show ?case using Suc [of "n div 256"] by (simp add: mod_mult2_eq)
  qed
  then show "n < 256 ^ w \<Longrightarrow> ?thesis" by simp
qed

lemma length_be_bytes [simp]: "length (be_bytes w n) = w"
  by (simp add: be_bytes_def)

lemma unat_low_bits: "unat (b AND 0x7f :: byte) = unat b mod 128" "unat (b AND 0xf :: byte) = unat b mod 16"
proof -
  have "b AND 0x7f = take_bit 7 b" "b AND 0xf = take_bit 4 b"
    by (simp_all add: take_bit_eq_mask mask_eq_exp_minus_1)
  then show "unat (b AND 0x7f) = unat b mod 128" "unat (b AND 0xf) = unat b mod 16"
    by (simp_all only: unsigned_take_bit_eq) (simp_all add: take_bit_eq_mod)
qed

lemma top_bit: "drop_bit 7 (b :: byte) AND 1 = 1 \<longleftrightarrow> 128 \<le> unat b"
proof -
  have "unat (drop_bit 7 b) = unat b div 128"
    using unsigned_drop_bit_eq [of 7 b, where ?'a = nat]
    by (simp only: drop_bit_eq_div len_num1 len_bit0) (simp add: take_bit_nat_eq_self)
  then have "unat (drop_bit 7 b AND 1) = unat b div 128 mod 2"
    by (simp only: and_one_eq unat_mod) simp
  moreover have "unat b div 128 mod 2 = (if 128 \<le> unat b then 1 else 0)"
    using unat_byte_less [of b] by (auto simp: div_nat_eqI [of 1] simp del: unat_byte_less)
  ultimately show ?thesis by (auto simp: word_unat_eq_iff)
qed

text \<open>Any beginning of a frame that holds its length field shows the payload length.\<close>

lemma payload_header_prefix:
  assumes "n < 2 ^ 64" and "mbit \<in> {0, 128}" and "2 \<le> length m"
    and "m @ later = frame_head opcode mbit n @ body"
  shows "payload_header m = (if length m < length (frame_head opcode mbit n) then None
    else Some (n, length (frame_head opcode mbit n)))"
proof -
  have at: "m ! i = (frame_head opcode mbit n @ body) ! i" if "i < length m" for i
    using that assms(4) by (metis nth_append)
  have lens: "take k (drop 2 m) = take k (drop 2 (frame_head opcode mbit n @ body))" if "2 + k \<le> length m" for k
    using that assms(4) [symmetric] by simp
  have "ord (m ! 1) mod 128 = (if n \<le> 125 then n else if n < 65536 then 126 else 127)"
    using at [of 1] assms(2,3) by (auto simp: frame_head_def frame_length_def)
  then have low: "unat (char_byte (m ! 1) AND 0x7f) =
      (if n \<le> 125 then n else if n < 65536 then 126 else 127)"
    by (simp add: unat_low_bits)
  consider "n \<le> 125" | "125 < n" "n < 65536" | "65536 \<le> n" by linarith
  then show ?thesis
  proof cases
    case 1
    with low assms(3) show ?thesis
      by (simp add: payload_header_def frame_head_def frame_length_def Let_def)
  next
    case 2
    then have "length (frame_head opcode mbit n) = 4"
      "take 2 (drop 2 (frame_head opcode mbit n @ body)) = be_bytes 2 n"
      by (simp_all add: frame_head_def frame_length_def)
    with 2 low lens [of 2] big_endian_be_bytes [of n 2] show ?thesis
      by (simp add: payload_header_def Let_def)
  next
    case 3
    then have "length (frame_head opcode mbit n) = 10"
      "take 8 (drop 2 (frame_head opcode mbit n @ body)) = be_bytes 8 n"
      by (simp_all add: frame_head_def frame_length_def)
    with 3 low lens [of 8] big_endian_be_bytes [of n 8] assms(1) show ?thesis
      by (simp add: payload_header_def Let_def)
  qed
qed

lemma frame_head_bytes:
  assumes "opcode < 16" and "mbit \<in> {0, 128}"
  shows "ord (frame_head opcode mbit n ! 0) = 128 + opcode"
    "128 \<le> ord (frame_head opcode mbit n ! 1) \<longleftrightarrow> mbit = 128" "2 \<le> length (frame_head opcode mbit n)"
  using assms by (auto simp: frame_head_def frame_length_def)

section \<open>A frame in pieces\<close>

text \<open>
  The state after the connection has consumed the bytes \<open>p\<close> of a frame: before the end of the
  header everything is kept for later, after it the unmasked beginning of the payload is in the
  packet.
\<close>

definition frame_state :: "string \<Rightarrow> nat \<Rightarrow> string \<Rightarrow> string \<Rightarrow> http_client \<Rightarrow> bool" where
  "frame_state key head payload p c \<longleftrightarrow>
     (if length p < head + 4
      then cl_awaitingWebSocketHeader c \<and> cl_leftoverMessage c = p \<and> cl_packet c = []
      else \<not> cl_awaitingWebSocketHeader c \<and> cl_leftoverMessage c = [] \<and> cl_lastFin c
        \<and> cl_webSocketMask c = of_nat (big_endian key)
        \<and> cl_maskOffset c = (length p - (head + 4)) mod 4
        \<and> cl_packet c = take (length p - (head + 4)) payload
        \<and> cl_remainingBytesInPacket c = length payload - (length p - (head + 4)))"

definition idle :: "http_client \<Rightarrow> bool" where
  "idle c \<longleftrightarrow> cl_awaitingWebSocketHeader c \<and> cl_leftoverMessage c = [] \<and> cl_packet c = []"

lemma handle_websocket_message:
  assumes "cl_awaitingWebSocketHeader c" and "cl_leftoverMessage c = p"
  shows "\<exists>l. handle_websocket x c = handle_frame_header (p @ x) (c\<lparr>cl_leftoverMessage := l\<rparr>)"
proof (cases "p = []")
  case True
  then have same: "c\<lparr>cl_leftoverMessage := []\<rparr> = c" using assms(2) by (cases c) simp
  have "handle_websocket x c = handle_frame_header (p @ x) c"
    using True assms by (simp add: handle_websocket_def)
  then have "handle_websocket x c = handle_frame_header (p @ x) (c\<lparr>cl_leftoverMessage := []\<rparr>)"
    by (simp only: same)
  then show ?thesis by blast
next
  case False
  with assms have "handle_websocket x c = handle_frame_header (p @ x) (c\<lparr>cl_leftoverMessage := p @ x\<rparr>)"
    by (simp add: handle_websocket_def)
  then show ?thesis by blast
qed

text \<open>The header branch on a beginning \<open>m\<close> of a frame.\<close>

lemma frame_prefix:
  assumes frame: "m @ later = client_frame opcode key payload" and two: "2 \<le> length m"
    and op: "opcode < 16" and len: "length payload < 2 ^ 64"
  defines "head \<equiv> length (frame_head opcode 128 (length payload))"
  shows "drop_bit 7 (char_byte (m ! 0)) AND 1 = 1" "drop_bit 7 (char_byte (m ! 1)) AND 1 = 1"
    "char_byte (m ! 0) AND 0xf = of_nat opcode"
    "payload_header m = (if length m < head then None else Some (length payload, head))"
proof -
  let ?f = "frame_head opcode 128 (length payload)"
  note fh = frame_head_bytes [OF op, of 128 "length payload", simplified]
  have "m ! i = ?f ! i" if "i < 2" for i
  proof -
    have "m ! i = client_frame opcode key payload ! i"
      using that two frame by (metis nth_append order_less_le_trans)
    with that fh(3) show ?thesis by (simp add: client_frame_def nth_append)
  qed
  then have m: "m ! 0 = ?f ! 0" "m ! 1 = ?f ! 1" by simp_all
  show "drop_bit 7 (char_byte (m ! 0)) AND 1 = 1" "drop_bit 7 (char_byte (m ! 1)) AND 1 = 1"
    unfolding top_bit unat_char_byte m using fh(1,2) by simp_all
  have "unat (char_byte (m ! 0) AND 0xf) = unat (of_nat opcode :: byte)"
    unfolding unat_low_bits unat_char_byte m using fh(1) op mod_mult_self2 [of opcode 16 8]
    by (simp add: add.commute unsigned_of_nat take_bit_nat_eq_self)
  then show "char_byte (m ! 0) AND 0xf = of_nat opcode" by (simp only: word_unat_eq_iff)
  show "payload_header m = (if length m < head then None else Some (length payload, head))"
    using payload_header_prefix [OF len _ two, of 128 later opcode "key @ apply_key key 0 payload"] frame
    by (simp add: client_frame_def head_def)
qed

lemma frame_prefix_payload:
  assumes frame: "m @ later = client_frame opcode key payload" and key: "length key = 4"
  defines "head \<equiv> length (frame_head opcode 128 (length payload))"
  assumes long: "head + 4 \<le> length m"
  shows "take 4 (drop head m) = key"
    "drop (head + 4) m = apply_key key 0 (take (length m - (head + 4)) payload)"
    "length m - (head + 4) \<le> length payload"
    "later = [] \<longleftrightarrow> length m = head + 4 + length payload"
proof -
  let ?f = "frame_head opcode 128 (length payload)"
  have len: "length m + length later = head + 4 + length payload"
    using arg_cong [OF frame, of length] key by (simp add: client_frame_def head_def)
  then show "length m - (head + 4) \<le> length payload" by linarith
  from len show "later = [] \<longleftrightarrow> length m = head + 4 + length payload" by auto
  have "m = take (length m) (?f @ key @ apply_key key 0 payload)"
    using frame by (metis append_eq_conv_conj client_frame_def)
  also have "\<dots> = ?f @ key @ take (length m - (head + 4)) (apply_key key 0 payload)"
    using long key by (simp add: head_def)
  finally have m: "m = ?f @ key @ take (length m - (head + 4)) (apply_key key 0 payload)" .
  show "take 4 (drop head m) = key"
    using key by (subst m) (simp add: head_def)
  have "drop (head + 4) m = take (length m - (head + 4)) (apply_key key 0 payload)"
    using arg_cong [OF m, of "drop (head + 4)"] key by (simp add: head_def)
  also have "\<dots> = apply_key key 0 (take (length m - (head + 4)) payload)"
    using apply_key_append [of key 0 "take (length m - (head + 4)) payload" "drop (length m - (head + 4)) payload"]
      \<open>length m - (head + 4) \<le> length payload\<close> by simp
  finally show "drop (head + 4) m = apply_key key 0 (take (length m - (head + 4)) payload)" .
qed

lemma handle_frame_header_prefix:
  assumes frame: "m @ later = client_frame opcode key payload"
    and key: "length key = 4" and op: "opcode < 16" "opcode \<noteq> 9"
    and len: "length payload < 2 ^ 64" "length payload \<le> cl_maxWebSocketPacketLength c"
    and state: "cl_packet c = []" "cl_awaitingWebSocketHeader c"
  defines "head \<equiv> length (frame_head opcode 128 (length payload))"
  shows "\<exists>c'. handle_frame_header m c = (c', if later = [] then [WebSocketMessage payload] else [])
     \<and> cl_maxWebSocketPacketLength c' = cl_maxWebSocketPacketLength c
     \<and> (if later = [] then idle c' else frame_state key head payload m c')"
proof (cases "length m < head + 4")
  case short: True
  have "length (m @ later) = head + 4 + length payload"
    using frame key by (simp add: client_frame_def head_def)
  then have ne: "later \<noteq> []" using short by auto
  show ?thesis
  proof (cases "length m < 2")
    case True
    then show ?thesis
      using ne short state by (simp add: handle_frame_header_def keep_for_later_def frame_state_def)
  next
    case False
    then show ?thesis
      using frame_prefix [OF frame _ op(1) len(1), folded head_def] short state ne len(2)
      by (simp add: handle_frame_header_def keep_for_later_def frame_state_def Let_def)
  qed
next
  case False
  let ?n = "length m - (head + 4)"
  have two: "2 \<le> length m" using False by simp
  note bytes = frame_prefix [OF frame two op(1) len(1), folded head_def]
  note parts = frame_prefix_payload [OF frame key, folded head_def, OF False [unfolded not_less]]
  have out: "unmask_loop (of_nat (big_endian key)) 0 (drop (head + 4) m) = (take ?n payload, ?n mod 4)"
    using unmask_loop_key [OF key, of 0 "drop (head + 4) m"] parts(2,3)
    by (simp add: apply_key_involution min_absorb2)
  have opcode: "(of_nat opcode :: byte) \<noteq> 9"
    using op by (simp add: word_unat_eq_iff unsigned_of_nat take_bit_nat_eq_self)
  have here: "min (length payload) (length m - head - 4) = ?n" "?n + head + 4 = length m"
    using parts(3) False by simp_all
  show ?thesis
    using False two bytes parts(1,3,4) out opcode len(2) state here
    by (auto simp: handle_frame_header_def finish_header_def deliver_def frame_state_def idle_def Let_def)
qed

lemma handle_frame_payload_step:
  assumes frame: "p @ x @ later = client_frame opcode key payload" and key: "length key = 4"
  defines "head \<equiv> length (frame_head opcode 128 (length payload))"
  assumes long: "head + 4 \<le> length p" and state: "frame_state key head payload p c" and ne: "x \<noteq> []"
  shows "\<exists>c'. handle_websocket x c = (c', if later = [] then [WebSocketMessage payload] else [])
     \<and> cl_maxWebSocketPacketLength c' = cl_maxWebSocketPacketLength c
     \<and> (if later = [] then idle c' else frame_state key head payload (p @ x) c')"
proof -
  let ?k = "length p - (head + 4)"
  note before = frame_prefix_payload [OF frame key, folded head_def, OF long]
  have frame': "(p @ x) @ later = client_frame opcode key payload" using frame by simp
  have "head + 4 \<le> length (p @ x)" using long by simp
  note after = frame_prefix_payload [OF frame' key, folded head_def, OF this]
  have sum: "length (p @ x) - (head + 4) = ?k + length x" using long by simp
  have bound: "?k + length x \<le> length payload" using after(3) by (simp only: sum)
  have "drop (head + 4) p @ x = apply_key key 0 (take ?k payload) @ apply_key key ?k (take (length x) (drop ?k payload))"
  proof -
    have "apply_key key 0 (take (?k + length x) payload) =
        apply_key key 0 (take ?k payload) @ apply_key key ?k (take (length x) (drop ?k payload))"
      using bound by (simp only: take_add apply_key_append) (simp add: min_absorb2)
    then show ?thesis using after(2) long unfolding sum by simp
  qed
  then have x: "x = apply_key key ?k (take (length x) (drop ?k payload))"
    using before(2) by simp
  have out: "unmask_loop (of_nat (big_endian key)) (?k mod 4) x
      = (take (length x) (drop ?k payload), (?k + length x) mod 4)"
    using unmask_loop_key [OF key, of ?k x] x by (metis apply_key_involution)
  have complete: "later = [] \<longleftrightarrow> ?k + length x = length payload"
    using after(4) long by auto
  have st: "\<not> cl_awaitingWebSocketHeader c" "cl_leftoverMessage c = []" "cl_lastFin c"
    "cl_webSocketMask c = of_nat (big_endian key)" "cl_maskOffset c = ?k mod 4"
    "cl_packet c = take ?k payload" "cl_remainingBytesInPacket c = length payload - ?k"
    using state long by (simp_all add: frame_state_def)
  have here: "min (length payload - ?k) (length x) = length x" "\<not> length payload - ?k < length x"
    "length payload - ?k - length x = length payload - (?k + length x)"
    using bound by linarith+
  have step: "handle_websocket x c =
     (let c = c\<lparr>cl_packet := take (?k + length x) payload, cl_maskOffset := (?k + length x) mod 4,
                 cl_remainingBytesInPacket := length payload - (?k + length x)\<rparr>
      in if length payload - (?k + length x) = 0
         then (c\<lparr>cl_awaitingWebSocketHeader := True, cl_packet := []\<rparr>, [WebSocketMessage (cl_packet c)])
         else (c, []))"
    unfolding handle_websocket_def handle_frame_payload_def st take_add
    by (simp only: st out here Let_def take_all order_refl simp_thms if_True if_False case_prod_conv
        http_client.simps http_client.surjective)
       (simp add: st here out Let_def del: diff_diff_left diff_is_0_eq, linarith)
  show ?thesis
  proof (cases "later = []")
    case True
    with complete have "?k + length x = length payload" by blast
    with True st step show ?thesis by (simp add: idle_def)
  next
    case False
    with complete bound have "length payload - (?k + length x) \<noteq> 0" by linarith
    moreover have "\<not> length (p @ x) < head + 4" using long by simp
    ultimately show ?thesis
      unfolding step frame_state_def sum using False st by (simp add: Let_def)
  qed
qed

fun handle_chunks :: "string list \<Rightarrow> http_client \<Rightarrow> http_client \<times> client_call list" where
  "handle_chunks [] c = (c, [])"
| "handle_chunks (x # xs) c =
     (case handle_websocket x c of (c1, calls1) \<Rightarrow>
      case handle_chunks xs c1 of (c2, calls2) \<Rightarrow> (c2, calls1 @ calls2))"

lemma handle_chunks_append:
  "handle_chunks (xs @ ys) c = (case handle_chunks xs c of (c1, calls1) \<Rightarrow>
     case handle_chunks ys c1 of (c2, calls2) \<Rightarrow> (c2, calls1 @ calls2))"
  by (induction xs arbitrary: c) (simp_all add: case_prod_unfold)

lemma handle_websocket_step:
  assumes frame: "p @ x @ later = client_frame opcode key payload"
    and key: "length key = 4" and op: "opcode < 16" "opcode \<noteq> 9"
    and len: "length payload < 2 ^ 64" "length payload \<le> cl_maxWebSocketPacketLength c"
  defines "head \<equiv> length (frame_head opcode 128 (length payload))"
  assumes state: "frame_state key head payload p c" and ne: "x \<noteq> []"
  shows "\<exists>c'. handle_websocket x c = (c', if later = [] then [WebSocketMessage payload] else [])
     \<and> cl_maxWebSocketPacketLength c' = cl_maxWebSocketPacketLength c
     \<and> (if later = [] then idle c' else frame_state key head payload (p @ x) c')"
proof (cases "length p < head + 4")
  case True
  with state have p: "cl_awaitingWebSocketHeader c" "cl_leftoverMessage c = p" "cl_packet c = []"
    by (simp_all add: frame_state_def)
  from handle_websocket_message [OF p(1,2)] obtain l
    where "handle_websocket x c = handle_frame_header (p @ x) (c\<lparr>cl_leftoverMessage := l\<rparr>)" by blast
  moreover have "(p @ x) @ later = client_frame opcode key payload" using frame by simp
  note header = handle_frame_header_prefix [OF this key op len(1), folded head_def]
  ultimately show ?thesis
    using header [of "c\<lparr>cl_leftoverMessage := l\<rparr>"] len(2) p by simp
next
  case False
  then show ?thesis
    by (intro handle_frame_payload_step [OF frame key, folded head_def] state ne) simp
qed

lemma handle_chunks_frame:
  assumes "length key = 4" and "opcode < 16" "opcode \<noteq> 9" and "length payload < 2 ^ 64"
    and "length payload \<le> cl_maxWebSocketPacketLength c"
    and "p @ concat chunks = client_frame opcode key payload"
    and "frame_state key (length (frame_head opcode 128 (length payload))) payload p c"
    and "\<forall>x \<in> set chunks. x \<noteq> []" and "chunks \<noteq> []"
  shows "\<exists>c'. handle_chunks chunks c = (c', [WebSocketMessage payload]) \<and> idle c'
    \<and> cl_maxWebSocketPacketLength c' = cl_maxWebSocketPacketLength c"
  using assms(5-)
proof (induction chunks arbitrary: p c)
  case Nil
  then show ?case by simp
next
  case (Cons x chunks)
  have "p @ x @ concat chunks = client_frame opcode key payload" "x \<noteq> []" using Cons.prems by simp_all
  note step = handle_websocket_step [OF this(1) assms(1-4) Cons.prems(1,3) this(2)]
  show ?case
  proof (cases chunks)
    case Nil
    with step show ?thesis by auto
  next
    case (Cons y ys)
    then have "concat chunks \<noteq> []" using Cons.prems(4) by simp
    with step obtain c' where c': "handle_websocket x c = (c', [])"
      "cl_maxWebSocketPacketLength c' = cl_maxWebSocketPacketLength c"
      "frame_state key (length (frame_head opcode 128 (length payload))) payload (p @ x) c'"
      by (auto simp del: concat_eq_Nil_conv)
    show ?thesis using Cons.IH [of c' "p @ x"] Cons.prems c' Cons by simp
  qed
qed

lemma idle_frame_state: "idle c \<Longrightarrow> frame_state key head payload [] c"
  by (simp add: idle_def frame_state_def)



section \<open>Frames the server writes\<close>

lemma size_byte_nat:
  assumes "n < 2 ^ 64"
  shows "size_byte (of_nat n) k = char_of (n div 2 ^ k mod 256)"
proof -
  let ?w = "of_nat n :: size_t"
  have "drop_bit k ?w AND 0xff = take_bit 8 (drop_bit k ?w)"
    by (simp add: take_bit_eq_mask mask_eq_exp_minus_1)
  then have "unat (ucast (drop_bit k ?w AND 0xff) :: byte) = take_bit 8 (unat (drop_bit k ?w))"
    by (simp only: unsigned_ucast_eq unsigned_take_bit_eq) simp
  also have "unat (drop_bit k ?w) = n div 2 ^ k"
    using unsigned_drop_bit_eq [of k ?w, where ?'a = nat] unat_size_of_nat [OF assms] assms
    by (simp only: drop_bit_eq_div len_num1 len_bit0) (simp add: take_bit_nat_eq_self)
  finally show ?thesis by (simp add: size_byte_def byte_char_def take_bit_eq_mod)
qed

lemma be_bytes_unfold:
  "be_bytes 2 n = [char_of (n div 256 mod 256), char_of (n mod 256)]"
  "be_bytes 8 n = map (\<lambda>k. char_of (n div 2 ^ k mod 256)) [56, 48, 40, 32, 24, 16, 8, 0]"
  by (simp_all add: be_bytes_def upt_rec)

lemma opcode_byte: "opcode < 16 \<Longrightarrow> byte_char (push_bit 7 1 OR of_nat opcode) = char_of (128 + opcode)"
proof -
  assume "opcode < 16"
  then have "opcode \<in> set [0..<16]" by simp
  moreover have "list_all (\<lambda>k. byte_char (push_bit 7 1 OR of_nat k) = char_of (128 + k)) [0..<16]"
    by (simp add: byte_char_def upt_rec)
  ultimately show ?thesis by (simp only: list_all_iff)
qed

lemma frame_header_eq:
  assumes "n < 2 ^ 64" and "opcode < 16"
  shows "frame_header (of_nat n) b (of_nat opcode) = frame_head opcode 0 n"
proof -
  have "(of_nat opcode :: byte) \<noteq> 255"
    using assms(2) by (simp add: word_unat_eq_iff unsigned_of_nat take_bit_nat_eq_self)
  moreover have "of_nat n \<le> (125 :: size_t) \<longleftrightarrow> n \<le> 125" "of_nat n < (65536 :: size_t) \<longleftrightarrow> n < 65536"
    using unat_size_of_nat [OF assms(1)] by (simp_all add: word_le_nat_alt word_less_nat_alt)
  moreover have "byte_char (ucast (of_nat n :: size_t)) = char_of n" if "n \<le> 125"
    using that unat_size_of_nat [OF assms(1)]
    by (simp add: byte_char_def unsigned_ucast_eq take_bit_nat_eq_self)
  moreover have "byte_char 126 = char_of (126 :: nat)" "byte_char 127 = char_of (127 :: nat)"
    by (simp_all add: byte_char_def)
  ultimately show ?thesis
    by (simp add: frame_header_def frame_head_def frame_length_def opcode_byte [OF assms(2), simplified]
        size_byte_nat [OF assms(1)] be_bytes_unfold Let_def)
qed

lemma frame_header_default:
  "frame_header sz b 255 = frame_header sz b (if b then of_nat 2 else of_nat 1)"
  by (simp add: frame_header_def)

text \<open>
  Frames the server sends are what RFC 6455 prescribes for them: final, unmasked, with the
  requested opcode (text or binary by default) and the shortest encoding of the length; so a
  reader finds the length of the message again and the message right after the header.
\<close>

lemma sendWebSocket_frame:
  assumes "length message < 2 ^ 64" and "opcode < 16"
  shows "sendWebSocket message b (of_nat opcode) = [Send (frame_head opcode 0 (length message)), Send message]
    \<and> sendWebSocket message b 255 = [Send (frame_head (if b then 2 else 1) 0 (length message)), Send message]
    \<and> payload_header (frame_head opcode 0 (length message) @ message)
        = Some (length message, length (frame_head opcode 0 (length message)))"
proof (intro conjI)
  show "sendWebSocket message b (of_nat opcode) = [Send (frame_head opcode 0 (length message)), Send message]"
    using assms by (simp add: sendWebSocket_def frame_header_eq)
  show "sendWebSocket message b 255 = [Send (frame_head (if b then 2 else 1) 0 (length message)), Send message]"
    using frame_header_eq [OF assms(1), of 1 b] frame_header_eq [OF assms(1), of 2 b]
    by (cases b) (simp_all add: sendWebSocket_def frame_header_default)
  show "payload_header (frame_head opcode 0 (length message) @ message)
        = Some (length message, length (frame_head opcode 0 (length message)))"
    using payload_header_prefix [OF assms(1), of 0 "frame_head opcode 0 (length message) @ message" "[]" opcode message]
      frame_head_bytes(3) [OF assms(2), of 0 "length message"] by (simp add: trans_le_add1)
qed

lemma sendWebSocket_frame_example:
  "sendWebSocket ''Error'' False 8 = [Send [CHR 0x88, CHR 0x05], Send ''Error'']"
proof -
  have "frame_head 8 0 (length ''Error'') = [CHR 0x88, CHR 0x05]"
    by (simp add: frame_head_def frame_length_def char_of_def bit_0 del: list.size One_nat_def)
      (simp add: bit_0 bit_iff_odd)
  then show ?thesis using sendWebSocket_frame [of "''Error''" 8 False] by simp
qed

section \<open>Refusals, and what a ping leaves behind\<close>

text \<open>
  (C36) Protocol violations: a frame that is not masked, or announces more than the configured
  maximum, is answered with the error page and the end of the connection and nothing of it is
  handed to a handler; an HTTP method other than the four known ones likewise.
\<close>

theorem protocol_violations_refused:
  assumes "idle c" and "cl_isWebSocket c" and "2 \<le> length m" and "payload_header m = Some (n, i)"
    and "drop_bit 7 (char_byte (m ! 1)) AND 1 \<noteq> 1 \<or> cl_maxWebSocketPacketLength c < n"
  shows "snd (handleInput pm m c) = Inr [Send400, CloseSocket]
    \<and> (rq_mode r = ModeMethod \<and> CHR '' '' \<notin> set method \<and> parse_method method = None
        \<and> CHR 0x0A \<notin> set target \<and> CHR 0x0D \<notin> set target \<longrightarrow>
      snd (handleInput pm (method @ '' '' @ target) (c\<lparr>cl_isWebSocket := False, cl_request := r\<rparr>))
        = Inr [Send400, CloseSocket])"
proof (intro conjI impI)
  show "snd (handleInput pm m c) = Inr [Send400, CloseSocket]"
    using assms
    by (auto simp: handleInput_def handle_websocket_def idle_def handle_frame_header_def removeSelf_def
        Let_def split: prod.splits)
next
  assume r: "rq_mode r = ModeMethod \<and> CHR '' '' \<notin> set method \<and> parse_method method = None
        \<and> CHR 0x0A \<notin> set target \<and> CHR 0x0D \<notin> set target"
  have strip: "strip_suffix c (method @ '' '' @ target) = method @ '' '' @ target"
    if "c \<notin> set target" "c \<noteq> CHR '' ''" for c
    using that by (cases target rule: rev_cases) (auto simp: strip_suffix_def)
  from r show "snd (handleInput pm (method @ '' '' @ target) (c\<lparr>cl_isWebSocket := False, cl_request := r\<rparr>))
        = Inr [Send400, CloseSocket]"
    using strip [of "CHR 0x0A"] strip [of "CHR 0x0D"]
    by (simp add: handleInput_def handleLine_def handle_method_line_def find_char_append removeSelf_def)
qed

theorem protocol_violations_refused_witness:
  "snd (handleInput (\<lambda>_. Inr None) [CHR 0x81, CHR 0x02, CHR ''H'', CHR ''i'']
     ((new_client 1 ''::1'')\<lparr>cl_isWebSocket := True\<rparr>)) = Inr [Send400, CloseSocket]"
  using protocol_violations_refused [of "(new_client 1 ''::1'')\<lparr>cl_isWebSocket := True\<rparr>"
      "[CHR 0x81, CHR 0x02, CHR ''H'', CHR ''i'']" 2 2 "\<lambda>_. Inr None"]
  by (simp add: idle_def new_client_def payload_header_def char_byte_def ord_def)

text \<open>
  A ping is answered with a pong, but its payload stays in the packet: the next message is
  delivered with the ping's payload in front of it.
\<close>

lemma ping_payload_leaks:
  "snd (handle_chunks
     [client_frame 9 [CHR 0x00, CHR 0x00, CHR 0x00, CHR 0x00] ''ping'',
      client_frame 1 [CHR 0x00, CHR 0x00, CHR 0x00, CHR 0x00] ''text'']
     (new_client 1 ''::1'')) =
   sendWebSocket ''ping'' True 10 @ [WebSocketMessage ''pingtext'']"
  by (simp add: client_frame_def frame_head_def frame_length_def new_client_def handle_websocket_def
      handle_frame_header_def payload_header_def finish_header_def deliver_def big_endian_def
      mask_byte_def char_byte_def byte_char_def ord_def char_of_def bit_0 Let_def)

end
