(* ===== verification/Net_Server.thy ===== *)
theory Net_Server
  imports Http_Client
begin

text \<open>
  \<open>src/net/Server.cpp\<close> and \<open>src/net/SSLServer.cpp\<close>: the connection tables of a server, its worker
  threads, accepting, closing and removing connections, and turning the bytes of a connection
  into messages.

  Every access to a table happens under its lock and every function here is called from the
  event loop of one worker, so an execution is a sequence of these operations.  Descriptors
  are the kernel's numbers; a \<open>bufferevent\<close> is the address libevent gave it.  What libevent and
  OpenSSL answer (a new \<open>bufferevent\<close> or null, the number of bytes not yet written) is an argument
  of the operation that asks.  \<open>*freePool.begin()\<close> is an element of the set, which one is up to
  the hash table: the parameter \<open>pick\<close>.  The SSL server extends the record of the plain one, as
  the class does.
\<close>

section \<open>State\<close>

type_synonym descriptor = int
type_synonym bufferevent = nat

record worker =
  wk_id :: nat
  wk_bufferSize :: nat
  wk_readBuffers :: "descriptor \<rightharpoonup> string"
  wk_acceptQueue :: "descriptor list"
  wk_closeQueue :: "bufferevent set"

record server =
  sv_lastClient :: int
  sv_clients :: "descriptor \<rightharpoonup> int"
  sv_freePool :: "int set"
  sv_descriptors :: "int \<rightharpoonup> descriptor"
  sv_allClients :: "int \<rightharpoonup> http_client"
  sv_bufferEvents :: "descriptor \<rightharpoonup> bufferevent"
  sv_bufferEventDescriptors :: "bufferevent \<rightharpoonup> descriptor"
  sv_workerMap :: "bufferevent \<rightharpoonup> nat"
  sv_workers :: "worker list"
  sv_threadCount :: nat
  sv_threadCursor :: nat

record ssl_server = server +
  ss_ssls :: "descriptor \<rightharpoonup> nat"
  ss_sslMutexes :: "descriptor set"

definition new_worker :: "nat \<Rightarrow> nat \<Rightarrow> worker" where
  "new_worker buffer_size i = \<lparr>wk_id = i, wk_bufferSize = buffer_size, wk_readBuffers = Map.empty,
     wk_acceptQueue = [], wk_closeQueue = {}\<rparr>"

text \<open>The constructor and the part of \<open>run\<close> that creates the workers.\<close>

definition new_server :: "nat \<Rightarrow> nat \<Rightarrow> server result" where
  "new_server threadCount chunkSize =
     (if threadCount < 1
      then Inl (InvalidArgument ''Cannot instantiate a Server with a thread count of zero'')
      else Inr \<lparr>sv_lastClient = -1, sv_clients = Map.empty, sv_freePool = {},
        sv_descriptors = Map.empty, sv_allClients = Map.empty, sv_bufferEvents = Map.empty,
        sv_bufferEventDescriptors = Map.empty, sv_workerMap = Map.empty,
        sv_workers = map (new_worker chunkSize) [0..<threadCount],
        sv_threadCount = threadCount, sv_threadCursor = 0\<rparr>)"

section \<open>Looking up and writing\<close>

definition at :: "('k \<rightharpoonup> 'v) \<Rightarrow> 'k \<Rightarrow> 'v result" where
  "at m k = (case m k of Some v \<Rightarrow> Inr v | None \<Rightarrow> Inl (OutOfRange ''map::at''))"

definition getDescriptor :: "int \<Rightarrow> 'a server_scheme \<Rightarrow> descriptor result" where
  "getDescriptor client s = at (sv_descriptors s) client"

definition getBufferEvent :: "descriptor \<Rightarrow> 'a server_scheme \<Rightarrow> bufferevent result" where
  "getBufferEvent d s = at (sv_bufferEvents s) d"

definition send :: "(bufferevent \<Rightarrow> string \<Rightarrow> int) \<Rightarrow> int \<Rightarrow> string \<Rightarrow> 'a server_scheme \<Rightarrow> int" where
  "send bufferevent_write client message s =
     (case rbind (getDescriptor client s) (\<lambda>d. getBufferEvent d s) of
        Inr be \<Rightarrow> bufferevent_write be message
      | Inl _ \<Rightarrow> -1)"

section \<open>Removing and closing\<close>

type_synonym 'a close_handler = "int \<Rightarrow> 'a server_scheme \<Rightarrow> 'a server_scheme \<times> unit result"

definition update_worker :: "nat \<Rightarrow> (worker \<Rightarrow> worker) \<Rightarrow> 'a server_scheme \<Rightarrow> 'a server_scheme" where
  "update_worker w f s = s\<lparr>sv_workers := (sv_workers s)[w := f (sv_workers s ! w)]\<rparr>"

text \<open>\<open>Worker::remove\<close>; \<open>at\<close> throws where an entry is missing, leaving what was done so far.\<close>

definition worker_remove ::
  "'a close_handler option \<Rightarrow> nat \<Rightarrow> bufferevent \<Rightarrow> 'a server_scheme \<Rightarrow> 'a server_scheme \<times> unit result" where
  "worker_remove closeHandler w be s =
     (case at (sv_bufferEventDescriptors s) be of
        Inl e \<Rightarrow> (s, Inl e)
      | Inr d \<Rightarrow>
          (let s = s\<lparr>sv_bufferEventDescriptors := (sv_bufferEventDescriptors s)(be := None),
                     sv_bufferEvents := (sv_bufferEvents s)(d := None)\<rparr>
           in case at (sv_clients s) d of
             Inl e \<Rightarrow> (s, Inl e)
           | Inr client_id \<Rightarrow>
               (case (case closeHandler of None \<Rightarrow> (s, Inr ()) | Some f \<Rightarrow> f client_id s) of
                  (s, Inl e) \<Rightarrow> (s, Inl e)
                | (s, Inr _) \<Rightarrow>
                    (update_worker w (\<lambda>wk. wk\<lparr>wk_readBuffers := (wk_readBuffers wk)(d := None)\<rparr>)
                       (s\<lparr>sv_allClients := (sv_allClients s)(client_id := None),
                          sv_freePool := insert client_id (sv_freePool s),
                          sv_descriptors := (sv_descriptors s)(client_id := None),
                          sv_clients := (sv_clients s)(d := None),
                          sv_workerMap := (sv_workerMap s)(be := None)\<rparr>), Inr ()))))"

text \<open>\<open>SSLServer::Worker::remove\<close> also forgets the SSL object.  (The mutex stays.)\<close>

definition ssl_worker_remove ::
  "'a ssl_server_ext close_handler option \<Rightarrow> nat \<Rightarrow> bufferevent
   \<Rightarrow> 'a ssl_server_scheme \<Rightarrow> 'a ssl_server_scheme \<times> unit result" where
  "ssl_worker_remove closeHandler w be s =
     (case worker_remove closeHandler w be s of
        (s', Inl e) \<Rightarrow> (s', Inl e)
      | (s', Inr u) \<Rightarrow>
          (case sv_bufferEventDescriptors s be of
             Some d \<Rightarrow> (s'\<lparr>ss_ssls := (ss_ssls s')(d := None)\<rparr>, Inr u)
           | None \<Rightarrow> (s', Inr u)))"

text \<open>
  The operations below call the worker's virtual \<open>remove\<close>, which is their parameter.
  \<open>output_length\<close> is \<open>evbuffer_get_length(bufferevent_get_output(buffer_event))\<close>.
\<close>

type_synonym 'a remover = "nat \<Rightarrow> bufferevent \<Rightarrow> 'a server_scheme \<Rightarrow> 'a server_scheme \<times> unit result"

definition queueClose ::
  "'a remover \<Rightarrow> nat \<Rightarrow> bufferevent \<Rightarrow> nat \<Rightarrow> 'a server_scheme \<Rightarrow> 'a server_scheme \<times> unit result" where
  "queueClose remove w be output_length s =
     (if output_length = 0 then remove w be s
      else (update_worker w (\<lambda>wk. wk\<lparr>wk_closeQueue := insert be (wk_closeQueue wk)\<rparr>) s, Inr ()))"

definition handleWriteEmpty ::
  "'a remover \<Rightarrow> nat \<Rightarrow> bufferevent \<Rightarrow> 'a server_scheme \<Rightarrow> 'a server_scheme \<times> unit result" where
  "handleWriteEmpty remove w be s =
     (if be \<in> wk_closeQueue (sv_workers s ! w)
      then remove w be (update_worker w (\<lambda>wk. wk\<lparr>wk_closeQueue := wk_closeQueue wk - {be}\<rparr>) s)
      else (s, Inr ()))"

definition conn_writecb ::
  "'a remover \<Rightarrow> nat \<Rightarrow> bufferevent \<Rightarrow> nat \<Rightarrow> 'a server_scheme \<Rightarrow> 'a server_scheme \<times> unit result" where
  "conn_writecb remove w be output_length s =
     (if output_length = 0 then handleWriteEmpty remove w be s else (s, Inr ()))"

definition handleEOF ::
  "'a remover \<Rightarrow> nat \<Rightarrow> bufferevent \<Rightarrow> 'a server_scheme \<Rightarrow> 'a server_scheme \<times> unit result" where
  "handleEOF remove w be s = remove w be s"

definition server_remove ::
  "'a remover \<Rightarrow> bufferevent \<Rightarrow> 'a server_scheme \<Rightarrow> 'a server_scheme \<times> bool result" where
  "server_remove remove be s =
     (case sv_workerMap s be of
        None \<Rightarrow> (s, Inr False)
      | Some w \<Rightarrow> (case remove w be s of (s', res) \<Rightarrow> (s', rmap (\<lambda>_. True) res)))"

definition removeClient :: "'a remover \<Rightarrow> int \<Rightarrow> 'a server_scheme \<Rightarrow> 'a server_scheme \<times> bool result" where
  "removeClient remove client s =
     (case rbind (at (sv_descriptors s) client) (at (sv_bufferEvents s)) of
        Inl e \<Rightarrow> (s, Inl e)
      | Inr be \<Rightarrow> server_remove remove be s)"

definition close ::
  "'a remover \<Rightarrow> (bufferevent \<Rightarrow> nat) \<Rightarrow> int \<Rightarrow> 'a server_scheme \<Rightarrow> 'a server_scheme \<times> bool result" where
  "close remove output_length client_id s =
     (case rbind (getDescriptor client_id s) (\<lambda>d. getBufferEvent d s) of
        Inl _ \<Rightarrow> (s, Inr False)
      | Inr be \<Rightarrow>
          (case at (sv_workerMap s) be of
             Inl e \<Rightarrow> (s, Inl e)
           | Inr w \<Rightarrow> (case queueClose remove w be (output_length be) s of
                         (s', res) \<Rightarrow> (s', rmap (\<lambda>_. True) res))))"

section \<open>Accepting\<close>

definition new_client_id :: "(int set \<Rightarrow> int) \<Rightarrow> 'a server_scheme \<Rightarrow> int" where
  "new_client_id pick s = (if sv_freePool s \<noteq> {} then pick (sv_freePool s) else sv_lastClient s + 1)"

definition take_client_id :: "(int set \<Rightarrow> int) \<Rightarrow> 'a server_scheme \<Rightarrow> 'a server_scheme" where
  "take_client_id pick s =
     (if sv_freePool s \<noteq> {} then s\<lparr>sv_freePool := sv_freePool s - {pick (sv_freePool s)}\<rparr>
      else s\<lparr>sv_lastClient := sv_lastClient s + 1\<rparr>)"

text \<open>\<open>map::emplace\<close> keeps an entry that is already there.\<close>

definition emplace :: "'k \<Rightarrow> 'v \<Rightarrow> ('k \<rightharpoonup> 'v) \<Rightarrow> ('k \<rightharpoonup> 'v)" where
  "emplace k v m = (case m k of None \<Rightarrow> m(k \<mapsto> v) | Some _ \<Rightarrow> m)"

text \<open>IPv4 addresses that arrive mapped into IPv6 are shown as IPv4.\<close>

definition peer_text :: "string \<Rightarrow> string" where
  "peer_text ip = (if take 7 ip = ''::ffff:'' \<and> find_char (CHR ''.'') ip \<noteq> None then drop 7 ip else ip)"

text \<open>The HTTP server's \<open>addClient\<close>: a fresh \<open>Client\<close>, unless there is one with that number.\<close>

definition addClient :: "int \<Rightarrow> string \<Rightarrow> 'a server_scheme \<Rightarrow> 'a server_scheme" where
  "addClient i ip s = s\<lparr>sv_allClients := emplace i (new_client i ip) (sv_allClients s)\<rparr>"

definition register_buffer_event :: "descriptor \<Rightarrow> bufferevent \<Rightarrow> 'a server_scheme \<Rightarrow> 'a server_scheme" where
  "register_buffer_event new_fd be s =
     s\<lparr>sv_bufferEvents := emplace new_fd be (sv_bufferEvents s),
       sv_bufferEventDescriptors := emplace be new_fd (sv_bufferEventDescriptors s)\<rparr>"

definition worker_accept ::
  "(int set \<Rightarrow> int) \<Rightarrow> nat \<Rightarrow> descriptor \<Rightarrow> bufferevent option \<Rightarrow> string
   \<Rightarrow> 'a server_scheme \<Rightarrow> 'a server_scheme \<times> unit result" where
  "worker_accept pick w new_fd buffer_event ip s =
     (let new_client = new_client_id pick s;
          s = take_client_id pick s;
          s = s\<lparr>sv_descriptors := emplace new_client new_fd (sv_descriptors s),
                sv_clients := (sv_clients s)(new_fd \<mapsto> new_client)\<rparr>
      in case buffer_event of
        None \<Rightarrow> (s, Inl (RuntimeError ''buffer_event is null''))
      | Some be \<Rightarrow>
          (if sv_bufferEvents s new_fd \<noteq> None
           then (s, Inl (RuntimeError (''File descriptor '' @ to_string_int new_fd @ '' already has a bufferevent struct'')))
           else let s = register_buffer_event new_fd be s;
                    s = s\<lparr>sv_workerMap := emplace be w (sv_workerMap s)\<rparr>
                in (addClient new_client (peer_text ip) s, Inr ())))"

text \<open>
  The SSL worker asks the address filters first and allocates its SSL object before the number.
\<close>

definition ssl_worker_accept ::
  "(int set \<Rightarrow> int) \<Rightarrow> (string \<Rightarrow> descriptor \<Rightarrow> bool) option list \<Rightarrow> nat option \<Rightarrow> nat \<Rightarrow> descriptor
   \<Rightarrow> bufferevent option \<Rightarrow> string \<Rightarrow> 'a ssl_server_scheme \<Rightarrow> 'a ssl_server_scheme \<times> unit result" where
  "ssl_worker_accept pick ipFilters ssl w new_fd buffer_event ip s =
     (if list_ex (\<lambda>f. case f of None \<Rightarrow> False | Some flt \<Rightarrow> \<not> flt (peer_text ip) new_fd) ipFilters
      then (s, Inr ())
      else case ssl of
        None \<Rightarrow> (s, Inl (RuntimeError ''ssl is null''))
      | Some ssl \<Rightarrow>
          (let new_client = new_client_id pick s;
               s = take_client_id pick s;
               s = s\<lparr>sv_descriptors := emplace new_client new_fd (sv_descriptors s),
                     sv_clients := emplace new_fd new_client ((sv_clients s)(new_fd := None))\<rparr>
           in case buffer_event of
             None \<Rightarrow> (s, Inl (RuntimeError ''buffer_event is null''))
           | Some be \<Rightarrow>
               (if sv_bufferEvents s new_fd \<noteq> None
                then (s, Inl (RuntimeError (''File descriptor '' @ to_string_int new_fd @ '' already has a bufferevent struct'')))
                else let s = register_buffer_event new_fd be s;
                         s = s\<lparr>ss_ssls := emplace new_fd ssl (ss_ssls s),
                               ss_sslMutexes := insert new_fd (ss_sslMutexes s)\<rparr>;
                         s = s\<lparr>sv_workerMap := emplace be w (sv_workerMap s)\<rparr>
                     in (addClient new_client (peer_text ip) s, Inr ()))))"

text \<open>New connections go to the workers in turn; a worker accepts its queue from the back.\<close>

definition queueAccept :: "nat \<Rightarrow> descriptor \<Rightarrow> 'a server_scheme \<Rightarrow> 'a server_scheme" where
  "queueAccept w new_fd s =
     update_worker w (\<lambda>wk. wk\<lparr>wk_acceptQueue := wk_acceptQueue wk @ [new_fd]\<rparr>) s"

definition listener_cb :: "descriptor \<Rightarrow> 'a server_scheme \<Rightarrow> 'a server_scheme result" where
  "listener_cb fd s =
     (if length (sv_workers s) \<le> sv_threadCursor s then Inl (OutOfRange ''vector::at'')
      else Inr ((queueAccept (sv_threadCursor s) fd s)
             \<lparr>sv_threadCursor := (sv_threadCursor s + 1) mod sv_threadCount s\<rparr>))"

type_synonym 'a acceptor = "nat \<Rightarrow> descriptor \<Rightarrow> 'a server_scheme \<Rightarrow> 'a server_scheme \<times> unit result"

function acceptcb_loop :: "'a acceptor \<Rightarrow> nat \<Rightarrow> descriptor list \<Rightarrow> 'a server_scheme \<Rightarrow> 'a server_scheme \<times> unit result" where
  "acceptcb_loop accept w queue s =
     (if queue = [] then (s, Inr ())
      else case accept w (last queue) (update_worker w (\<lambda>wk. wk\<lparr>wk_acceptQueue := butlast queue\<rparr>) s) of
        (s', Inl e) \<Rightarrow> (s', Inl e)
      | (s', Inr _) \<Rightarrow> acceptcb_loop accept w (butlast queue) s')"
  by pat_completeness auto
termination
  by (relation "measure (\<lambda>(accept, w, queue, s). length queue)") auto

definition worker_acceptcb :: "'a acceptor \<Rightarrow> nat \<Rightarrow> 'a server_scheme \<Rightarrow> 'a server_scheme \<times> unit result" where
  "worker_acceptcb accept w s = acceptcb_loop accept w (wk_acceptQueue (sv_workers s ! w)) s"

declare acceptcb_loop.simps [simp del]

text \<open>
  The HTTP server's \<open>closeHandler\<close>: it looks its client up, runs the plugins' close handlers
  (which do not touch these tables) and closes the connection in turn.  \<open>close\<close> and \<open>remove\<close> are
  mutually recursive through it, so the \<open>remove\<close> it would end up in is its parameter.
\<close>

definition http_closeHandler :: "'a remover \<Rightarrow> (bufferevent \<Rightarrow> nat) \<Rightarrow> 'a close_handler" where
  "http_closeHandler remove output_length client_id s =
     (case at (sv_allClients s) client_id of
        Inl e \<Rightarrow> (s, Inl e)
      | Inr _ \<Rightarrow> (case close remove output_length client_id s of (s', res) \<Rightarrow> (s', rmap (\<lambda>_. ()) res)))"

section \<open>The invariant of the tables\<close>

definition net_ok :: "'a server_scheme \<Rightarrow> bool" where
  "net_ok s \<longleftrightarrow>
     inverse_maps (sv_descriptors s) (sv_clients s)
   \<and> inverse_maps (sv_bufferEvents s) (sv_bufferEventDescriptors s)
   \<and> dom (sv_bufferEvents s) = dom (sv_clients s)
   \<and> dom (sv_workerMap s) = dom (sv_bufferEventDescriptors s)
   \<and> dom (sv_allClients s) = dom (sv_descriptors s)
   \<and> sv_freePool s \<inter> dom (sv_descriptors s) = {}
   \<and> sv_freePool s \<union> dom (sv_descriptors s) = {0..sv_lastClient s}
   \<and> -1 \<le> sv_lastClient s
   \<and> (\<forall>w \<in> ran (sv_workerMap s). w < length (sv_workers s))
   \<and> length (sv_workers s) = sv_threadCount s \<and> sv_threadCursor s < sv_threadCount s"

definition picks :: "(int set \<Rightarrow> int) \<Rightarrow> bool" where
  "picks pick \<longleftrightarrow> (\<forall>S. S \<noteq> {} \<longrightarrow> pick S \<in> S)"

lemma update_worker_simps [simp]:
  "sv_lastClient (update_worker w f s) = sv_lastClient s"
  "sv_clients (update_worker w f s) = sv_clients s"
  "sv_freePool (update_worker w f s) = sv_freePool s"
  "sv_descriptors (update_worker w f s) = sv_descriptors s"
  "sv_allClients (update_worker w f s) = sv_allClients s"
  "sv_bufferEvents (update_worker w f s) = sv_bufferEvents s"
  "sv_bufferEventDescriptors (update_worker w f s) = sv_bufferEventDescriptors s"
  "sv_workerMap (update_worker w f s) = sv_workerMap s"
  "length (sv_workers (update_worker w f s)) = length (sv_workers s)"
  "sv_threadCount (update_worker w f s) = sv_threadCount s"
  "sv_threadCursor (update_worker w f s) = sv_threadCursor s"
  by (simp_all add: update_worker_def)

lemma net_ok_update_worker [simp]: "net_ok (update_worker w f s) = net_ok s"
  by (simp add: net_ok_def)

lemma net_okD:
  assumes "net_ok s"
  shows "inverse_maps (sv_descriptors s) (sv_clients s)"
    "inverse_maps (sv_bufferEvents s) (sv_bufferEventDescriptors s)"
    "dom (sv_bufferEvents s) = dom (sv_clients s)"
    "dom (sv_workerMap s) = dom (sv_bufferEventDescriptors s)"
    "dom (sv_allClients s) = dom (sv_descriptors s)"
    "sv_freePool s \<inter> dom (sv_descriptors s) = {}"
    "sv_freePool s \<union> dom (sv_descriptors s) = {0..sv_lastClient s}"
    "-1 \<le> sv_lastClient s"
    "\<forall>w \<in> ran (sv_workerMap s). w < length (sv_workers s)"
    "length (sv_workers s) = sv_threadCount s" "sv_threadCursor s < sv_threadCount s"
  using assms unfolding net_ok_def by blast+

text \<open>The number a new connection gets was not in use, and the rest of the numbers stays as it was.\<close>

lemma new_client_id_fresh:
  assumes "net_ok s" and "picks pick"
  shows "new_client_id pick s \<notin> dom (sv_descriptors s)"
    "sv_freePool (take_client_id pick s) = sv_freePool s - {new_client_id pick s}"
    "insert (new_client_id pick s) {0..sv_lastClient s} = {0..sv_lastClient (take_client_id pick s)}"
    "-1 \<le> sv_lastClient (take_client_id pick s)"
proof -
  have "pick (sv_freePool s) \<in> sv_freePool s" if "sv_freePool s \<noteq> {}"
    using that assms(2) by (simp add: picks_def)
  moreover have "sv_lastClient s + 1 \<notin> {0..sv_lastClient s}" by simp
  ultimately show "new_client_id pick s \<notin> dom (sv_descriptors s)"
    using net_okD(6,7) [OF assms(1)] by (cases "sv_freePool s = {}") (auto simp: new_client_id_def)
  show "sv_freePool (take_client_id pick s) = sv_freePool s - {new_client_id pick s}"
    by (auto simp: take_client_id_def new_client_id_def)
  show "insert (new_client_id pick s) {0..sv_lastClient s} = {0..sv_lastClient (take_client_id pick s)}"
  proof (cases "sv_freePool s = {}")
    case True
    then show ?thesis using net_okD(8) [OF assms(1)] by (auto simp: take_client_id_def new_client_id_def)
  next
    case False
    then have "pick (sv_freePool s) \<in> sv_freePool s" using assms(2) by (simp add: picks_def)
    then have "pick (sv_freePool s) \<in> {0..sv_lastClient s}" using net_okD(7) [OF assms(1)] by blast
    with False show ?thesis by (auto simp: take_client_id_def new_client_id_def)
  qed
  show "-1 \<le> sv_lastClient (take_client_id pick s)"
    using net_okD(8) [OF assms(1)] by (simp add: take_client_id_def)
qed

lemma take_client_id_simps [simp]:
  "sv_clients (take_client_id pick s) = sv_clients s"
  "sv_descriptors (take_client_id pick s) = sv_descriptors s"
  "sv_allClients (take_client_id pick s) = sv_allClients s"
  "sv_bufferEvents (take_client_id pick s) = sv_bufferEvents s"
  "sv_bufferEventDescriptors (take_client_id pick s) = sv_bufferEventDescriptors s"
  "sv_workerMap (take_client_id pick s) = sv_workerMap s"
  "sv_workers (take_client_id pick s) = sv_workers s"
  "sv_threadCount (take_client_id pick s) = sv_threadCount s"
  "sv_threadCursor (take_client_id pick s) = sv_threadCursor s"
  by (simp_all add: take_client_id_def)

lemma emplace_fresh: "k \<notin> dom m \<Longrightarrow> emplace k v m = m(k \<mapsto> v)"
  by (auto simp: emplace_def domIff)

text \<open>The tables after a connection was added, and after one was taken out.\<close>

definition added :: "int \<Rightarrow> descriptor \<Rightarrow> bufferevent \<Rightarrow> nat \<Rightarrow> http_client \<Rightarrow> 'a server_scheme \<Rightarrow> 'b server_scheme \<Rightarrow> bool" where
  "added c d b w cl s s' \<longleftrightarrow>
     sv_descriptors s' = (sv_descriptors s)(c \<mapsto> d) \<and> sv_clients s' = (sv_clients s)(d \<mapsto> c)
   \<and> sv_bufferEvents s' = (sv_bufferEvents s)(d \<mapsto> b)
   \<and> sv_bufferEventDescriptors s' = (sv_bufferEventDescriptors s)(b \<mapsto> d)
   \<and> sv_workerMap s' = (sv_workerMap s)(b \<mapsto> w) \<and> sv_allClients s' = (sv_allClients s)(c \<mapsto> cl)
   \<and> sv_workers s' = sv_workers s \<and> sv_threadCount s' = sv_threadCount s
   \<and> sv_threadCursor s' = sv_threadCursor s"

definition taken_out :: "int \<Rightarrow> descriptor \<Rightarrow> bufferevent \<Rightarrow> 'a server_scheme \<Rightarrow> 'b server_scheme \<Rightarrow> bool" where
  "taken_out c d b s s' \<longleftrightarrow>
     sv_descriptors s' = (sv_descriptors s)(c := None) \<and> sv_clients s' = (sv_clients s)(d := None)
   \<and> sv_bufferEvents s' = (sv_bufferEvents s)(d := None)
   \<and> sv_bufferEventDescriptors s' = (sv_bufferEventDescriptors s)(b := None)
   \<and> sv_workerMap s' = (sv_workerMap s)(b := None) \<and> sv_allClients s' = (sv_allClients s)(c := None)
   \<and> sv_freePool s' = insert c (sv_freePool s) \<and> sv_lastClient s' = sv_lastClient s
   \<and> length (sv_workers s') = length (sv_workers s) \<and> sv_threadCount s' = sv_threadCount s
   \<and> sv_threadCursor s' = sv_threadCursor s"

lemma added_ok:
  assumes ok: "net_ok s" and "picks pick" and "d \<notin> dom (sv_clients s)"
    and "b \<notin> dom (sv_bufferEventDescriptors s)" and "w < length (sv_workers s)"
    and add: "added (new_client_id pick s) d b w cl s s'"
    and free: "sv_freePool s' = sv_freePool (take_client_id pick s)"
      "sv_lastClient s' = sv_lastClient (take_client_id pick s)"
  shows "net_ok s'"
proof -
  note fresh = new_client_id_fresh [OF ok assms(2)]
  note D = net_okD [OF ok]
  have nd: "sv_clients s d = None" "sv_bufferEventDescriptors s b = None"
    "sv_descriptors s (new_client_id pick s) = None" "sv_bufferEvents s d = None"
    using assms(3,4) fresh(1) D(3) by (auto simp: domIff)
  have "sv_freePool s' \<union> dom (sv_descriptors s') = {0..sv_lastClient s'}"
    using add free fresh(2,3) D(7) by (auto simp: added_def)
  moreover have "sv_freePool s' \<inter> dom (sv_descriptors s') = {}"
    using add free fresh(2) D(6) by (auto simp: added_def)
  moreover have "\<forall>w \<in> ran (sv_workerMap s'). w < length (sv_workers s')"
    using add assms(5) D(9) by (auto simp: added_def ran_def)
  ultimately show ?thesis
    using add free(2) fresh(4) D(1-5,10,11) nd
    unfolding net_ok_def by (simp add: added_def inverse_maps_put)
qed

lemma taken_out_ok:
  assumes ok: "net_ok s" and "sv_clients s d = Some c" and "sv_bufferEventDescriptors s b = Some d"
    and out: "taken_out c d b s s'"
  shows "net_ok s'"
proof -
  note D = net_okD [OF ok]
  have c: "sv_descriptors s c = Some d" "sv_bufferEvents s d = Some b"
    using assms(2,3) D(1,2) by (simp_all add: inverse_mapsD)
  have "sv_freePool s' \<union> dom (sv_descriptors s') = {0..sv_lastClient s'}"
    using out D(7) c by (auto simp: taken_out_def)
  moreover have "sv_freePool s' \<inter> dom (sv_descriptors s') = {}"
    using out D(6) by (auto simp: taken_out_def)
  moreover have "\<forall>w \<in> ran (sv_workerMap s'). w < length (sv_workers s')"
    using out D(9) by (auto simp: taken_out_def ran_def split: if_splits)
  ultimately show ?thesis
    using out D(1-5,8,10,11) c
    unfolding net_ok_def by (simp add: taken_out_def inverse_maps_del)
qed

section \<open>What a worker promises\<close>

text \<open>
  The contract of a worker's \<open>accept\<close> and \<open>remove\<close>, which the plain and the SSL worker share.  A
  descriptor the kernel hands out is not open elsewhere, and a new \<open>bufferevent\<close> has an address
  no live one has.
\<close>

locale connection_worker =
  fixes accept :: "(int set \<Rightarrow> int) \<Rightarrow> nat \<Rightarrow> descriptor \<Rightarrow> bufferevent option \<Rightarrow> string
      \<Rightarrow> 'a server_scheme \<Rightarrow> 'a server_scheme \<times> unit result"
    and remove :: "'a remover"
  assumes accept_adds:
      "\<lbrakk>picks pick; net_ok s; d \<notin> dom (sv_clients s); b \<notin> dom (sv_bufferEventDescriptors s);
        accept pick w d (Some b) ip s = (s', Inr ())\<rbrakk>
       \<Longrightarrow> s' = s \<or> (added (new_client_id pick s) d b w (new_client (new_client_id pick s) (peer_text ip)) s s'
           \<and> sv_freePool s' = sv_freePool (take_client_id pick s)
           \<and> sv_lastClient s' = sv_lastClient (take_client_id pick s))"
    and remove_takes_out:
      "\<lbrakk>net_ok s; sv_bufferEventDescriptors s b = Some d; sv_clients s d = Some c\<rbrakk>
       \<Longrightarrow> \<exists>s'. remove w b s = (s', Inr ()) \<and> taken_out c d b s s'"
begin

lemma accept_ok:
  assumes "picks pick" "net_ok s" "d \<notin> dom (sv_clients s)" "b \<notin> dom (sv_bufferEventDescriptors s)"
    "w < length (sv_workers s)" "accept pick w d (Some b) ip s = (s', Inr ())"
  shows "net_ok s'"
  using accept_adds [OF assms(1-4,6)] added_ok [OF assms(2,1,3-5)] assms(2) by blast

lemma live_entry:
  assumes "net_ok s" and "sv_bufferEventDescriptors s b \<noteq> None"
  obtains d c where "sv_bufferEventDescriptors s b = Some d" "sv_clients s d = Some c"
proof -
  note D = net_okD [OF assms(1)]
  obtain d where d: "sv_bufferEventDescriptors s b = Some d" using assms(2) by blast
  then have "sv_bufferEvents s d = Some b" using D(2) by (simp add: inverse_mapsD)
  then have "d \<in> dom (sv_clients s)" using D(3) by blast
  with d that show thesis by blast
qed

lemma remove_ok:
  assumes "net_ok s" and "sv_bufferEventDescriptors s b \<noteq> None"
  shows "\<exists>s'. remove w b s = (s', Inr ()) \<and> net_ok s'"
  using live_entry [OF assms] remove_takes_out [OF assms(1)] taken_out_ok [OF assms(1)] by metis

lemma close_ok:
  assumes "net_ok s"
  shows "\<exists>s' r. close remove out i s = (s', Inr r) \<and> net_ok s'"
proof (cases "rbind (getDescriptor i s) (\<lambda>d. getBufferEvent d s)")
  case (Inl e)
  with assms have "close remove out i s = (s, Inr False)" by (simp add: close_def)
  with assms show ?thesis by blast
next
  case (Inr b)
  then obtain d where "sv_bufferEvents s d = Some b"
    by (auto simp: result_simps getDescriptor_def getBufferEvent_def at_def split: option.splits)
  then have live: "sv_bufferEventDescriptors s b \<noteq> None"
    using net_okD(2) [OF assms] by (simp add: inverse_mapsD)
  then obtain w where w: "sv_workerMap s b = Some w" using net_okD(4) [OF assms] by blast
  obtain s' where s': "remove w b s = (s', Inr ())" "net_ok s'" using remove_ok [OF assms live] by blast
  with Inr w assms have "close remove out i s = (if out b = 0 then s'
      else update_worker w (\<lambda>wk. wk\<lparr>wk_closeQueue := insert b (wk_closeQueue wk)\<rparr>) s, Inr True)"
    by (simp add: close_def at_def queueClose_def)
  with s' assms show ?thesis by auto
qed

lemma writecb_ok:
  assumes "net_ok s" and "sv_bufferEventDescriptors s b \<noteq> None"
  shows "\<exists>s'. conn_writecb remove w b n s = (s', Inr ()) \<and> net_ok s'"
proof -
  let ?s = "update_worker w (\<lambda>wk. wk\<lparr>wk_closeQueue := wk_closeQueue wk - {b}\<rparr>) s"
  have "\<exists>s'. remove w b ?s = (s', Inr ()) \<and> net_ok s'" using assms by (intro remove_ok) simp_all
  with assms(1) show ?thesis by (auto simp: conn_writecb_def handleWriteEmpty_def)
qed

end

section \<open>Executions\<close>

text \<open>One event of a server: a connection is queued, accepted, closed, flushed or lost.\<close>

inductive net_step ::
  "((int set \<Rightarrow> int) \<Rightarrow> nat \<Rightarrow> descriptor \<Rightarrow> bufferevent option \<Rightarrow> string
      \<Rightarrow> 'a server_scheme \<Rightarrow> 'a server_scheme \<times> unit result) \<Rightarrow> 'a remover
   \<Rightarrow> (int set \<Rightarrow> int) \<Rightarrow> 'a server_scheme \<Rightarrow> 'a server_scheme \<Rightarrow> bool"
  for accept and remove and pick where
  Listen: "listener_cb fd s = Inr s' \<Longrightarrow> net_step accept remove pick s s'"
| Accept: "\<lbrakk>w < length (sv_workers s); d \<notin> dom (sv_clients s); b \<notin> dom (sv_bufferEventDescriptors s);
     accept pick w d (Some b) ip s = (s', Inr ())\<rbrakk> \<Longrightarrow> net_step accept remove pick s s'"
| Close: "close remove out i s = (s', r) \<Longrightarrow> net_step accept remove pick s s'"
| Written: "sv_workerMap s b = Some w \<Longrightarrow> conn_writecb remove w b n s = (s', r) \<Longrightarrow> net_step accept remove pick s s'"
| Lost: "sv_workerMap s b = Some w \<Longrightarrow> handleEOF remove w b s = (s', r) \<Longrightarrow> net_step accept remove pick s s'"
| Failed: "server_remove remove b s = (s', r) \<Longrightarrow> net_step accept remove pick s s'"

lemma listener_ok: "net_ok s \<Longrightarrow> \<exists>s'. listener_cb fd s = Inr s' \<and> net_ok s'"
proof -
  assume ok: "net_ok s"
  note D = net_okD [OF ok]
  have "net_ok (s\<lparr>sv_threadCursor := (sv_threadCursor s + 1) mod sv_threadCount s\<rparr>)"
    using D unfolding net_ok_def by simp
  then have "net_ok ((queueAccept (sv_threadCursor s) fd s)
      \<lparr>sv_threadCursor := (sv_threadCursor s + 1) mod sv_threadCount s\<rparr>)"
    unfolding net_ok_def queueAccept_def by auto
  then show ?thesis using D(10,11) by (simp add: listener_cb_def)
qed

context connection_worker
begin

lemma step_ok:
  assumes "net_step accept remove pick s s'" and "picks pick" and "net_ok s"
  shows "net_ok s'"
  using assms(1)
proof cases
  case (Listen fd)
  then show ?thesis using listener_ok [OF assms(3), of fd] by auto
next
  case (Accept w d b ip)
  then show ?thesis using accept_ok [OF assms(2,3)] by blast
next
  case (Close out i r)
  then show ?thesis using close_ok [OF assms(3), of out i] by auto
next
  case (Written b w n r)
  have "sv_bufferEventDescriptors s b \<noteq> None" using Written net_okD(4) [OF assms(3)] by (auto simp: domIff)
  then show ?thesis using Written writecb_ok [OF assms(3), of b w n] by auto
next
  case (Lost b w r)
  have "sv_bufferEventDescriptors s b \<noteq> None" using Lost net_okD(4) [OF assms(3)] by (auto simp: domIff)
  then show ?thesis using Lost remove_ok [OF assms(3), of b w] by (auto simp: handleEOF_def)
next
  case (Failed b r)
  show ?thesis
  proof (cases "sv_workerMap s b")
    case None
    with Failed assms(3) show ?thesis by (simp add: server_remove_def)
  next
    case (Some w)
    then have "sv_bufferEventDescriptors s b \<noteq> None" using net_okD(4) [OF assms(3)] by (auto simp: domIff)
    then show ?thesis using Failed Some remove_ok [OF assms(3), of b w] by (auto simp: server_remove_def)
  qed
qed

lemma reachable_ok:
  assumes "(net_step accept remove pick)\<^sup>*\<^sup>* s s'" and "picks pick" and "net_ok s"
  shows "net_ok s'"
  using assms(1,3) by (induction rule: rtranclp_induct) (auto intro: step_ok [OF _ assms(2)])

end

section \<open>The two workers\<close>

text \<open>By the time the close handler runs, the connection cannot be found any more: its call of \<open>close\<close> does nothing.\<close>

lemma http_closeHandler_quiet:
  assumes "sv_allClients s c \<noteq> None" and "sv_descriptors s c = Some d" and "sv_bufferEvents s d = None"
  shows "http_closeHandler remove out c s = (s, Inr ())"
  using assms
  by (auto simp: http_closeHandler_def close_def getDescriptor_def getBufferEvent_def at_def)

lemma worker_remove_takes_out:
  assumes ok: "net_ok s" and "sv_bufferEventDescriptors s b = Some d" and "sv_clients s d = Some c"
  shows "\<exists>s'. worker_remove (Some (http_closeHandler rem out)) w b s = (s', Inr ()) \<and> taken_out c d b s s'"
proof -
  let ?s = "s\<lparr>sv_bufferEventDescriptors := (sv_bufferEventDescriptors s)(b := None),
              sv_bufferEvents := (sv_bufferEvents s)(d := None)\<rparr>"
  note D = net_okD [OF ok]
  have c: "sv_descriptors s c = Some d" using assms(3) D(1) by (simp add: inverse_mapsD)
  then have "sv_allClients s c \<noteq> None" using D(5) by blast
  with c have "http_closeHandler rem out c ?s = (?s, Inr ())"
    by (intro http_closeHandler_quiet [where d = d]) simp_all
  with assms show ?thesis by (simp add: worker_remove_def at_def taken_out_def)
qed

lemma worker_accept_adds:
  assumes "net_ok s" and "picks pick" and "d \<notin> dom (sv_clients s)" and "b \<notin> dom (sv_bufferEventDescriptors s)"
    and acc: "worker_accept pick w d (Some b) ip s = (s', Inr ())"
  shows "added (new_client_id pick s) d b w (new_client (new_client_id pick s) (peer_text ip)) s s'
    \<and> sv_freePool s' = sv_freePool (take_client_id pick s) \<and> sv_lastClient s' = sv_lastClient (take_client_id pick s)"
proof -
  note fresh = new_client_id_fresh [OF assms(1,2)] and D = net_okD [OF assms(1)]
  have new: "new_client_id pick s \<notin> dom (sv_allClients s)" "d \<notin> dom (sv_bufferEvents s)" "b \<notin> dom (sv_workerMap s)"
    using fresh(1) D(3-5) assms(3,4) by auto
  then have nb: "sv_bufferEvents s d = None" by blast
  show ?thesis
    using acc nb new fresh(1) assms(4)
    by (auto simp: worker_accept_def Let_def added_def addClient_def register_buffer_event_def emplace_fresh)
qed

interpretation plain_worker: connection_worker worker_accept "worker_remove (Some (http_closeHandler rem out))"
proof (unfold_locales, goal_cases)
  case (1 pick s d b w ip s')
  then show ?case using worker_accept_adds [OF 1(2,1,3-5)] by blast
next
  case (2 s b d c w)
  then show ?case by (rule worker_remove_takes_out)
qed

lemma ssl_worker_accept_adds:
  assumes "net_ok s" and "picks pick" and "d \<notin> dom (sv_clients s)" and "b \<notin> dom (sv_bufferEventDescriptors s)"
    and acc: "ssl_worker_accept pick filters ssl w d (Some b) ip s = (s', Inr ())"
  shows "s' = s \<or> (added (new_client_id pick s) d b w (new_client (new_client_id pick s) (peer_text ip)) s s'
    \<and> sv_freePool s' = sv_freePool (take_client_id pick s) \<and> sv_lastClient s' = sv_lastClient (take_client_id pick s))"
proof -
  note fresh = new_client_id_fresh [OF assms(1,2)] and D = net_okD [OF assms(1)]
  have new: "new_client_id pick s \<notin> dom (sv_allClients s)" "d \<notin> dom (sv_bufferEvents s)" "b \<notin> dom (sv_workerMap s)"
    using fresh(1) D(3-5) assms(3,4) by auto
  then have nb: "sv_bufferEvents s d = None" by blast
  show ?thesis
    using acc nb new fresh(1) assms(4)
    by (auto simp: ssl_worker_accept_def Let_def added_def addClient_def register_buffer_event_def emplace_fresh
        split: if_splits option.splits)
qed

lemma ssl_worker_remove_takes_out:
  assumes "net_ok s" and "sv_bufferEventDescriptors s b = Some d" and "sv_clients s d = Some c"
  shows "\<exists>s'. ssl_worker_remove (Some (http_closeHandler rem out)) w b s = (s', Inr ()) \<and> taken_out c d b s s'
    \<and> ss_ssls s' d = None"
  using worker_remove_takes_out [OF assms, of rem out w] assms(2)
  by (auto simp: ssl_worker_remove_def taken_out_def)

interpretation ssl_worker: connection_worker "\<lambda>pick. ssl_worker_accept pick filters ssl"
    "ssl_worker_remove (Some (http_closeHandler rem out))"
proof (unfold_locales, goal_cases)
  case (1 pick s d b w ip s')
  then show ?case using ssl_worker_accept_adds [OF 1(2,1,3-5)] by blast
next
  case (2 s b d c w)
  then show ?case using ssl_worker_remove_takes_out [OF 2, of rem out w] by blast
qed

lemma new_server_ok: "new_server n chunk = Inr s \<Longrightarrow> net_ok s"
  by (auto simp: new_server_def net_ok_def split: if_splits)

text \<open>
  (C3) The connection tables stay consistent: from the start of a server, through any sequence of
  connections being queued, accepted, closed, flushed, lost or failing, with the plain worker
  as well as with the SSL worker and its filters, client numbers and descriptors correspond one to one,
  descriptors and buffers too, every live buffer has a worker and every client an instance, and
  each number ever given out is either in use or in the pool of free numbers, never both.
\<close>

theorem connection_tables_consistent:
  assumes "picks pick" and "new_server n chunk = Inr s0"
  shows "((net_step worker_accept (worker_remove (Some (http_closeHandler rem out))) pick)\<^sup>*\<^sup>* s0 s \<longrightarrow> net_ok s)
    \<and> (net_ok t0 \<and> (net_step (\<lambda>pick. ssl_worker_accept pick filters ssl)
          (ssl_worker_remove (Some (http_closeHandler rem' out))) pick)\<^sup>*\<^sup>* t0 t \<longrightarrow> net_ok t)"
  using plain_worker.reachable_ok [OF _ assms(1) new_server_ok [OF assms(2)]]
    ssl_worker.reachable_ok [OF _ assms(1)] by blast

theorem connection_tables_consistent_witness:
  "\<exists>s0 s. new_server 2 1024 = Inr s0
     \<and> worker_accept Min 0 7 (Some 99) ''::ffff:10.0.0.1'' s0 = (s, Inr ()) \<and> net_ok s
     \<and> sv_descriptors s 0 = Some 7 \<and> map_option cl_ip (sv_allClients s 0) = Some ''10.0.0.1''"
proof -
  obtain s0 where s0: "new_server 2 1024 = Inr s0" by (simp add: new_server_def)
  then have init: "sv_clients s0 = Map.empty" "sv_bufferEventDescriptors s0 = Map.empty"
    "sv_bufferEvents s0 = Map.empty" "sv_descriptors s0 = Map.empty" "sv_freePool s0 = {}"
    "sv_lastClient s0 = -1" "sv_allClients s0 = Map.empty" "length (sv_workers s0) = 2" "sv_workerMap s0 = Map.empty"
    by (auto simp: new_server_def)
  define pick :: "int set \<Rightarrow> int" where "pick S = (if finite S then Min S else SOME x. x \<in> S)" for S
  have "picks pick" by (auto simp: picks_def pick_def some_in_eq)
  moreover obtain s where s: "worker_accept pick 0 7 (Some 99) ''::ffff:10.0.0.1'' s0 = (s, Inr ())"
    using init by (simp add: worker_accept_def Let_def)
  moreover have "net_step worker_accept (worker_remove (Some (http_closeHandler (\<lambda>w b s. (s, Inr ())) (\<lambda>b. 0)))) pick s0 s"
    using init s by (intro net_step.Accept [where w = 0 and d = 7 and b = 99]) simp_all
  ultimately have "net_ok s" using connection_tables_consistent s0 by blast
  moreover have "sv_descriptors s 0 = Some 7" "map_option cl_ip (sv_allClients s 0) = Some ''10.0.0.1''"
    using s init
    by (auto simp: worker_accept_def Let_def take_client_id_def new_client_id_def addClient_def
        register_buffer_event_def emplace_def new_client_def peer_text_def)
  moreover have "worker_accept Min 0 7 (Some 99) ''::ffff:10.0.0.1'' s0 = (s, Inr ())"
    using s init by (simp add: worker_accept_def Let_def take_client_id_def new_client_id_def)
  ultimately show ?thesis using s0 by blast
qed

section \<open>Closing\<close>

text \<open>
  (C26) Closing a connection loses no output: while bytes wait to be written the connection stays in
  the tables, and when the last of them is out it leaves all of them at once, its number
  becoming free; with nothing to write it leaves at once; closing a number that is not
  connected does nothing.
\<close>

theorem close_after_flush:
  assumes "net_ok s" and "sv_descriptors s c = Some d" and "sv_bufferEvents s d = Some b" and "sv_workerMap s b = Some w"
    and "remove = worker_remove (Some (http_closeHandler rem out))"
  shows "(0 < out b \<longrightarrow> (\<exists>s1 s2. close remove out c s = (s1, Inr True) \<and> sv_descriptors s1 = sv_descriptors s
      \<and> sv_bufferEvents s1 = sv_bufferEvents s \<and> (\<forall>n. 0 < n \<longrightarrow> conn_writecb remove w b n s1 = (s1, Inr ()))
      \<and> conn_writecb remove w b 0 s1 = (s2, Inr ()) \<and> taken_out c d b s s2))
    \<and> (out b = 0 \<longrightarrow> (\<exists>s2. close remove out c s = (s2, Inr True) \<and> taken_out c d b s s2))
    \<and> (sv_descriptors s c' = None \<longrightarrow> close remove out c' s = (s, Inr False))"
proof (intro conjI impI)
  note D = net_okD [OF assms(1)]
  have bed: "sv_bufferEventDescriptors s b = Some d" "sv_clients s d = Some c"
    using assms(2,3) D(1,2) by (simp_all add: inverse_mapsD)
  have w: "w < length (sv_workers s)" using assms(4) D(9) by (auto intro: ranI)
  have found: "rbind (getDescriptor c s) (\<lambda>d. getBufferEvent d s) = Inr b" "at (sv_workerMap s) b = Inr w"
    using assms(2-4) by (simp_all add: getDescriptor_def getBufferEvent_def at_def)
  show "\<exists>s2. close remove out c s = (s2, Inr True) \<and> taken_out c d b s s2" if "out b = 0"
    using that found worker_remove_takes_out [OF assms(1) bed, of rem out w]
    by (auto simp: close_def queueClose_def assms(5))
  let ?s1 = "update_worker w (\<lambda>wk. wk\<lparr>wk_closeQueue := insert b (wk_closeQueue wk)\<rparr>) s"
  let ?s1' = "update_worker w (\<lambda>wk. wk\<lparr>wk_closeQueue := wk_closeQueue wk - {b}\<rparr>) ?s1"
  have queued: "b \<in> wk_closeQueue (sv_workers ?s1 ! w)" using w by (simp add: update_worker_def)
  obtain s2 where s2: "remove w b ?s1' = (s2, Inr ())" "taken_out c d b ?s1' s2"
    using worker_remove_takes_out [of ?s1' b d c rem out w] assms(1) bed by (auto simp: assms(5))
  show "\<exists>s1 s2. close remove out c s = (s1, Inr True) \<and> sv_descriptors s1 = sv_descriptors s
      \<and> sv_bufferEvents s1 = sv_bufferEvents s \<and> (\<forall>n. 0 < n \<longrightarrow> conn_writecb remove w b n s1 = (s1, Inr ()))
      \<and> conn_writecb remove w b 0 s1 = (s2, Inr ()) \<and> taken_out c d b s s2" if "0 < out b"
  proof (intro exI conjI)
    show "close remove out c s = (?s1, Inr True)" using that found by (simp add: close_def queueClose_def)
    show "conn_writecb remove w b 0 ?s1 = (s2, Inr ())"
      using queued s2(1) by (simp add: conn_writecb_def handleWriteEmpty_def)
    show "taken_out c d b s s2" using s2(2) by (simp add: taken_out_def)
  qed (simp_all add: conn_writecb_def)
  show "close remove out c' s = (s, Inr False)" if "sv_descriptors s c' = None"
    using that by (simp add: close_def getDescriptor_def at_def)
qed

theorem close_after_flush_witness:
  "\<exists>s :: server. net_ok s \<and> sv_descriptors s 0 = Some 7
     \<and> (\<exists>s1 s2. close (worker_remove (Some (http_closeHandler (\<lambda>w b s. (s, Inr ())) (\<lambda>b. 12)))) (\<lambda>b. 12) 0 s = (s1, Inr True)
         \<and> sv_descriptors s1 0 = Some 7
         \<and> conn_writecb (worker_remove (Some (http_closeHandler (\<lambda>w b s. (s, Inr ())) (\<lambda>b. 12)))) 0 99 0 s1 = (s2, Inr ())
         \<and> sv_descriptors s2 0 = None)"
proof -
  obtain s :: server where s: "s = \<lparr>sv_lastClient = 0, sv_clients = [7 \<mapsto> 0], sv_freePool = {}, sv_descriptors = [0 \<mapsto> 7],
      sv_allClients = [0 \<mapsto> new_client 0 ''::1''], sv_bufferEvents = [7 \<mapsto> 99], sv_bufferEventDescriptors = [99 \<mapsto> 7],
      sv_workerMap = [99 \<mapsto> 0], sv_workers = [new_worker 1024 0], sv_threadCount = 1, sv_threadCursor = 0\<rparr>" by simp
  have "inverse_maps [0 \<mapsto> 7 :: int] [7 \<mapsto> 0 :: int]" "inverse_maps [7 :: int \<mapsto> 99] [99 :: nat \<mapsto> 7 :: int]"
    by (simp_all add: inverse_maps_put)
  then have "net_ok s" by (auto simp: s net_ok_def)
  moreover have f: "sv_descriptors s 0 = Some 7" "sv_bufferEvents s 7 = Some 99" "sv_workerMap s 99 = Some 0"
    by (simp_all add: s)
  ultimately obtain s1 s2 where
    "close (worker_remove (Some (http_closeHandler (\<lambda>w b s. (s, Inr ())) (\<lambda>b. 12)))) (\<lambda>b. 12) 0 s = (s1, Inr True)"
    "sv_descriptors s1 = sv_descriptors s"
    "conn_writecb (worker_remove (Some (http_closeHandler (\<lambda>w b s. (s, Inr ())) (\<lambda>b. 12)))) 0 99 0 s1 = (s2, Inr ())"
    "taken_out 0 7 99 s s2"
    using close_after_flush [OF _ _ _ _ refl, of s 0 7 99 0 "\<lambda>b. 12" "\<lambda>w b s. (s, Inr ())" 1] by auto
  then show ?thesis using \<open>net_ok s\<close> f(1) by (auto simp: taken_out_def)
qed

text \<open>
  A connection that is lost while it waits in the close queue stays in the queue: libevent may
  reuse the address, and the next connection there is closed after its first write.
\<close>

lemma lost_connection_stays_queued:
  assumes "net_ok s" and "sv_bufferEventDescriptors s b = Some d" and "sv_clients s d = Some c"
    and "b \<in> wk_closeQueue (sv_workers s ! w)" and "w < length (sv_workers s)"
  shows "\<exists>s'. handleEOF (worker_remove (Some (http_closeHandler rem out))) w b s = (s', Inr ())
    \<and> b \<in> wk_closeQueue (sv_workers s' ! w)"
proof -
  let ?s = "s\<lparr>sv_bufferEventDescriptors := (sv_bufferEventDescriptors s)(b := None),
              sv_bufferEvents := (sv_bufferEvents s)(d := None)\<rparr>"
  have c: "sv_descriptors s c = Some d" using assms(3) net_okD(1) [OF assms(1)] by (simp add: inverse_mapsD)
  then have "sv_allClients s c \<noteq> None" using net_okD(5) [OF assms(1)] by blast
  with c have "http_closeHandler rem out c ?s = (?s, Inr ())"
    by (intro http_closeHandler_quiet [where d = d]) simp_all
  with assms show ?thesis by (simp add: handleEOF_def worker_remove_def at_def update_worker_def)
qed

text \<open>
  An \<open>accept\<close> that fails after it has taken a number leaks it: the number is neither free nor has
  it a buffer.
\<close>

lemma failed_accept_leaks:
  assumes "net_ok s" and "picks pick" and "d \<notin> dom (sv_clients s)"
  shows "\<exists>s' e. worker_accept pick w d None ip s = (s', Inl e) \<and> \<not> net_ok s'"
proof -
  obtain s' e where s': "worker_accept pick w d None ip s = (s', Inl e)"
    "sv_clients s' = (sv_clients s)(d \<mapsto> new_client_id pick s)" "sv_bufferEvents s' = sv_bufferEvents s"
    by (auto simp: worker_accept_def Let_def)
  then have "d \<in> dom (sv_clients s')" "d \<notin> dom (sv_bufferEvents s')"
    using assms(3) net_okD(3) [OF assms(1)] by auto
  then have "\<not> net_ok s'" using net_okD(3) by blast
  with s' show ?thesis by blast
qed

section \<open>Distribution over the workers\<close>

fun listen_all :: "descriptor list \<Rightarrow> 'a server_scheme \<Rightarrow> 'a server_scheme result" where
  "listen_all [] s = Inr s"
| "listen_all (fd # fds) s = rbind (listener_cb fd s) (listen_all fds)"

text \<open>
  New connections are spread evenly: the listener hands them to the workers in turn and never
  addresses a worker that does not exist.
\<close>

lemma listener_round_robin:
  assumes "net_ok s" and "w < sv_threadCount s"
  shows "\<exists>s'. listen_all fds s = Inr s' \<and> net_ok s'
    \<and> sv_threadCursor s' = (sv_threadCursor s + length fds) mod sv_threadCount s
    \<and> wk_acceptQueue (sv_workers s' ! w) = wk_acceptQueue (sv_workers s ! w)
        @ map (\<lambda>i. fds ! i) (filter (\<lambda>i. (sv_threadCursor s + i) mod sv_threadCount s = w) [0..<length fds])"
  using assms
proof (induction fds arbitrary: s)
  case Nil
  then show ?case using net_okD(11) [OF Nil(1)] by simp
next
  case (Cons fd fds)
  note D = net_okD [OF Cons.prems(1)]
  obtain s1 where s1: "listener_cb fd s = Inr s1" "net_ok s1" using listener_ok [OF Cons.prems(1)] by blast
  then have s1_eq: "s1 = (queueAccept (sv_threadCursor s) fd s)
      \<lparr>sv_threadCursor := (sv_threadCursor s + 1) mod sv_threadCount s\<rparr>"
    by (simp add: listener_cb_def split: if_splits)
  then have cur: "sv_threadCursor s1 = (sv_threadCursor s + 1) mod sv_threadCount s" "sv_threadCount s1 = sv_threadCount s"
    by (simp_all add: queueAccept_def)
  have queue: "wk_acceptQueue (sv_workers s1 ! w) = wk_acceptQueue (sv_workers s ! w) @ (if sv_threadCursor s = w then [fd] else [])"
    using Cons.prems(2) D(10,11) by (simp add: s1_eq queueAccept_def update_worker_def nth_list_update)
  obtain s' where s': "listen_all fds s1 = Inr s'" "net_ok s'"
    "sv_threadCursor s' = (sv_threadCursor s1 + length fds) mod sv_threadCount s1"
    "wk_acceptQueue (sv_workers s' ! w) = wk_acceptQueue (sv_workers s1 ! w)
        @ map (\<lambda>i. fds ! i) (filter (\<lambda>i. (sv_threadCursor s1 + i) mod sv_threadCount s1 = w) [0..<length fds])"
    using Cons.IH [OF s1(2)] Cons.prems(2) cur by auto
  have shift: "filter (\<lambda>i. (sv_threadCursor s + i) mod sv_threadCount s = w) [0..<length (fd # fds)]
      = (if sv_threadCursor s = w then [0] else [])
        @ map Suc (filter (\<lambda>i. (sv_threadCursor s + 1 + i) mod sv_threadCount s = w) [0..<length fds])"
    using D(11) by (simp add: upt_conv_Cons map_Suc_upt [symmetric] filter_map comp_def del: upt_Suc)
  have "sv_threadCursor s' = (sv_threadCursor s + length (fd # fds)) mod sv_threadCount s"
    using s'(3) cur by (simp add: mod_simps)
  moreover have "(sv_threadCursor s1 + i) mod sv_threadCount s1 = (sv_threadCursor s + 1 + i) mod sv_threadCount s" for i
    using cur by (simp add: mod_simps)
  ultimately show ?case
    using s1(1) s'(1,2,4) queue unfolding shift by (simp add: comp_def)
qed

lemma listener_round_robin_example:
  "\<exists>s0 s. new_server 2 1024 = Inr s0 \<and> listen_all [5, 6, 7] s0 = Inr s
     \<and> wk_acceptQueue (sv_workers s ! 0) = [5, 7]"
proof -
  obtain s0 where s0: "new_server 2 1024 = Inr s0" by (simp add: new_server_def)
  then have "sv_threadCount s0 = 2" "sv_threadCursor s0 = 0" "wk_acceptQueue (sv_workers s0 ! 0) = []"
    by (auto simp: new_server_def new_worker_def)
  moreover have "[0..<3] = [0, 1, 2 :: nat]" by (simp add: upt_rec)
  ultimately show ?thesis
    using listener_round_robin [OF new_server_ok [OF s0], of 0 "[5, 6, 7]"] s0
    by (auto simp: numeral_3_eq_3 upt_rec)
qed

end
