(* ===== verification/Json_Value.thy ===== *)
theory Json_Value
  imports Algiz_Prelude
begin

text \<open>
  The values of \<open>nlohmann::json\<close> and the accessors the sources use on configuration files, cached
  certificates and web hooks.  The parser is a parameter of the theories that need one.

  \<open>find\<close> on a value that is not an object answers as if the key were missing; \<open>at\<close> on such a value
  and every conversion to the wrong type throw.
\<close>

datatype json =
    JNull
  | JBool bool
  | JInt int
  | JString string
  | JArray "json list"
  | JObject "(string \<times> json) list"

definition jfind :: "json \<Rightarrow> string \<Rightarrow> json option" where
  "jfind v key = (case v of JObject kvs \<Rightarrow> map_of kvs key | _ \<Rightarrow> None)"

definition jat :: "json \<Rightarrow> string \<Rightarrow> json result" where
  "jat v key = (case v of
     JObject kvs \<Rightarrow> (case map_of kvs key of Some x \<Rightarrow> Inr x | None \<Rightarrow> Inl (JsonOutOfRange key))
   | _ \<Rightarrow> Inl (JsonTypeError ''cannot use at()''))"

definition jindex :: "json \<Rightarrow> nat \<Rightarrow> json result" where
  "jindex v i = (case v of
     JArray vs \<Rightarrow> if i < length vs then Inr (vs ! i) else Inl (JsonOutOfRange ''array index'')
   | _ \<Rightarrow> Inl (JsonTypeError ''cannot use at()''))"

definition jstring :: "json \<Rightarrow> string result" where
  "jstring v = (case v of JString s \<Rightarrow> Inr s | _ \<Rightarrow> Inl (JsonTypeError ''type must be string''))"

definition jbool :: "json \<Rightarrow> bool result" where
  "jbool v = (case v of JBool b \<Rightarrow> Inr b | _ \<Rightarrow> Inl (JsonTypeError ''type must be boolean''))"

text \<open>Numbers are converted to the width of the variable; a Boolean counts as a number.\<close>

definition jnumber :: "json \<Rightarrow> int result" where
  "jnumber v = (case v of
     JInt i \<Rightarrow> Inr i
   | JBool b \<Rightarrow> Inr (if b then 1 else 0)
   | _ \<Rightarrow> Inl (JsonTypeError ''type must be number''))"

fun jstrings :: "json list \<Rightarrow> string list result" where
  "jstrings [] = Inr []"
| "jstrings (v # vs) = rbind (jstring v) (\<lambda>s. rmap (Cons s) (jstrings vs))"

text \<open>A set of strings from an array.\<close>

definition jstring_set :: "json \<Rightarrow> string list result" where
  "jstring_set v = (case v of JArray vs \<Rightarrow> jstrings vs | _ \<Rightarrow> Inl (JsonTypeError ''type must be array''))"

text \<open>\<open>items()\<close>: the values of an object in the order of its keys, or of an array in order.\<close>

definition jitems :: "json \<Rightarrow> json list" where
  "jitems v = (case v of
     JObject kvs \<Rightarrow> map snd kvs
   | JArray vs \<Rightarrow> vs
   | JNull \<Rightarrow> []
   | _ \<Rightarrow> [v])"

lemma jat_find: "jfind v key = Some x \<longleftrightarrow> jat v key = Inr x"
  by (auto simp: jfind_def jat_def split: json.splits option.splits)

end
