(* ===== verification/Util_Misc.thy ===== *)
theory Util_Misc
  imports Util_Strings Json_Value
begin

text \<open>
  Small utilities: the scope guard \<open>Defer\<close> (\<open>src/include/util/Defer.h\<close>), the comparison of weak
  pointers (\<open>WeakCompare.h\<close>), \<open>hex\<close> (\<open>Util.h\<close>), the memory counters (\<open>src/src/util/Usage.cpp\<close>), the
  data every template gets (\<open>Templates.cpp\<close>), \<open>sha1\<close> (\<open>SHA1.cpp\<close>) and the lines of the log (\<open>Log.h\<close>).

  The text of \<open>/proc/self/stat\<close>, the formatting of the time, the template engine and the hash are
  parameters.
\<close>

section \<open>Scope guard\<close>

text \<open>A guard holds the function to run at the end of its scope, or none; the function acts on the program's state.\<close>

type_synonym 's deferred = "('s \<Rightarrow> 's) option"

definition defer_release :: "'s deferred \<Rightarrow> 's deferred" where
  "defer_release d = None"

definition defer_assign :: "('s \<Rightarrow> 's) \<Rightarrow> 's deferred \<Rightarrow> 's deferred" where
  "defer_assign f d = Some f"

definition defer_end :: "'s deferred \<Rightarrow> 's \<Rightarrow> 's" where
  "defer_end d s = (case d of None \<Rightarrow> s | Some f \<Rightarrow> f s)"

lemma defer_end_simps [simp]: "defer_end None s = s" "defer_end (Some f) s = f s"
  "defer_end (defer_release d) s = s" "defer_end (defer_assign f d) s = f s"
  by (simp_all add: defer_end_def defer_release_def defer_assign_def)

section \<open>Comparing weak pointers\<close>

text \<open>
  A weak pointer is the object it was made from; \<open>alive\<close> tells which objects still exist, with
  their addresses.
\<close>

type_synonym 'o lifetimes = "'o \<rightharpoonup> nat"

definition WeakCompare :: "'o lifetimes \<Rightarrow> 'o \<Rightarrow> 'o \<Rightarrow> bool" where
  "WeakCompare alive left right =
     (case (alive left, alive right) of
        (_, None) \<Rightarrow> False
      | (None, Some _) \<Rightarrow> True
      | (Some l, Some r) \<Rightarrow> l < r)"

text \<open>At any one moment it is a strict weak order, in which expired pointers come first and are equivalent.\<close>

lemma WeakCompare_strict_weak:
  "\<not> WeakCompare alive a a"
  "WeakCompare alive a b \<Longrightarrow> WeakCompare alive b c \<Longrightarrow> WeakCompare alive a c"
  "\<lbrakk>\<not> WeakCompare alive a b; \<not> WeakCompare alive b a; \<not> WeakCompare alive b c; \<not> WeakCompare alive c b\<rbrakk>
     \<Longrightarrow> \<not> WeakCompare alive a c"
  by (auto simp: WeakCompare_def split: option.splits)

text \<open>The order of two pointers changes when one expires, so a set sorted by it does not stay sorted.\<close>

lemma WeakCompare_unstable:
  assumes "alive a = Some l" "alive b = Some r" "l < r"
  shows "WeakCompare alive a b \<and> WeakCompare (alive(b := None)) b a"
  using assms by (auto simp: WeakCompare_def)

section \<open>Hexadecimal numbers\<close>

fun hex_digits :: "nat \<Rightarrow> string" where
  "hex_digits n = (if n < 16 then [nibble_char n] else hex_digits (n div 16) @ [nibble_char (n mod 16)])"

declare hex_digits.simps [simp del]

definition hex :: "nat \<Rightarrow> string" where
  "hex n = (let out = hex_digits n in if length out = 1 then CHR ''0'' # out else out)"

text \<open>On a byte it gives two digits; it is what \<open>charHex\<close> gives.\<close>

lemma hex_byte: "n < 256 \<Longrightarrow> hex n = charHex (char_of n)"
proof -
  assume n: "n < 256"
  show ?thesis
  proof (cases "n < 16")
    case True
    moreover have "nibble_char 0 = CHR ''0''" by code_simp
    ultimately show ?thesis by (simp add: hex_def hex_digits.simps [of n] charHex_def ord_def n)
  next
    case False
    moreover from n have "n div 16 < 16" by simp
    ultimately show ?thesis using n
      by (simp add: hex_def hex_digits.simps [of n] hex_digits.simps [of "n div 16"] charHex_def ord_def)
  qed
qed

section \<open>Memory counters\<close>

text \<open>An input stream: what is left to read, and whether an extraction has failed; then all later ones do nothing.\<close>

record istream =
  in_rest :: string
  in_fail :: bool

definition read_word :: "istream \<Rightarrow> istream" where
  "read_word is =
     (let rest = dropWhile c_isspace (in_rest is) in
      if in_fail is then is
      else if rest = [] then is\<lparr>in_rest := [], in_fail := True\<rparr>
      else is\<lparr>in_rest := dropWhile (\<lambda>c. \<not> c_isspace c) rest\<rparr>)"

definition read_size :: "nat \<Rightarrow> istream \<Rightarrow> nat \<times> istream" where
  "read_size old is =
     (let rest = dropWhile c_isspace (in_rest is) in
      if in_fail is then (old, is)
      else if rest = [] then (old, is\<lparr>in_rest := [], in_fail := True\<rparr>)
      else case strto_scan rest of ((neg, v), rest') \<Rightarrow>
        (clamp_ulong neg v, is\<lparr>in_rest := rest', in_fail := (rest' = rest \<or> 2 ^ 64 \<le> v)\<rparr>))"

text \<open>The Linux branch; \<open>None\<close> is a file that cannot be opened.  Streams do not throw, so the answer is always \<open>true\<close>.\<close>

definition getMemoryUsage :: "string option \<Rightarrow> nat \<Rightarrow> nat \<Rightarrow> nat \<times> nat \<times> bool" where
  "getMemoryUsage stat virtual_memory resident_memory =
     (let is = (case stat of None \<Rightarrow> \<lparr>in_rest = [], in_fail = True\<rparr> | Some s \<Rightarrow> \<lparr>in_rest = s, in_fail = False\<rparr>);
          is = (read_word ^^ 22) is;
          (virtual_memory, is) = read_size virtual_memory is;
          (resident_memory, is) = read_size resident_memory is
      in (virtual_memory, resident_memory, True))"

definition word_ok :: "string \<Rightarrow> bool" where
  "word_ok w \<longleftrightarrow> w \<noteq> [] \<and> list_all (\<lambda>c. \<not> c_isspace c) w"

text \<open>Words, each after a blank.\<close>

definition spaced :: "string list \<Rightarrow> string" where
  "spaced ws = concat (map (\<lambda>w. CHR '' '' # w) ws)"

lemma blank_isspace [simp]: "c_isspace (CHR '' '')"
  by code_simp

lemma dropWhile_word:
  "word_ok w \<Longrightarrow> dropWhile c_isspace (w @ s) = w @ s"
  "list_all (\<lambda>c. \<not> c_isspace c) w \<Longrightarrow> dropWhile (\<lambda>c. \<not> c_isspace c) (w @ spaced ws) = spaced ws"
proof -
  show "word_ok w \<Longrightarrow> dropWhile c_isspace (w @ s) = w @ s" by (cases w) (simp_all add: word_ok_def)
  show "list_all (\<lambda>c. \<not> c_isspace c) w \<Longrightarrow> dropWhile (\<lambda>c. \<not> c_isspace c) (w @ spaced ws) = spaced ws"
    by (induction w) (cases ws; simp add: spaced_def)+
qed

lemma read_words:
  assumes "list_all word_ok ws"
  shows "(read_word ^^ length ws) \<lparr>in_rest = spaced (ws @ vs), in_fail = False\<rparr> = \<lparr>in_rest = spaced vs, in_fail = False\<rparr>"
  using assms
proof (induction ws)
  case (Cons w ws)
  then have w: "word_ok w" "list_all (\<lambda>c. \<not> c_isspace c) w" by (simp_all add: word_ok_def)
  have "read_word \<lparr>in_rest = spaced ((w # ws) @ vs), in_fail = False\<rparr> = \<lparr>in_rest = spaced (ws @ vs), in_fail = False\<rparr>"
    using w dropWhile_word(1) [OF w(1), of "spaced (ws @ vs)"] dropWhile_word(2) [OF w(2), of "ws @ vs"]
    by (simp add: read_word_def Let_def spaced_def word_ok_def)
  with Cons show ?case by (simp add: funpow_swap1)
qed simp

lemma read_size_number:
  assumes "n < 2 ^ 64"
  shows "read_size old \<lparr>in_rest = spaced (to_string_nat n # ws), in_fail = False\<rparr> = (n, \<lparr>in_rest = spaced ws, in_fail = False\<rparr>)"
proof -
  note digits = to_string_nat_digits [of n]
  obtain d ds where n: "to_string_nat n = d # ds" using digits by (cases "to_string_nat n") auto
  have d: "isNumericChar d" using digits n by simp
  then have "\<not> c_isspace d" "d \<noteq> CHR ''-''" "d \<noteq> CHR ''+''"
    by (auto simp: isNumericChar_def c_isspace_def ord_def)
  moreover have "takeWhile isNumericChar (to_string_nat n @ spaced ws) = to_string_nat n"
    using digits by (cases ws) (simp_all add: takeWhile_append2 list_all_iff spaced_def isNumericChar_def ord_def)
  ultimately show ?thesis
    using assms digits_value_to_string_nat [of n]
    by (simp add: read_size_def Let_def strto_scan_def sign_split_def spaced_def n clamp_ulong_def)
qed

text \<open>
  The counters are fields 23 and 24 of the file, provided no earlier field contains a blank (the
  second is the name of the program in parentheses).
\<close>

lemma getMemoryUsage_fields:
  assumes "list_all word_ok ws" and "length ws = 22" and "v < 2 ^ 64" and "r < 2 ^ 64"
  shows "getMemoryUsage (Some (spaced (ws @ to_string_nat v # to_string_nat r # rest))) a b = (v, r, True)"
  using read_words [OF assms(1), of "to_string_nat v # to_string_nat r # rest"] assms(2-4)
  by (simp add: getMemoryUsage_def Let_def read_size_number)

lemma failed_words: "in_fail is \<Longrightarrow> (read_word ^^ n) is = is"
  by (induction n) (simp_all add: read_word_def Let_def)

text \<open>When the file cannot be read the caller is told that all is well, and its values are unchanged.\<close>

lemma getMemoryUsage_unreadable: "getMemoryUsage None a b = (a, b, True)"
  by (simp add: getMemoryUsage_def Let_def failed_words read_size_def)

section \<open>Templates\<close>

text \<open>\<open>json[key] = value\<close>: null becomes an object.\<close>

definition jset :: "string \<Rightarrow> json \<Rightarrow> json \<Rightarrow> json result" where
  "jset key value v =
     (case v of
        JNull \<Rightarrow> Inr (JObject [(key, value)])
      | JObject kvs \<Rightarrow> Inr (JObject (omap_put key value kvs))
      | _ \<Rightarrow> Inl (JsonTypeError ''cannot use operator[] with a string argument''))"

definition renderTemplate ::
  "(string \<Rightarrow> json \<Rightarrow> string result) \<Rightarrow> (string \<Rightarrow> string) \<Rightarrow> string option \<Rightarrow> string \<Rightarrow> json \<Rightarrow> string result" where
  "renderTemplate inja_render formatTime stat input json =
     (case getMemoryUsage stat 0 0 of (virtual_memory, resident_memory, known) \<Rightarrow>
        rbind (jset ''virtual'' (JString (if known then to_string_nat virtual_memory else ''???'')) json) (\<lambda>json.
        rbind (jset ''resident'' (JString (if known then to_string_nat resident_memory else ''???'')) json) (\<lambda>json.
        rbind (jset ''time'' (JString (formatTime ''%H:%M:%S'')) json) (\<lambda>json.
        rbind (jset ''date'' (JString (formatTime ''%B %e, %Y'')) json) (inja_render input)))))"

lemma jset_find:
  assumes "jset key value v = Inr v'"
  shows "jfind v' k = (if k = key then Some value else jfind v k)"
  using assms by (auto simp: jset_def jfind_def map_of_omap_put split: json.splits)

lemma jset_object: "jset key value (JObject kvs) = Inr (JObject (omap_put key value kvs))"
  by (simp add: jset_def)

text \<open>The engine gets the caller's data with the four entries added, which replace entries of the same name.\<close>

lemma renderTemplate_data:
  assumes "getMemoryUsage stat 0 0 = (v, r, True)"
  obtains data where "renderTemplate render formatTime stat input (JObject kvs) = render input data"
    "jfind data ''virtual'' = Some (JString (to_string_nat v))" "jfind data ''resident'' = Some (JString (to_string_nat r))"
    "jfind data ''time'' = Some (JString (formatTime ''%H:%M:%S''))"
    "\<And>k. k \<notin> {''virtual'', ''resident'', ''time'', ''date''} \<Longrightarrow> jfind data k = map_of kvs k"
proof
  let ?data = "JObject (omap_put ''date'' (JString (formatTime ''%B %e, %Y'')) (omap_put ''time'' (JString (formatTime ''%H:%M:%S''))
    (omap_put ''resident'' (JString (to_string_nat r)) (omap_put ''virtual'' (JString (to_string_nat v)) kvs))))"
  show "renderTemplate render formatTime stat input (JObject kvs) = render input ?data"
    using assms by (simp add: renderTemplate_def jset_object)
qed (simp_all add: jfind_def map_of_omap_put)

text \<open>Data that is neither an object nor null is refused before the engine is called.\<close>

lemma renderTemplate_array: "renderTemplate render formatTime stat input (JArray vs) = Inl (JsonTypeError ''cannot use operator[] with a string argument'')"
  by (simp add: renderTemplate_def jset_def split: prod.splits)

section \<open>Hashes\<close>

text \<open>The bytes OpenSSL has written into the array of \<open>SHA_DIGEST_LENGTH\<close> bytes.\<close>

definition sha1 :: "(string \<Rightarrow> byte list) \<Rightarrow> string \<Rightarrow> string" where
  "sha1 SHA1 input = map (\<lambda>b. char_of (unat b)) (take 20 (SHA1 input))"

section \<open>The log\<close>

datatype log_level = INFO | WARN | ERROR | SPAM | SUCCESS

definition ansi :: "string \<Rightarrow> string" where
  "ansi codes = CHR 0x1B # CHR ''['' # codes @ ''m''"

fun level_colour :: "log_level \<Rightarrow> string" where
  "level_colour INFO = ''34''"
| "level_colour WARN = ''33''"
| "level_colour ERROR = ''31''"
| "level_colour SPAM = ''35''"
| "level_colour SUCCESS = ''32''"

fun level_mark :: "log_level \<Rightarrow> string" where
  "level_mark INFO = ''i''"
| "level_mark WARN = ''!''"
| "level_mark ERROR = ''!''"
| "level_mark SPAM = ''_''"
| "level_mark SUCCESS = [CHR 0xF0, CHR 0x9F, CHR 0x97, CHR 0xB8]"

text \<open>Progress and success messages are dimmed as a whole, the others only up to the colons.\<close>

definition message_line :: "log_level \<Rightarrow> string \<Rightarrow> string \<Rightarrow> string" where
  "message_line level timestamp message =
     ansi ''2'' @ ''['' @ ansi ''1'' @ timestamp @ ansi ''22;2'' @ '']'' @ ansi ''22'' @ '' ('' @ ansi (''22;1;'' @ level_colour level)
     @ level_mark level @ ansi ''22;39'' @ '')'' @ ansi ''2'' @ '' ::''
     @ (if level = SPAM \<or> level = SUCCESS then '' '' @ message @ ansi ''22'' else ansi ''22'' @ '' '' @ message) @ [CHR 0x0A]"

text \<open>Nothing is lost: time, level and message can be read off a line.\<close>

lemma message_line_inj:
  assumes "length t = length t'" and "message_line l t m = message_line l' t' m'"
  shows "t = t' \<and> l = l' \<and> m = m'"
  using assms by (cases l; cases l') (simp_all add: message_line_def ansi_def)

section \<open>Exceptions with texts of the system\<close>

text \<open>\<open>NetError\<close> and \<open>ResolutionError\<close> are runtime errors whose texts come from \<open>strerror\<close> and \<open>gai_strerror\<close>.\<close>

definition NetError :: "(int \<Rightarrow> string) \<Rightarrow> string \<Rightarrow> int \<Rightarrow> exn" where
  "NetError strerror type status_code = RuntimeError (type @ '' failed: '' @ strerror status_code)"

definition NetError_code :: "(int \<Rightarrow> string) \<Rightarrow> int \<Rightarrow> exn" where
  "NetError_code strerror status_code = NetError strerror ''Network operation'' status_code"

definition ResolutionError :: "(int \<Rightarrow> string) \<Rightarrow> int \<Rightarrow> exn" where
  "ResolutionError gai_strerror status_code = RuntimeError (gai_strerror status_code)"

end
