(* ===== verification/Net_Read.thy ===== *)
theory Net_Read
  imports Net_Server Util_Misc
begin

text \<open>
  \<open>Server::Worker::handleRead\<close> of \<open>src/net/Server.cpp\<close>: cutting the bytes of a connection into
  messages, and the message handler \<open>src/Core.cpp\<close> installs.

  The message handler is a parameter: it gets a message and the client, and returns the client,
  whether the connection is still in the tables and whether it threw.  The read buffer of the
  descriptor and the client live in tables that \<open>remove\<close> erases; when the connection is gone while
  the loop runs, the loop goes on with freed objects, which is the outcome \<open>UsedAfterFree\<close>.
\<close>

section \<open>Model\<close>

type_synonym message_handler = "string \<Rightarrow> http_client \<Rightarrow> http_client \<times> bool \<times> unit result"

datatype read_outcome = Drained | Thrown exn | UsedAfterFree

text \<open>\<open>isMessageComplete\<close>: the index of the first newline and the size of the delimiter.\<close>

definition isMessageComplete :: "string \<Rightarrow> (nat \<times> nat) option" where
  "isMessageComplete view = map_option (\<lambda>found. (found, 1)) (find_char (CHR 0x0A) view)"

text \<open>
  The inner loop.  It returns what is left of the view after the complete lines; on an exception
  the buffer keeps everything.
\<close>

function deliver_lines ::
  "message_handler \<Rightarrow> string \<Rightarrow> http_client \<Rightarrow> http_client \<times> string \<times> read_outcome" where
  "deliver_lines handler view c =
     (case isMessageComplete view of
        None \<Rightarrow> (c, view, Drained)
      | Some (index, delimiter_size) \<Rightarrow>
          (case handler (take index view) c of
             (c', alive, Inl e) \<Rightarrow> (c', view, Thrown e)
           | (c', False, Inr _) \<Rightarrow> (c', view, UsedAfterFree)
           | (c', True, Inr _) \<Rightarrow> deliver_lines handler (drop (index + delimiter_size) view) c'))"
  by pat_completeness auto
termination
  by (relation "measure (\<lambda>(handler, view, c). length view)")
    (auto simp: isMessageComplete_def dest: find_char_Some)

declare deliver_lines.simps [simp del]

definition left_over :: "http_client \<Rightarrow> exn" where
  "left_over c = ParseError (''Text is left over in the buffer, but '' @ cl_ip c @ '' is still in line mode'')"

text \<open>
  One round of the outer loop on the bytes \<open>bytes\<close> that were just read, with the read buffer \<open>str\<close>.
\<close>

definition read_round ::
  "message_handler \<Rightarrow> string \<Rightarrow> string \<Rightarrow> http_client \<Rightarrow> http_client \<times> string \<times> read_outcome" where
  "read_round handler bytes str c =
     (if \<not> cl_lineMode c
      then (case handler bytes c of
              (c', alive, Inl e) \<Rightarrow> (c', str, Thrown e)
            | (c', False, Inr _) \<Rightarrow> (c', str, UsedAfterFree)
            | (c', True, Inr _) \<Rightarrow> (c', [], Drained))
      else if cl_maxLineSize c < length str + length bytes
      then (c, str, UsedAfterFree)
      else case deliver_lines handler (str @ bytes) c of
        (c', str', Drained) \<Rightarrow>
          (if str' = [] then (c', [], Drained)
           else if cl_lineMode c' then (c', str', Thrown (left_over c'))
           else case handler str' c' of
             (c'', alive, Inl e) \<Rightarrow> (c'', str', Thrown e)
           | (c'', False, Inr _) \<Rightarrow> (c'', str', UsedAfterFree)
           | (c'', True, Inr _) \<Rightarrow> (c'', str', Drained))
      | stop \<Rightarrow> stop)"

definition bytes_to_read :: "nat \<Rightarrow> nat \<Rightarrow> http_client \<Rightarrow> nat" where
  "bytes_to_read bufferSize readable c =
     (let to_read = min bufferSize readable; maxRead = unat (cf_maxRead (cl_flags c))
      in if 0 < maxRead then min to_read maxRead else to_read)"

definition charge_max_read :: "nat \<Rightarrow> http_client \<Rightarrow> http_client" where
  "charge_max_read byte_count c =
     (if 0 < unat (cf_maxRead (cl_flags c))
      then c\<lparr>cl_flags := (cl_flags c)\<lparr>cf_maxRead := cf_maxRead (cl_flags c) - of_nat byte_count\<rparr>\<rparr>
      else c)"

text \<open>
  The outer loop.  \<open>evbuffer_remove\<close> takes the requested bytes from the front of the input, or fails:
  \<open>broken\<close> gives the text of its error for the input that is left.  It then returns -1, which is
  subtracted from the limit too, and a \<open>NetError\<close> is thrown.  With a buffer of size 0 the loop would
  never end, so it is a partial function.
\<close>

definition reading_failed :: "string \<Rightarrow> exn" where
  "reading_failed what = NetError (\<lambda>_. what) ''Reading'' (-1)"

definition charge_failed_read :: "http_client \<Rightarrow> http_client" where
  "charge_failed_read c =
     (if 0 < unat (cf_maxRead (cl_flags c))
      then c\<lparr>cl_flags := (cl_flags c)\<lparr>cf_maxRead := cf_maxRead (cl_flags c) + 1\<rparr>\<rparr>
      else c)"

partial_function (option) read_loop ::
  "(string \<Rightarrow> string option) \<Rightarrow> message_handler \<Rightarrow> nat \<Rightarrow> string \<Rightarrow> string \<Rightarrow> http_client
   \<Rightarrow> (http_client \<times> string \<times> read_outcome) option" where
  "read_loop broken handler bufferSize input str c =
     (if input = [] then Some (c, str, Drained)
      else let to_read = bytes_to_read bufferSize (length input) c
           in case broken input of
             Some what \<Rightarrow> Some (charge_failed_read c, str, Thrown (reading_failed what))
           | None \<Rightarrow>
               (case read_round handler (take to_read input) str (charge_max_read to_read c) of
                  (c', str', Drained) \<Rightarrow> read_loop broken handler bufferSize (drop to_read input) str' c'
                | stop \<Rightarrow> Some stop))"

text \<open>
  The whole handler: no client yet means nothing is read; the exceptions that are caught end in
  \<open>remove\<close>, the others escape.
\<close>

datatype read_effect = NotReady | KeepOpen http_client string | RemoveConnection | Escapes exn | UndefinedRead

definition handleRead ::
  "(string \<Rightarrow> string option) \<Rightarrow> message_handler \<Rightarrow> nat \<Rightarrow> string \<Rightarrow> string option \<Rightarrow> http_client option \<Rightarrow> read_effect option" where
  "handleRead broken handler bufferSize input readBuffer client =
     (case client of
        None \<Rightarrow> Some NotReady
      | Some c \<Rightarrow>
          map_option
            (\<lambda>(c', str, outcome). case outcome of
               Drained \<Rightarrow> KeepOpen c' str
             | Thrown (ParseError _) \<Rightarrow> RemoveConnection
             | Thrown (RuntimeError _) \<Rightarrow> RemoveConnection
             | Thrown e \<Rightarrow> Escapes e
             | UsedAfterFree \<Rightarrow> UndefinedRead)
            (read_loop broken handler bufferSize input (case readBuffer of Some str \<Rightarrow> str | None \<Rightarrow> []) c))"

text \<open>
  The message handler of \<open>src/Core.cpp\<close>: a parse error is answered with an error page and the
  end of the connection.  The calls a client makes are returned beside the client.
\<close>

definition apology :: response where
  "apology = Response 400 ''Hey dummy, learn to send a proper HTTP request and then we can talk.'' ''text/html''"

definition core_message_handler ::
  "(string \<Rightarrow> size_t option result) \<Rightarrow> string \<Rightarrow> http_client \<Rightarrow> http_client \<times> client_call list result" where
  "core_message_handler post_max_opt message c =
     (case handleInput post_max_opt message c of
        (c', Inl (ParseError _)) \<Rightarrow> (c', Inr [Send (response_string apology), CloseSocket])
      | res \<Rightarrow> res)"

section \<open>The loop ends\<close>

lemma bytes_to_read_pos: "0 < bufferSize \<Longrightarrow> 0 < n \<Longrightarrow> 0 < bytes_to_read bufferSize n c"
  by (simp add: bytes_to_read_def Let_def)

lemma read_loop_ends:
  assumes "0 < bufferSize"
  shows "\<exists>r. read_loop broken handler bufferSize input str c = Some r"
proof (induction "length input" arbitrary: input str c rule: less_induct)
  case less
  show ?case
  proof (cases "input = []")
    case True
    then show ?thesis by (simp add: read_loop.simps)
  next
    case False
    let ?n = "bytes_to_read bufferSize (length input) c"
    obtain c' str' o' where round: "read_round handler (take ?n input) str (charge_max_read ?n c) = (c', str', o')"
      by (metis prod_cases3)
    have "length (drop ?n input) < length input"
      using False bytes_to_read_pos [OF assms, of "length input" c] by simp
    then have "\<exists>r. read_loop broken handler bufferSize (drop ?n input) str' c' = Some r" by (rule less)
    with False round show ?thesis
      by (subst read_loop.simps) (cases "broken input"; cases o'; simp add: Let_def)
  qed
qed

section \<open>Lines\<close>

text \<open>The lines of a text, without their newlines, and what follows the last newline.\<close>

function text_lines :: "string \<Rightarrow> string list \<times> string" where
  "text_lines s =
     (case find_char (CHR 0x0A) s of
        None \<Rightarrow> ([], s)
      | Some k \<Rightarrow> (case text_lines (drop (k + 1) s) of (ls, rest) \<Rightarrow> (take k s # ls, rest)))"
  by pat_completeness auto
termination
  by (relation "measure length") (auto dest: find_char_Some)

declare text_lines.simps [simp del]

lemma text_lines_join: "text_lines (concat (map (\<lambda>l. l @ [CHR 0x0A]) ls) @ rest) = (ls, rest)"
  if "list_all (\<lambda>l. CHR 0x0A \<notin> set l) ls" "CHR 0x0A \<notin> set rest"
  using that
proof (induction ls)
  case Nil
  then show ?case by (subst text_lines.simps) (simp add: find_char_None [THEN iffD2])
next
  case (Cons l ls)
  then show ?case by (subst text_lines.simps) (simp add: find_char_append)
qed

text \<open>A handler that does not fail, seen as a function on clients.\<close>

definition quiet_handler :: "(string \<Rightarrow> http_client \<Rightarrow> http_client) \<Rightarrow> message_handler" where
  "quiet_handler f m c = (f m c, True, Inr ())"

lemma deliver_lines_fold:
  "deliver_lines (quiet_handler f) s c = (fold f (fst (text_lines s)) c, snd (text_lines s), Drained)"
proof (induction s arbitrary: c rule: text_lines.induct)
  case (1 s)
  show ?case
  proof (cases "find_char (CHR 0x0A) s")
    case None
    then show ?thesis
      by (subst deliver_lines.simps, subst (1 2) text_lines.simps) (simp add: isMessageComplete_def)
  next
    case (Some k)
    have "quiet_handler f (take k s) c = (f (take k s) c, True, Inr ())" by (simp add: quiet_handler_def)
    with 1 [OF Some] Some show ?thesis
      by (subst deliver_lines.simps, subst (1 2) text_lines.simps)
        (simp add: isMessageComplete_def case_prod_unfold)
  qed
qed



text \<open>A line that exceeds the limit always ends in the use of freed objects.\<close>

lemma max_line_size_use_after_free:
  assumes "cl_lineMode c" and "cl_maxLineSize c < length str + length bytes"
  shows "read_round handler bytes str c = (c, str, UsedAfterFree)"
  using assms by (simp add: read_round_def)

end
