(* ===== verification/Fs_Util.thy ===== *)
theory Fs_Util
  imports Util_Strings
begin

text \<open>
  \<open>src/util/FS.cpp\<close> and the part of \<open>std::filesystem\<close> the sources use.

  An absolute path is the list of its elements after the root directory; a trailing separator
  is a final empty element, as in the standard's iteration over a path (\<open>/a/b/\<close> is
  \<open>[a, b, \<epsilon>]\<close>, \<open>/\<close> is the empty list).  Two paths are equal when these lists are.  The file system
  itself is a record of what a query answers; nothing in the modelled code writes to it.
\<close>

section \<open>Paths\<close>

type_synonym path = "string list"

text \<open>The elements of a relative path text: empty names are dropped, except a last one.\<close>

fun path_names :: "string \<Rightarrow> string \<Rightarrow> string list" where
  "path_names name [] = [name]"
| "path_names name (c # cs) =
     (if c = CHR ''/'' then (if name = [] then path_names [] cs else name # path_names [] cs)
      else path_names (name @ [c]) cs)"

definition drop_separator :: "path \<Rightarrow> path" where
  "drop_separator p = (if p \<noteq> [] \<and> last p = [] then butlast p else p)"

text \<open>\<open>base / relative\<close>.\<close>

definition path_append :: "path \<Rightarrow> string \<Rightarrow> path" where
  "path_append base relative =
     (if base = [] \<and> path_names [] relative = [[]] then []
      else drop_separator base @ path_names [] relative)"

text \<open>
  \<open>lexically_normal\<close> of an absolute path: dots go, a name followed by a dot-dot goes with it,
  dot-dots at the root go; what ended in a dot, a dot-dot or a separator ends in a separator.
\<close>

definition trail :: "path \<Rightarrow> path" where
  "trail p = (if p = [] then [] else p @ [[]])"

fun normal_loop :: "path \<Rightarrow> string list \<Rightarrow> path" where
  "normal_loop done' [] = done'"
| "normal_loop done' (e # es) =
     (if e = [] \<or> e = ''.'' then (if es = [] then trail done' else normal_loop done' es)
      else if e = ''..''
      then (if es = [] then trail (butlast done') else normal_loop (butlast done') es)
      else normal_loop (done' @ [e]) es)"

definition lexically_normal :: "path \<Rightarrow> path" where
  "lexically_normal p = normal_loop [] p"

definition parent_path :: "path \<Rightarrow> path" where
  "parent_path p = butlast p"

definition filename :: "path \<Rightarrow> string" where
  "filename p = (if p = [] then [] else last p)"

text \<open>
  \<open>extension\<close> and \<open>stem\<close>: split at the last dot of the file name, unless the name is dot or
  dot-dot or that dot is its first character.
\<close>

definition dot_split :: "string \<Rightarrow> (string \<times> string)" where
  "dot_split name =
     (if name = ''.'' \<or> name = ''..'' then (name, [])
      else case findLast name ''.'' of
        None \<Rightarrow> (name, [])
      | Some 0 \<Rightarrow> (name, [])
      | Some k \<Rightarrow> (take k name, drop k name))"

definition extension :: "path \<Rightarrow> string" where
  "extension p = snd (dot_split (filename p))"

definition stem :: "path \<Rightarrow> string" where
  "stem p = fst (dot_split (filename p))"

section \<open>The file system\<close>

record file_perms =
  owner_exec :: bool
  group_exec :: bool
  others_exec :: bool

record filesystem =
  fs_is_directory :: "path \<Rightarrow> bool"
  fs_content :: "path \<Rightarrow> string option"
  fs_openable :: "path \<Rightarrow> bool"
  fs_last_write :: "path \<Rightarrow> int"
  fs_perms :: "path \<Rightarrow> file_perms"
  fs_owner :: "path \<Rightarrow> nat"
  fs_group :: "path \<Rightarrow> nat"
  fs_stat_errno :: "path \<Rightarrow> int option"

abbreviation is_regular_file :: "filesystem \<Rightarrow> path \<Rightarrow> bool" where
  "is_regular_file fs p \<equiv> fs_content fs p \<noteq> None"

text \<open>The user database: primary group and name of a user, members of a group.\<close>

record user_db =
  db_uid :: nat
  db_passwd :: "nat \<Rightarrow> (nat \<times> string) option"
  db_members :: "nat \<Rightarrow> string list option"

section \<open>Operations\<close>

function isSubpath_loop :: "path \<Rightarrow> path \<Rightarrow> bool" where
  "isSubpath_loop base to_check =
     (if to_check = [] then False
      else if to_check = base then True
      else isSubpath_loop base (parent_path to_check))"
  by pat_completeness auto
termination
  by (relation "measure (\<lambda>(base, to_check). length to_check)") (auto simp: parent_path_def)

declare isSubpath_loop.simps [simp del]

definition isSubpath :: "path \<Rightarrow> path \<Rightarrow> bool" where
  "isSubpath base to_check = (base = to_check \<or> isSubpath_loop base to_check)"

definition readFile :: "filesystem \<Rightarrow> path \<Rightarrow> string result" where
  "readFile fs p =
     (case fs_content fs p of
        Some s \<Rightarrow> if fs_openable fs p then Inr s else Inl (RuntimeError ''ios_base::failure'')
      | None \<Rightarrow> Inl (RuntimeError ''ios_base::failure''))"

text \<open>The ranged overload: what lies past the end of the file was never written to the buffer.\<close>

definition readFile_range :: "filesystem \<Rightarrow> path \<Rightarrow> nat \<Rightarrow> nat \<Rightarrow> string result" where
  "readFile_range fs p offset byte_count =
     rbind (readFile fs p) (\<lambda>s.
       if offset + byte_count \<le> length s then Inr (take byte_count (drop offset s))
       else Inl (UndefinedBehaviour ''readFile: uninitialised bytes''))"

definition inGroup :: "user_db \<Rightarrow> nat \<Rightarrow> nat \<Rightarrow> bool result" where
  "inGroup db uid gid =
     (case db_passwd db uid of
        None \<Rightarrow> Inl (RuntimeError (''uid not found: '' @ to_string_nat uid))
      | Some (pw_gid, pw_name) \<Rightarrow>
          (if pw_gid = gid then Inr True
           else case db_members db gid of
             None \<Rightarrow> Inl (RuntimeError (''gid not found: '' @ to_string_nat uid))
           | Some members \<Rightarrow> Inr (pw_name \<in> set members)))"

text \<open>What \<open>stat\<close> says of a file, as far as it is used: its owner and its group.\<close>

definition getInfo :: "filesystem \<Rightarrow> path \<Rightarrow> (nat \<times> nat) result" where
  "getInfo fs p =
     (case fs_stat_errno fs p of
        Some errno \<Rightarrow> Inl (RuntimeError (''stat failed: '' @ to_string_int errno))
      | None \<Rightarrow> Inr (fs_owner fs p, fs_group fs p))"

definition info_selfOwns :: "user_db \<Rightarrow> nat \<times> nat \<Rightarrow> bool" where
  "info_selfOwns db info \<longleftrightarrow> fst info = db_uid db"

definition info_groupOwns :: "user_db \<Rightarrow> nat \<times> nat \<Rightarrow> bool result" where
  "info_groupOwns db info = inGroup db (db_uid db) (snd info)"

definition selfOwns :: "user_db \<Rightarrow> filesystem \<Rightarrow> path \<Rightarrow> bool result" where
  "selfOwns db fs p = rmap (info_selfOwns db) (getInfo fs p)"

definition groupOwns :: "user_db \<Rightarrow> filesystem \<Rightarrow> path \<Rightarrow> bool result" where
  "groupOwns db fs p = rbind (getInfo fs p) (info_groupOwns db)"

definition canExecute :: "user_db \<Rightarrow> filesystem \<Rightarrow> path \<Rightarrow> bool result" where
  "canExecute db fs p =
     (let perms = fs_perms fs p
      in if owner_exec perms \<and> group_exec perms \<and> others_exec perms then Inr True
         else if \<not> (owner_exec perms \<or> group_exec perms \<or> others_exec perms) then Inr False
         else rbind (getInfo fs p) (\<lambda>info.
           if info_selfOwns db info then Inr (owner_exec perms)
           else rmap (\<lambda>g. if g then group_exec perms else others_exec perms) (info_groupOwns db info)))"

text \<open>The file clock counts nanoseconds; the conversion to \<open>time_t\<close> drops the fraction.\<close>

definition lastWritten :: "filesystem \<Rightarrow> path \<Rightarrow> int" where
  "lastWritten fs p = sgn (fs_last_write fs p) * (\<bar>fs_last_write fs p\<bar> div 1000000000)"

definition isNewerThan :: "filesystem \<Rightarrow> path \<Rightarrow> path \<Rightarrow> bool" where
  "isNewerThan fs check basis \<longleftrightarrow> fs_last_write fs basis < fs_last_write fs check"

section \<open>Paths, verified\<close>

text \<open>A path without dots, dot-dots and inner empty names.\<close>

definition normal :: "path \<Rightarrow> bool" where
  "normal p \<longleftrightarrow> ''.'' \<notin> set p \<and> ''..'' \<notin> set p \<and> [] \<notin> set (butlast p)"

definition plain_dir :: "path \<Rightarrow> bool" where
  "plain_dir p \<longleftrightarrow> ''.'' \<notin> set p \<and> ''..'' \<notin> set p \<and> [] \<notin> set p"

lemma plain_dir_butlast: "plain_dir p \<Longrightarrow> plain_dir (butlast p)"
  by (auto simp: plain_dir_def dest: in_set_butlastD)

lemma normal_trail: "plain_dir p \<Longrightarrow> normal (trail p)"
  by (auto simp: plain_dir_def normal_def trail_def)

lemma normal_plain_dir: "plain_dir p \<Longrightarrow> normal p"
  by (auto simp: plain_dir_def normal_def dest: in_set_butlastD)

lemma plain_dir_snoc: "plain_dir (p @ [e]) \<longleftrightarrow> plain_dir p \<and> e \<noteq> [] \<and> e \<noteq> ''.'' \<and> e \<noteq> ''..''"
  by (auto simp: plain_dir_def)

lemma normal_loop_normal: "plain_dir done' \<Longrightarrow> normal (normal_loop done' es)"
  by (induction done' es rule: normal_loop.induct)
    (auto simp: normal_trail normal_plain_dir plain_dir_butlast plain_dir_snoc)

lemma lexically_normal_normal: "normal (lexically_normal p)"
  by (simp add: lexically_normal_def normal_loop_normal plain_dir_def)

lemma normal_loop_plain: "plain_dir es \<Longrightarrow> normal_loop done' (es @ fs) = normal_loop (done' @ es) fs"
  by (induction es arbitrary: done') (auto simp: plain_dir_def)

lemma isSubpath_loop_prefix:
  "isSubpath_loop base p \<longleftrightarrow> base \<noteq> [] \<and> (\<exists>rest. p = base @ rest)"
proof (induction p rule: rev_induct)
  case Nil
  then show ?case by (simp add: isSubpath_loop.simps)
next
  case (snoc e p)
  have "(\<exists>rest. p @ [e] = base @ rest) \<longleftrightarrow> p @ [e] = base \<or> (\<exists>rest. p = base @ rest)"
    by (metis append.assoc append_self_conv butlast_append butlast_snoc)
  with snoc show ?case by (subst isSubpath_loop.simps) (auto simp: parent_path_def)
qed

lemma isSubpath_prefix:
  "isSubpath base p \<longleftrightarrow> p = base \<or> base \<noteq> [] \<and> (\<exists>rest. p = base @ rest)"
  by (auto simp: isSubpath_def isSubpath_loop_prefix)

section \<open>Permissions and times, verified\<close>

text \<open>
  The two shortcuts of \<open>canExecute\<close> agree with the rule of the system: the bit of the first class
  that applies (owner, group, others) decides.
\<close>

lemma canExecute_class:
  assumes "getInfo fs p = Inr info" and "info_groupOwns db info = Inr g"
  shows "canExecute db fs p = Inr (if info_selfOwns db info then owner_exec (fs_perms fs p)
    else if g then group_exec (fs_perms fs p) else others_exec (fs_perms fs p))"
  using assms by (auto simp: canExecute_def Let_def)

text \<open>A file that cannot be examined is executable or not by its bits alone, if they agree; otherwise the error is thrown.\<close>

lemma canExecute_stat_fails:
  assumes "fs_stat_errno fs p = Some errno"
    and "\<not> (owner_exec (fs_perms fs p) = group_exec (fs_perms fs p) \<and> group_exec (fs_perms fs p) = others_exec (fs_perms fs p))"
  shows "canExecute db fs p = Inl (RuntimeError (''stat failed: '' @ to_string_int errno))"
  using assms by (auto simp: canExecute_def getInfo_def Let_def)

text \<open>A newer file never has an earlier date in its response.\<close>

lemma lastWritten_mono:
  assumes "isNewerThan fs p q" and "0 \<le> fs_last_write fs q"
  shows "lastWritten fs q \<le> lastWritten fs p"
  using assms by (simp add: isNewerThan_def lastWritten_def sgn_if zdiv_mono1 pos_imp_zdiv_nonneg_iff)

end
