(* ===== verification/Plugin_Host.thy ===== *)
theory Plugin_Host
  imports Fs_Util
begin

text \<open>
  \<open>src/PluginHost.cpp\<close>, \<open>src/Plugin.cpp\<close> and their headers: the list of loaded plugins and the
  chains of handlers the server runs an event through.

  A handler is a function of the event and of whether the event is still enabled; it may change
  the event (and with it the server and client it refers to) and may throw.  Handlers are held
  by weak pointers: \<^const>\<open>None\<close> is a pointer that has expired.  What the dynamic linker answers is
  a parameter, and the calls into plugins and linker are kept as a log.
\<close>

section \<open>Handler chains\<close>

datatype cancelable_result = Pass | Kill | Disable | Enable | Approve

datatype handler_result = PassResult | KillResult

type_synonym 'obj handler = "'obj \<Rightarrow> bool \<Rightarrow> 'obj \<times> cancelable_result result"

fun beforeMulti ::
  "'obj \<Rightarrow> 'obj handler option list \<Rightarrow> bool \<Rightarrow> 'obj \<times> (bool \<times> handler_result) result" where
  "beforeMulti obj [] should_pass = (obj, Inr (should_pass, PassResult))"
| "beforeMulti obj (None # funcs) should_pass = beforeMulti obj funcs should_pass"
| "beforeMulti obj (Some func # funcs) should_pass =
     (case func obj should_pass of
        (obj', Inl e) \<Rightarrow> (obj', Inl e)
      | (obj', Inr res) \<Rightarrow>
          (let should_pass = (if res = Kill \<or> res = Disable then False
                              else if res = Approve \<or> res = Enable then True
                              else should_pass)
           in if res = Kill \<or> res = Approve then (obj', Inr (should_pass, KillResult))
              else beforeMulti obj' funcs should_pass))"

definition before :: "'obj \<Rightarrow> 'obj handler option list \<Rightarrow> 'obj \<times> bool result" where
  "before obj funcs = (case beforeMulti obj funcs True of (obj', res) \<Rightarrow> (obj', rmap fst res))"

fun after :: "'obj \<Rightarrow> ('obj \<Rightarrow> 'log list) option list \<Rightarrow> 'log list" where
  "after obj [] = []"
| "after obj (None # funcs) = after obj funcs"
| "after obj (Some func # funcs) = func obj @ after obj funcs"

text \<open>
  \<open>erase\<close> removes the first pointer that locks to the given object.  The objects the pointers
  refer to are compared by identity; an expired pointer locks to the null pointer, \<^const>\<open>None\<close>.
\<close>

fun erase :: "'p option list \<Rightarrow> 'p option \<Rightarrow> 'p option list \<times> bool" where
  "erase [] locked = ([], False)"
| "erase (p # ps) locked =
     (if p = locked then (ps, True)
      else case erase ps locked of (ps', found) \<Rightarrow> (p # ps', found))"

section \<open>Plugins\<close>

record plugin =
  pl_ref :: nat
  pl_name :: string

type_synonym plugin_tuple = "string \<times> plugin \<times> nat"

datatype host_event = Preinit plugin | Postinit plugin | Cleanup plugin | Dlclose nat

record plugin_host =
  ph_plugins :: "plugin_tuple list"
  ph_log :: "host_event list"

definition unloadPlugin :: "plugin_tuple \<Rightarrow> plugin_host \<Rightarrow> plugin_host \<times> unit result" where
  "unloadPlugin tuple host =
     (if tuple \<notin> set (ph_plugins host)
      then (host, Inl (RuntimeError (''Couldn'' @ [CHR 0x27] @ ''t find plugin tuple for path '' @ fst tuple)))
      else (host\<lparr>ph_plugins := remove1 tuple (ph_plugins host),
                 ph_log := ph_log host @ [Cleanup (fst (snd tuple)), Dlclose (snd (snd tuple))]\<rparr>, Inr ()))"

function unloadPlugins :: "plugin_host \<Rightarrow> plugin_host" where
  "unloadPlugins host =
     (case ph_plugins host of
        [] \<Rightarrow> host
      | tuple # _ \<Rightarrow> unloadPlugins (fst (unloadPlugin tuple host)))"
  by pat_completeness auto
termination
  by (relation "measure (\<lambda>host. length (ph_plugins host))") (auto simp: unloadPlugin_def)

declare unloadPlugins.simps [simp del]

text \<open>The dynamic linker and \<open>std::filesystem\<close> as \<open>loadPlugin\<close> uses them.\<close>

record linker =
  ln_canonical :: "string \<Rightarrow> string result"
  ln_exists :: "string \<Rightarrow> bool"
  ln_dlopen :: "string \<Rightarrow> nat option"
  ln_dlerror :: string
  ln_make_plugin :: "nat \<Rightarrow> plugin option"

definition loadPlugin :: "linker \<Rightarrow> string \<Rightarrow> plugin_host \<Rightarrow> plugin_host \<times> plugin_tuple result" where
  "loadPlugin ln p host =
     (case ln_canonical ln p of
        Inl e \<Rightarrow> (host, Inl e)
      | Inr canonical \<Rightarrow>
          (if \<not> ln_exists ln canonical then (host, Inl (RuntimeError ''No plugin found at path''))
           else case ln_dlopen ln canonical of
             None \<Rightarrow> (host, Inl (RuntimeError (''dlopen returned nullptr. '' @ ln_dlerror ln)))
           | Some lib \<Rightarrow>
               (case ln_make_plugin ln lib of
                  None \<Rightarrow> (host, Inl (RuntimeError ''Plugin creation function is null''))
                | Some pl \<Rightarrow>
                    (let tuple = (canonical, pl, lib)
                     in (host\<lparr>ph_plugins := ph_plugins host @ [tuple]\<rparr>, Inr tuple)))))"

text \<open>A directory as its iterator yields it.\<close>

datatype dir_entry = FileEntry path string | DirEntry "dir_entry list"

fun loadPlugins :: "linker \<Rightarrow> dir_entry list \<Rightarrow> plugin_host \<Rightarrow> plugin_host \<times> unit result" where
  "loadPlugins ln [] host = (host, Inr ())"
| "loadPlugins ln (DirEntry entries # rest) host =
     (case loadPlugins ln entries host of
        (host', Inl e) \<Rightarrow> (host', Inl e)
      | (host', Inr _) \<Rightarrow> loadPlugins ln rest host')"
| "loadPlugins ln (FileEntry p txt # rest) host =
     (if extension p = ''.so'' \<or> extension p = ''.dylib''
      then (case loadPlugin ln txt host of
              (host', Inl e) \<Rightarrow> (host', Inl e)
            | (host', Inr _) \<Rightarrow> loadPlugins ln rest host')
      else loadPlugins ln rest host)"

definition getPlugin :: "string \<Rightarrow> bool \<Rightarrow> plugin_host \<Rightarrow> plugin_tuple option" where
  "getPlugin name insensitive host =
     (if insensitive
      then find (\<lambda>(p, pl, h). p = name \<or> toLower (pl_name pl) = toLower name) (ph_plugins host)
      else find (\<lambda>(p, pl, h). p = name \<or> pl_name pl = name) (ph_plugins host))"

definition getPlugin_of :: "nat \<Rightarrow> plugin_host \<Rightarrow> plugin_tuple option" where
  "getPlugin_of ref host = find (\<lambda>(p, pl, h). pl_ref pl = ref) (ph_plugins host)"

definition hasPlugin_path :: "linker \<Rightarrow> string \<Rightarrow> plugin_host \<Rightarrow> bool result" where
  "hasPlugin_path ln p host =
     rmap (\<lambda>canonical. find (\<lambda>(q, pl, h). canonical = q) (ph_plugins host) \<noteq> None) (ln_canonical ln p)"

definition hasPlugin :: "string \<Rightarrow> bool \<Rightarrow> plugin_host \<Rightarrow> bool" where
  "hasPlugin name insensitive host =
     (if insensitive then find (\<lambda>(p, pl, h). toLower (pl_name pl) = toLower name) (ph_plugins host) \<noteq> None
      else find (\<lambda>(p, pl, h). pl_name pl = name) (ph_plugins host) \<noteq> None)"

definition preinitPlugins :: "plugin_host \<Rightarrow> plugin_host" where
  "preinitPlugins host = host\<lparr>ph_log := ph_log host @ map (\<lambda>(p, pl, h). Preinit pl) (ph_plugins host)\<rparr>"

definition postinitPlugins :: "plugin_host \<Rightarrow> plugin_host" where
  "postinitPlugins host = host\<lparr>ph_log := ph_log host @ map (\<lambda>(p, pl, h). Postinit pl) (ph_plugins host)\<rparr>"

definition pluginForPath :: "string \<Rightarrow> plugin_host \<Rightarrow> plugin option" where
  "pluginForPath p host = map_option (\<lambda>(q, pl, h). pl) (find (\<lambda>(q, pl, h). q = p) (ph_plugins host))"

text \<open>\<open>Plugin::unload\<close>, for a plugin whose \<open>parent\<close> is the given host or null.\<close>

definition plugin_unload :: "nat \<Rightarrow> plugin_host option \<Rightarrow> plugin_host option \<times> bool result" where
  "plugin_unload this parent =
     (case parent of
        None \<Rightarrow> (None, Inl (RuntimeError ''Plugin host is null''))
      | Some host \<Rightarrow>
          (case getPlugin_of this host of
             None \<Rightarrow> (Some host, Inr False)
           | Some tuple \<Rightarrow>
               (case unloadPlugin tuple host of
                  (host', Inl e) \<Rightarrow> (Some host', Inl e)
                | (host', Inr _) \<Rightarrow> (Some host', Inr True))))"

section \<open>Chains, verified\<close>

text \<open>
  The reference semantics: the handlers that are still alive run in order up to the first that
  answers \<open>Kill\<close> or \<open>Approve\<close>; the verdict is that of the last answer that was not \<open>Pass\<close>.
\<close>

definition stops :: "cancelable_result \<Rightarrow> bool" where
  "stops res \<longleftrightarrow> res = Kill \<or> res = Approve"

definition verdict :: "bool \<Rightarrow> cancelable_result list \<Rightarrow> bool" where
  "verdict initial answers =
     (case filter (\<lambda>a. a \<noteq> Pass) answers of
        [] \<Rightarrow> initial
      | as \<Rightarrow> last as \<in> {Approve, Enable})"

lemma verdict_Cons:
  "verdict initial (a # as) = verdict (if a = Kill \<or> a = Disable then False
     else if a = Approve \<or> a = Enable then True else initial) as"
  by (cases a) (auto simp: verdict_def split: list.splits)

definition constant_handlers :: "cancelable_result option list \<Rightarrow> 'obj handler option list" where
  "constant_handlers answers = map (map_option (\<lambda>a obj b. (obj, Inr a))) answers"

definition prefix_to_stop :: "cancelable_result list \<Rightarrow> cancelable_result list" where
  "prefix_to_stop as = takeWhile (\<lambda>a. \<not> stops a) as @ take 1 (dropWhile (\<lambda>a. \<not> stops a) as)"

lemma prefix_to_stop_Cons: "prefix_to_stop (a # as) = (if stops a then [a] else a # prefix_to_stop as)"
  by (simp add: prefix_to_stop_def)

lemma beforeMulti_answers:
  "beforeMulti obj (constant_handlers answers) b =
     (obj, Inr (verdict b (prefix_to_stop (List.map_filter id answers)),
        if \<exists>a \<in> set (List.map_filter id answers). stops a then KillResult else PassResult))"
proof (induction answers arbitrary: b)
  case Nil
  then show ?case by (simp add: constant_handlers_def List.map_filter_def prefix_to_stop_def verdict_def)
next
  case (Cons a answers)
  show ?case
  proof (cases a)
    case None
    with Cons show ?thesis by (simp add: constant_handlers_def List.map_filter_def)
  next
    case (Some res)
    with Cons show ?thesis
      by (cases res)
        (simp_all add: constant_handlers_def List.map_filter_def prefix_to_stop_Cons verdict_Cons
          stops_def verdict_def [of _ "[]"])
  qed
qed

text \<open>A handler after one that stops the chain is never called.\<close>

lemma beforeMulti_stop:
  assumes "list_all (\<lambda>f. case f of None \<Rightarrow> True | Some g \<Rightarrow> \<forall>obj b. \<exists>obj' a. g obj b = (obj', Inr a) \<and> \<not> stops a) fs"
    and "\<forall>obj b. \<exists>obj' a. f obj b = (obj', Inr a) \<and> stops a"
  shows "beforeMulti obj (fs @ Some f # later) b = beforeMulti obj (fs @ [Some f]) b"
  using assms
proof (induction fs arbitrary: obj b)
  case Nil
  then obtain obj' a where "f obj b = (obj', Inr a)" "stops a" by blast
  then show ?case by (simp add: stops_def)
next
  case (Cons g fs)
  then show ?case
    by (cases g) (auto simp: stops_def split: prod.splits sum.splits)
qed

text \<open>
  Handler chains: for handlers with given answers (some of them already gone), the chain
  runs up to the first \<open>Kill\<close> or \<open>Approve\<close>, reports \<open>Kill\<close> to its caller exactly when there is
  one, and decides whether the event goes through by the last answer other than \<open>Pass\<close> among
  those that ran; expired handlers count for nothing; and what stands behind a handler that
  always stops the chain never runs, whatever it is.
\<close>

lemma beforeMulti_correct:
  assumes "\<forall>o' b. \<exists>obj' a. f o' b = (obj', Inr a) \<and> stops a"
  shows "beforeMulti obj (constant_handlers answers) b =
     (obj, Inr (verdict b (prefix_to_stop (List.map_filter id answers)),
        if \<exists>a \<in> set (List.map_filter id answers). stops a then KillResult else PassResult))
   \<and> (list_all (\<lambda>f. case f of None \<Rightarrow> True | Some g \<Rightarrow> \<forall>o' b. \<exists>obj' a. g o' b = (obj', Inr a) \<and> \<not> stops a) fs
      \<longrightarrow> beforeMulti obj (fs @ Some f # later) b = beforeMulti obj (fs @ [Some f]) b)"
  using beforeMulti_answers [of obj answers b] beforeMulti_stop [OF _ assms] by blast

lemma beforeMulti_correct_example:
  "beforeMulti (0 :: nat) (constant_handlers [Some Disable, None, Some Pass, Some Approve, Some Kill]) True
     = (0, Inr (True, KillResult))
   \<and> beforeMulti (0 :: nat) ([None] @ Some (\<lambda>n b. (n + 1, Inr Kill)) # [Some (\<lambda>n b. (n + 10, Inr Pass))]) True
     = (1, Inr (False, KillResult))"
  using beforeMulti_correct [of "\<lambda>n b. (n + 1, Inr Kill)" 0 "[Some Disable, None, Some Pass, Some Approve, Some Kill]" True
      "[None]" "[Some (\<lambda>n b. (n + 10, Inr Pass))]"]
  by (simp add: stops_def verdict_def prefix_to_stop_def List.map_filter_def)

lemma erase_found: "snd (erase ps locked) \<longleftrightarrow> locked \<in> set ps"
  by (induction ps locked rule: erase.induct) (auto split: prod.splits)

lemma erase_remove1: "fst (erase ps locked) = remove1 locked ps"
  by (induction ps locked rule: erase.induct) (auto split: prod.splits)

section \<open>The plugin list, verified\<close>

lemma unloadPlugins_log:
  "ph_plugins (unloadPlugins host) = []
   \<and> ph_log (unloadPlugins host) =
       ph_log host @ concat (map (\<lambda>(p, pl, h). [Cleanup pl, Dlclose h]) (ph_plugins host))"
proof (induction host rule: unloadPlugins.induct)
  case (1 host)
  show ?case
  proof (cases "ph_plugins host")
    case Nil
    then show ?thesis by (simp add: unloadPlugins.simps)
  next
    case (Cons t ts)
    obtain p pl h where "t = (p, pl, h)" by (cases t)
    with 1 Cons show ?thesis by (subst (1 2) unloadPlugins.simps) (simp add: unloadPlugin_def)
  qed
qed

text \<open>
  (C27) Life cycle of plugins: a plugin that loads is found again by its canonical path and is
  the last of the list; a failed load changes nothing; unloading everything ends, leaves no
  plugin behind and calls each plugin's \<open>cleanup\<close> before its library is closed, in loading
  order; unloading one that is not there is an error without effect.
\<close>

theorem plugin_life_cycle:
  "(case loadPlugin ln p host of
      (host', Inr (canonical, pl, lib)) \<Rightarrow>
        ph_plugins host' = ph_plugins host @ [(canonical, pl, lib)]
        \<and> pluginForPath canonical host' \<noteq> None \<and> ln_canonical ln p = Inr canonical
        \<and> hasPlugin_path ln p host' = Inr True
    | (host', Inl e) \<Rightarrow> host' = host)
   \<and> ph_plugins (unloadPlugins host) = []
   \<and> ph_log (unloadPlugins host) =
       ph_log host @ concat (map (\<lambda>(p, pl, h). [Cleanup pl, Dlclose h]) (ph_plugins host))
   \<and> (tuple \<notin> set (ph_plugins host) \<longrightarrow> fst (unloadPlugin tuple host) = host \<and> isl (snd (unloadPlugin tuple host)))"
proof -
  have found: "\<exists>a b c. find P (xs @ [x]) = Some (a, b, c)" if "P x" for P and x :: plugin_tuple and xs
  proof -
    have "find P (xs @ [x]) \<noteq> None" using that by (cases x) (auto simp: find_None_iff)
    then show ?thesis by (metis not_None_eq prod_cases3)
  qed
  show ?thesis
    using unloadPlugins_log [of host]
    by (auto simp: loadPlugin_def pluginForPath_def hasPlugin_path_def unloadPlugin_def Let_def found
        split: sum.splits option.splits)
qed

theorem plugin_life_cycle_witness:
  "isl (snd (unloadPlugin (''x'', \<lparr>pl_ref = 0, pl_name = ''n''\<rparr>, 0) \<lparr>ph_plugins = [], ph_log = []\<rparr>))"
  using plugin_life_cycle [where tuple = "(''x'', \<lparr>pl_ref = 0, pl_name = ''n''\<rparr>, 0)"
      and host = "\<lparr>ph_plugins = [], ph_log = []\<rparr>"]
  by auto

end
