(* ===== verification/Http_Server.thy ===== *)
theory Http_Server
  imports Plugin_Host Http_Client
begin

text \<open>
  \<open>src/http/Server.cpp\<close> and \<open>include/http/Server.h\<close>: dispatching requests to the plugins'
  handlers, the WebSocket handshake, the registries of WebSocket handlers and the options of the
  \<open>.algiz\<close> files.

  An event handed to handlers carries the client, the request, the state of the plugins (the type
  variable \<open>'w\<close>) and the log of what was asked of the network layer, in order.  Option values are
  of the type variable \<open>'v\<close>; a configuration is a map from option names to them.  The SHA-1 digest
  (OpenSSL) and the JSON parser are parameters.
\<close>

section \<open>State\<close>

datatype server_call = SendTo int string | CloseClient int

record 'w handler_args =
  ha_client :: http_client
  ha_request :: request
  ha_parts :: "string list"
  ha_world :: 'w
  ha_log :: "server_call list"

record 'w ws_connection_args = "'w handler_args" +
  wa_protocols :: "string list"
  wa_acceptedProtocol :: string

record 'w ws_message_args =
  wm_client :: http_client
  wm_message :: string
  wm_world :: 'w
  wm_log :: "server_call list"

type_synonym 'w close_handler_fn = "http_client \<Rightarrow> 'w \<times> server_call list \<Rightarrow> 'w \<times> server_call list"

record ('w, 'v) http_server =
  hs_webRoot :: path
  hs_options :: "string \<rightharpoonup> 'v"
  hs_configs :: "path \<rightharpoonup> (string \<rightharpoonup> 'v)"
  hs_getHandlers :: "'w handler_args handler option list"
  hs_postHandlers :: "'w handler_args handler option list"
  hs_webSocketConnectionHandlers :: "'w ws_connection_args handler option list"
  hs_webSocketMessageHandlers :: "int \<rightharpoonup> 'w ws_message_args handler option list"
  hs_webSocketCloseHandlers :: "int \<rightharpoonup> 'w close_handler_fn option list"

section \<open>Answers\<close>

definition response_call :: "http_client \<Rightarrow> response \<Rightarrow> server_call" where
  "response_call c r = SendTo (cl_id c) (response_string r)"

definition send400 :: "http_client \<Rightarrow> server_call" where
  "send400 c = response_call c (HtmlResponse 400 ''Invalid request'')"

definition send401_realm :: "http_client \<Rightarrow> string \<Rightarrow> server_call" where
  "send401_realm c realm =
     response_call c (putHeader ''www-authenticate'' (''Basic realm='' @ [CHR 0x22] @ escapeQuotes realm @ [CHR 0x22])
       (HtmlResponse 401 ''Unauthorized''))"

definition send401 :: "http_client \<Rightarrow> server_call" where
  "send401 c = response_call c (HtmlResponse 401 ''Unauthorized'')"

definition send403 :: "http_client \<Rightarrow> server_call" where
  "send403 c = response_call c (HtmlResponse 403 ''Forbidden'')"

definition send500 :: "http_client \<Rightarrow> server_call" where
  "send500 c = response_call c (HtmlResponse 500 ''Internal Server Error'')"

section \<open>Requests\<close>

definition validatePath :: "string \<Rightarrow> bool" where
  "validatePath p = (case p of [] \<Rightarrow> False | c # _ \<Rightarrow> c = CHR ''/'')"

fun unescape_all :: "string list \<Rightarrow> string list result" where
  "unescape_all [] = Inr []"
| "unescape_all (v # vs) = rbind (unescape v True) (\<lambda>s. rmap (Cons s) (unescape_all vs))"

text \<open>\<open>getParts\<close>, for a path that passed \<open>validatePath\<close>; the delimiter is not empty, so \<open>split\<close> returns.\<close>

definition getParts :: "string \<Rightarrow> string list result" where
  "getParts p = (case split_view (drop 1 p) ''/'' True of
     Some views \<Rightarrow> unescape_all views
   | None \<Rightarrow> Inl (UndefinedBehaviour ''split does not return''))"

definition logged :: "server_call list \<Rightarrow> 'w handler_args \<Rightarrow> 'w handler_args" where
  "logged calls args = args\<lparr>ha_log := ha_log args @ calls\<rparr>"

definition unhandled :: "http_client \<Rightarrow> server_call list" where
  "unhandled c = [response_call c (HtmlResponse 501 ''Unhandled request''), CloseClient (cl_id c)]"

definition invalid_path :: "http_client \<Rightarrow> server_call list" where
  "invalid_path c = [response_call c (HtmlResponse 403 ''Invalid path.''), CloseClient (cl_id c)]"

text \<open>
  The outcome of a request: the client, the plugins' state and the calls, or an exception with
  what happened before it.
\<close>

type_synonym 'w outcome = "(http_client \<times> 'w \<times> server_call list) \<times> unit result"

definition outcome_of :: "'w handler_args \<Rightarrow> server_call list \<Rightarrow> unit result \<Rightarrow> 'w outcome" where
  "outcome_of args calls res = ((ha_client args, ha_world args, ha_log args @ calls), res)"

definition run_handlers :: "'w handler_args handler option list \<Rightarrow> 'w handler_args \<Rightarrow> 'w outcome" where
  "run_handlers handlers args =
     (case beforeMulti args handlers True of
        (args', Inl e) \<Rightarrow> outcome_of args' [] (Inl e)
      | (args', Inr (should_pass, PassResult)) \<Rightarrow> outcome_of args' (unhandled (ha_client args')) (Inr ())
      | (args', Inr (should_pass, KillResult)) \<Rightarrow> outcome_of args' [] (Inr ()))"

definition handlePOST ::
  "('w, 'v) http_server \<Rightarrow> http_client \<Rightarrow> request \<Rightarrow> 'w \<Rightarrow> 'w outcome" where
  "handlePOST hs client req w =
     (if \<not> validatePath (rq_path req) then ((client, w, invalid_path client), Inr ())
      else case getParts (rq_path req) of
        Inl e \<Rightarrow> ((client, w, []), Inl e)
      | Inr parts \<Rightarrow>
          run_handlers (hs_postHandlers hs)
            \<lparr>ha_client = client, ha_request = req, ha_parts = parts, ha_world = w, ha_log = []\<rparr>)"

definition websocket_guid :: string where
  "websocket_guid = ''258EAFA5-E914-47DA-95CA-C5AB0DC85B11''"

definition handshake_response :: "(string \<Rightarrow> string) \<Rightarrow> string \<Rightarrow> string \<Rightarrow> response" where
  "handshake_response sha1 key acceptedProtocol =
     (let r = putHeader ''sec-websocket-accept'' (base64Encode (sha1 (key @ websocket_guid)))
                (putHeader ''connection'' ''Upgrade''
                  (putHeader ''upgrade'' ''websocket'' (HtmlResponse 101 '''')))
      in if acceptedProtocol \<noteq> [] then putHeader ''sec-websocket-protocol'' acceptedProtocol r else r)"

definition wants_websocket :: "request \<Rightarrow> bool" where
  "wants_websocket req \<longleftrightarrow>
     map_of (rq_headers req) ''connection'' \<in> {Some ''Upgrade'', Some ''keep-alive, Upgrade''}
     \<and> map_of (rq_headers req) ''upgrade'' = Some ''websocket''"

definition handshake_failed :: "request \<Rightarrow> bool" where
  "handshake_failed req \<longleftrightarrow>
     map_of (rq_headers req) ''sec-websocket-key'' = None
     \<or> map_of (rq_headers req) ''sec-websocket-version'' = None
     \<or> (case map_of (rq_headers req) ''sec-websocket-key'' of Some k \<Rightarrow> length k \<noteq> 24 | None \<Rightarrow> True)"

definition requested_protocols :: "request \<Rightarrow> string list" where
  "requested_protocols req =
     (case map_of (rq_headers req) ''sec-websocket-protocol'' of
        Some p \<Rightarrow> (case split_view p '' '' True of Some ps \<Rightarrow> ps | None \<Rightarrow> [])
      | None \<Rightarrow> [])"

text \<open>The branch of \<open>handleGET\<close> that upgrades the connection.\<close>

definition handle_upgrade ::
  "(string \<Rightarrow> string) \<Rightarrow> ('w, 'v) http_server \<Rightarrow> http_client \<Rightarrow> request \<Rightarrow> 'w \<Rightarrow> 'w outcome" where
  "handle_upgrade sha1 hs client req w =
     (if handshake_failed req then ((client, w, [send400 client]), Inr ())
      else case getParts (rq_path req) of
        Inl e \<Rightarrow> ((client, w, []), Inl e)
      | Inr parts \<Rightarrow>
          (let client = client\<lparr>cl_isWebSocket := True, cl_webSocketPath := parts, cl_lineMode := False\<rparr>;
               args = \<lparr>ha_client = client, ha_request = req, ha_parts = parts, ha_world = w, ha_log = [],
                       wa_protocols = requested_protocols req, wa_acceptedProtocol = []\<rparr>
           in case beforeMulti args (hs_webSocketConnectionHandlers hs) True of
             (args', Inl e) \<Rightarrow> ((ha_client args', ha_world args', ha_log args'), Inl e)
           | (args', Inr (should_pass, PassResult)) \<Rightarrow>
               ((ha_client args', ha_world args', ha_log args' @ unhandled (ha_client args')), Inr ())
           | (args', Inr (should_pass, KillResult)) \<Rightarrow>
               ((ha_client args', ha_world args', ha_log args' @
                  [response_call (ha_client args')
                     (handshake_response sha1 (getHeader req ''sec-websocket-key'') (wa_acceptedProtocol args'))]),
                Inr ())))"

definition handleGET ::
  "(string \<Rightarrow> string) \<Rightarrow> ('w, 'v) http_server \<Rightarrow> http_client \<Rightarrow> request \<Rightarrow> 'w \<Rightarrow> 'w outcome" where
  "handleGET sha1 hs client req w =
     (if \<not> validatePath (rq_path req) then ((client, w, invalid_path client), Inr ())
      else if wants_websocket req then handle_upgrade sha1 hs client req w
      else case getParts (rq_path req) of
        Inl e \<Rightarrow> ((client, w, []), Inl e)
      | Inr parts \<Rightarrow>
          run_handlers (hs_getHandlers hs)
            \<lparr>ha_client = client, ha_request = req, ha_parts = parts, ha_world = w, ha_log = []\<rparr>)"

section \<open>WebSocket handlers\<close>

definition handleWebSocketMessage ::
  "('w, 'v) http_server \<Rightarrow> http_client \<Rightarrow> string \<Rightarrow> 'w \<Rightarrow> 'w outcome" where
  "handleWebSocketMessage hs client message w =
     (case hs_webSocketMessageHandlers hs (cl_id client) of
        None \<Rightarrow> ((client, w, []), Inr ())
      | Some handlers \<Rightarrow>
          (case beforeMulti \<lparr>wm_client = client, wm_message = message, wm_world = w, wm_log = []\<rparr> handlers True of
             (args, res) \<Rightarrow> ((wm_client args, wm_world args, wm_log args), rmap (\<lambda>_. ()) res)))"

fun run_close_handlers ::
  "'w close_handler_fn option list \<Rightarrow> http_client \<Rightarrow> 'w \<times> server_call list \<Rightarrow> 'w \<times> server_call list" where
  "run_close_handlers [] client st = st"
| "run_close_handlers (None # fns) client st = run_close_handlers fns client st"
| "run_close_handlers (Some fn # fns) client st = run_close_handlers fns client (fn client st)"

definition server_closeWebSocket ::
  "('w, 'v) http_server \<Rightarrow> http_client \<Rightarrow> 'w \<Rightarrow> 'w \<times> server_call list" where
  "server_closeWebSocket hs client w =
     (let (w', calls) = (case hs_webSocketCloseHandlers hs (cl_id client) of
                           None \<Rightarrow> (w, [])
                         | Some fns \<Rightarrow> run_close_handlers fns client (w, []))
      in (w', calls @ [CloseClient (cl_id client)]))"

definition registerWebSocketMessageHandler ::
  "http_client \<Rightarrow> 'w ws_message_args handler option \<Rightarrow> ('w, 'v) http_server \<Rightarrow> ('w, 'v) http_server" where
  "registerWebSocketMessageHandler client h hs =
     hs\<lparr>hs_webSocketMessageHandlers := (hs_webSocketMessageHandlers hs)(cl_id client \<mapsto>
          (case hs_webSocketMessageHandlers hs (cl_id client) of Some hsl \<Rightarrow> hsl | None \<Rightarrow> []) @ [h])\<rparr>"

definition registerWebSocketCloseHandler ::
  "http_client \<Rightarrow> 'w close_handler_fn option \<Rightarrow> ('w, 'v) http_server \<Rightarrow> ('w, 'v) http_server" where
  "registerWebSocketCloseHandler client h hs =
     hs\<lparr>hs_webSocketCloseHandlers := (hs_webSocketCloseHandlers hs)(cl_id client \<mapsto>
          (case hs_webSocketCloseHandlers hs (cl_id client) of Some hsl \<Rightarrow> hsl | None \<Rightarrow> []) @ [h])\<rparr>"

text \<open>\<open>while (PluginHost::erase(handlers, nullptr));\<close>\<close>

lemma erase_shorter: "(ps', True) = erase ps locked \<Longrightarrow> length ps' < length ps"
proof -
  assume "(ps', True) = erase ps locked"
  then have "locked \<in> set ps" "ps' = remove1 locked ps"
    using erase_found [of ps locked] erase_remove1 [of ps locked] by (metis snd_conv, metis fst_conv)
  then show ?thesis by (auto simp: length_remove1 dest: length_pos_if_in_set)
qed

function erase_expired :: "'p option list \<Rightarrow> 'p option list" where
  "erase_expired handlers =
     (case erase handlers None of (handlers', found) \<Rightarrow> if found then erase_expired handlers' else handlers')"
  by pat_completeness auto
termination
  by (relation "measure length") (auto dest: erase_shorter)

declare erase_expired.simps [simp del]

definition clean_registry :: "(int \<rightharpoonup> 'p option list) \<Rightarrow> (int \<rightharpoonup> 'p option list)" where
  "clean_registry m = (\<lambda>i. case m i of
     None \<Rightarrow> None
   | Some hs \<Rightarrow> if erase_expired hs = [] then None else Some (erase_expired hs))"

definition cleanWebSocketMessageHandlers :: "('w, 'v) http_server \<Rightarrow> ('w, 'v) http_server" where
  "cleanWebSocketMessageHandlers hs =
     hs\<lparr>hs_webSocketMessageHandlers := clean_registry (hs_webSocketMessageHandlers hs)\<rparr>"

definition cleanWebSocketCloseHandlers :: "('w, 'v) http_server \<Rightarrow> ('w, 'v) http_server" where
  "cleanWebSocketCloseHandlers hs =
     hs\<lparr>hs_webSocketCloseHandlers := clean_registry (hs_webSocketCloseHandlers hs)\<rparr>"

definition cleanWebSocketHandlers :: "('w, 'v) http_server \<Rightarrow> ('w, 'v) http_server" where
  "cleanWebSocketHandlers hs = cleanWebSocketCloseHandlers (cleanWebSocketMessageHandlers hs)"

section \<open>Options\<close>

definition config_at :: "('w, 'v) http_server \<Rightarrow> path \<Rightarrow> string \<Rightarrow> 'v option" where
  "config_at hs dir name = (case hs_configs hs dir of Some config \<Rightarrow> config name | None \<Rightarrow> None)"

function option_loop :: "('w, 'v) http_server \<Rightarrow> string \<Rightarrow> path \<Rightarrow> 'v option" where
  "option_loop hs name dir =
     (case config_at hs dir name of
        Some v \<Rightarrow> Some v
      | None \<Rightarrow>
          (if dir = hs_webRoot hs then None
           else if parent_path dir \<noteq> [] then option_loop hs name (parent_path dir) else None))"
  by pat_completeness auto
termination
proof (relation "measure (\<lambda>(hs, name, dir). length dir)", simp)
  fix hs :: "('w, 'v) http_server" and name dir
  assume "parent_path dir \<noteq> []"
  then have "dir \<noteq> []" by (auto simp: parent_path_def)
  then show "((hs, name, parent_path dir), hs, name, dir) \<in> measure (\<lambda>(hs, name, dir). length dir)"
    by (simp add: parent_path_def)
qed

declare option_loop.simps [simp del]

definition not_subpath :: "path \<Rightarrow> path \<Rightarrow> exn" where
  "not_subpath web_root p = InvalidArgument (''Not a subpath of the webroot (/'' @ join web_root ''/'' @ ''): /'' @ join p ''/'')"

definition getOption :: "('w, 'v) http_server \<Rightarrow> path \<Rightarrow> string \<Rightarrow> 'v option result" where
  "getOption hs p name =
     (if \<not> isSubpath (hs_webRoot hs) p then Inl (not_subpath (hs_webRoot hs) p)
      else case option_loop hs name (parent_path p) of
        Some v \<Rightarrow> Inr (Some v)
      | None \<Rightarrow> Inr (hs_options hs name))"

text \<open>The overload for a path below the web root; the path is not normalised.\<close>

definition getOption_web :: "('w, 'v) http_server \<Rightarrow> string \<Rightarrow> string \<Rightarrow> 'v option result" where
  "getOption_web hs web_path name =
     (let relative = (case web_path of c # cs \<Rightarrow> if c = CHR ''/'' then cs else web_path | [] \<Rightarrow> [])
      in getOption hs (path_append (hs_webRoot hs) relative) name)"

text \<open>A directory tree as the recursive iterator sees it.\<close>

datatype config_entry = ConfigFile string | ConfigDir string "config_entry list"

fun crawlConfigs ::
  "(path \<Rightarrow> string result) \<Rightarrow> (string \<Rightarrow> (string \<rightharpoonup> 'v) option) \<Rightarrow> path \<Rightarrow> config_entry list
   \<Rightarrow> (path \<rightharpoonup> (string \<rightharpoonup> 'v)) \<Rightarrow> (path \<rightharpoonup> (string \<rightharpoonup> 'v)) result" where
  "crawlConfigs read parse base [] m = Inr m"
| "crawlConfigs read parse base (ConfigDir name entries # rest) m =
     rbind (crawlConfigs read parse (base @ [name]) entries m) (crawlConfigs read parse base rest)"
| "crawlConfigs read parse base (ConfigFile name # rest) m =
     (if name = ''.algiz''
      then rbind (read (base @ [name])) (\<lambda>txt.
             case parse txt of
               None \<Rightarrow> crawlConfigs read parse base rest m
             | Some config \<Rightarrow>
                 crawlConfigs read parse base rest (if m base = None then m(base \<mapsto> config) else m))
      else crawlConfigs read parse base rest m)"

definition addConfig ::
  "(path \<Rightarrow> string result) \<Rightarrow> (string \<Rightarrow> (string \<rightharpoonup> 'v) option) \<Rightarrow> path
   \<Rightarrow> ('w, 'v) http_server \<Rightarrow> ('w, 'v) http_server result" where
  "addConfig read parse p hs =
     rmap (\<lambda>txt. case parse txt of
             None \<Rightarrow> hs
           | Some config \<Rightarrow> hs\<lparr>hs_configs := (hs_configs hs)(parent_path p \<mapsto> config)\<rparr>)
       (read p)"

section \<open>Dispatch, verified\<close>

text \<open>
  Every request is answered: an invalid path with an error page, and a request no handler
  claims with \<open>501\<close>, in both cases followed by closing the connection; a request that some
  handler claims gets exactly what the handlers asked for.
\<close>

lemma requests_answered:
  assumes "getParts (rq_path req) = Inr parts" and "\<not> wants_websocket req"
    and "args = \<lparr>ha_client = c, ha_request = req, ha_parts = parts, ha_world = w, ha_log = []\<rparr>"
  shows "(\<not> validatePath (rq_path req) \<longrightarrow>
      handleGET digest hs c req w = ((c, w, invalid_path c), Inr ()) \<and> handlePOST hs c req w = ((c, w, invalid_path c), Inr ()))
    \<and> (validatePath (rq_path req) \<longrightarrow>
      (\<forall>args' b. beforeMulti args (hs_getHandlers hs) True = (args', Inr (b, PassResult)) \<longrightarrow>
        handleGET digest hs c req w = ((ha_client args', ha_world args', ha_log args' @ unhandled (ha_client args')), Inr ()))
      \<and> (\<forall>args' b. beforeMulti args (hs_getHandlers hs) True = (args', Inr (b, KillResult)) \<longrightarrow>
        handleGET digest hs c req w = ((ha_client args', ha_world args', ha_log args'), Inr ()))
      \<and> (\<forall>args' b. beforeMulti args (hs_postHandlers hs) True = (args', Inr (b, PassResult)) \<longrightarrow>
        handlePOST hs c req w = ((ha_client args', ha_world args', ha_log args' @ unhandled (ha_client args')), Inr ()))
      \<and> (\<forall>args' b. beforeMulti args (hs_postHandlers hs) True = (args', Inr (b, KillResult)) \<longrightarrow>
        handlePOST hs c req w = ((ha_client args', ha_world args', ha_log args'), Inr ())))"
  using assms by (auto simp: handleGET_def handlePOST_def run_handlers_def outcome_of_def)

definition bare_server :: "(unit, unit) http_server" where
  "bare_server = \<lparr>hs_webRoot = [''www''], hs_options = Map.empty, hs_configs = Map.empty, hs_getHandlers = [],
     hs_postHandlers = [], hs_webSocketConnectionHandlers = [], hs_webSocketMessageHandlers = Map.empty,
     hs_webSocketCloseHandlers = Map.empty\<rparr>"

lemma requests_answered_example:
  "handleGET id bare_server (new_client 3 ''::1'') (new_request\<lparr>rq_path := ''/''\<rparr>) ()
     = ((new_client 3 ''::1'', (), unhandled (new_client 3 ''::1'')), Inr ())"
proof -
  have "getParts ''/'' = Inr []" by (simp add: getParts_def split_view_def)
  then show ?thesis
    using requests_answered [where req = "new_request\<lparr>rq_path := ''/''\<rparr>" and parts = "[]" and c = "new_client 3 ''::1''"
        and w = "()" and digest = id and hs = bare_server, OF _ _ refl]
    by (auto simp: wants_websocket_def new_request_def bare_server_def validatePath_def)
qed


definition upgrade_request :: request where
  "upgrade_request = new_request\<lparr>rq_method := GET, rq_path := ''/chess'', rq_headers :=
     [(''connection'', ''Upgrade''), (''sec-websocket-key'', ''dGhlIHNhbXBsZSBub25jZQ==''),
      (''sec-websocket-version'', ''13''), (''upgrade'', ''websocket'')]\<rparr>"


section \<open>Registries, verified\<close>

lemma erase_expired_filter: "erase_expired hs = filter (\<lambda>h. h \<noteq> None) hs"
proof (induction hs rule: erase_expired.induct)
  case (1 hs)
  obtain hs' found where e: "erase hs None = (hs', found)" by fastforce
  then have f: "found \<longleftrightarrow> None \<in> set hs" "hs' = remove1 None hs"
    using erase_found [of hs None] erase_remove1 [of hs None] by simp_all
  have "filter (\<lambda>h. h \<noteq> None) (remove1 None hs) = filter (\<lambda>h. h \<noteq> None) hs" by (induction hs) auto
  show ?case
  proof (cases found)
    case True
    with 1 [OF e [symmetric]] e f \<open>filter (\<lambda>h. h \<noteq> None) (remove1 None hs) = _\<close> show ?thesis
      by (subst erase_expired.simps) simp
  next
    case False
    then have "filter (\<lambda>h. h \<noteq> None) hs = hs" using f by (intro filter_True ballI) metis
    with False e f show ?thesis by (subst erase_expired.simps) (simp add: remove1_idem)
  qed
qed

text \<open>
  Handlers are registered per client number and never taken out when a client leaves, but
  numbers are used again: the next client with the number finds the handlers of the one before
  it still registered, and a plugin that registers the same handler for it is called twice for
  every message.
\<close>

lemma reused_number_doubles_handlers:
  assumes "hs_webSocketMessageHandlers hs (cl_id c) = Some [Some h]" and "cl_id c' = cl_id c"
  shows "hs_webSocketMessageHandlers (registerWebSocketMessageHandler c' (Some h) hs) (cl_id c') = Some [Some h, Some h]"
  using assms by (simp add: registerWebSocketMessageHandler_def)

section \<open>Options, verified\<close>

text \<open>The first configuration with the option on the way from a directory up to the web root.\<close>

fun nearest :: "('w, 'v) http_server \<Rightarrow> string \<Rightarrow> path \<Rightarrow> 'v option" where
  "nearest hs name [] = config_at hs (hs_webRoot hs) name"
| "nearest hs name (e # es) =
     (case config_at hs (hs_webRoot hs @ rev (e # es)) name of
        Some v \<Rightarrow> Some v
      | None \<Rightarrow> nearest hs name es)"

lemma option_loop_nearest:
  assumes "hs_webRoot hs \<noteq> []"
  shows "option_loop hs name (hs_webRoot hs @ rev dirs) = nearest hs name dirs"
proof (induction dirs)
  case Nil
  then show ?case by (subst option_loop.simps) (simp split: option.splits)
next
  case (Cons e es)
  have "parent_path (hs_webRoot hs @ rev (e # es)) = hs_webRoot hs @ rev es"
    by (simp add: parent_path_def butlast_append)
  with Cons assms show ?case by (subst option_loop.simps) (simp split: option.splits)
qed

text \<open>
  (C29) Options: for a file below the web root the value in the configuration of the nearest
  enclosing directory wins, then those of its parents up to the web root, then the server's own
  options; for a path outside the web root the question is an error.
\<close>

theorem getOption_nearest:
  assumes "hs_webRoot hs \<noteq> []"
  shows "getOption hs (hs_webRoot hs @ dirs @ [file]) name =
      Inr (case nearest hs name (rev dirs) of Some v \<Rightarrow> Some v | None \<Rightarrow> hs_options hs name)
    \<and> ((\<nexists>rest. p = hs_webRoot hs @ rest) \<longrightarrow> getOption hs p name = Inl (not_subpath (hs_webRoot hs) p))"
proof (intro conjI impI)
  have "parent_path (hs_webRoot hs @ dirs @ [file]) = hs_webRoot hs @ rev (rev dirs)"
    by (simp add: parent_path_def butlast_append)
  then show "getOption hs (hs_webRoot hs @ dirs @ [file]) name =
      Inr (case nearest hs name (rev dirs) of Some v \<Rightarrow> Some v | None \<Rightarrow> hs_options hs name)"
    using assms option_loop_nearest [OF assms, of name "rev dirs"]
    by (simp add: getOption_def isSubpath_prefix split: option.splits)
  show "getOption hs p name = Inl (not_subpath (hs_webRoot hs) p)" if "\<nexists>rest. p = hs_webRoot hs @ rest"
    using that by (auto simp: getOption_def isSubpath_prefix)
qed

theorem getOption_nearest_witness:
  "getOption (bare_server\<lparr>hs_configs := [[''www'', ''a''] \<mapsto> [''nodot'' \<mapsto> ()]]\<rparr>) [''www'', ''a'', ''b'', ''f''] ''nodot'' = Inr (Some ())
   \<and> getOption bare_server [''etc'', ''passwd''] ''nodot'' = Inl (not_subpath [''www''] [''etc'', ''passwd''])"
  using getOption_nearest [of "bare_server\<lparr>hs_configs := [[''www'', ''a''] \<mapsto> [''nodot'' \<mapsto> ()]]\<rparr>" "[''a'', ''b'']" "''f''" "''nodot''"]
    getOption_nearest [of bare_server "[]" "[]" "''nodot''" "[''etc'', ''passwd'']"]
  by (simp add: bare_server_def config_at_def)

end
