(* ===== verification/Module_Cache.thy ===== *)
theory Module_Cache
  imports Fs_Util
begin

text \<open>
  \<open>src/plugins/fileserv/ModuleCache.cpp\<close>: the cache of compiled modules of the file server, with
  eviction of the module that was not used for the longest time.

  The cache is the list of its entries in the order the hash table iterates over them.  Time
  stamps are the clock's values, and the dynamic linker is a parameter; the calls of \<open>dlclose\<close>
  are kept as a log.  The second look-up in \<open>operator[]\<close>, under the exclusive lock, only finds
  something another thread put there in between, so one look-up models both.
\<close>

section \<open>Model\<close>

record cache_item =
  ci_lastUsed :: int
  ci_handle :: nat

record module_cache =
  mc_maxSize :: nat
  mc_cache :: "(path \<times> cache_item) list"
  mc_closed :: "nat list"

definition new_cache :: "nat \<Rightarrow> module_cache" where
  "new_cache maxSize = \<lparr>mc_maxSize = maxSize, mc_cache = [], mc_closed = []\<rparr>"

text \<open>\<open>std::ranges::min_element\<close>: the first of the smallest.\<close>

fun min_element :: "(path \<times> cache_item) list \<Rightarrow> (path \<times> cache_item) option" where
  "min_element [] = None"
| "min_element (x # xs) =
     (case min_element xs of
        None \<Rightarrow> Some x
      | Some y \<Rightarrow> if ci_lastUsed (snd y) < ci_lastUsed (snd x) then Some y else Some x)"

definition close_item :: "path \<times> cache_item \<Rightarrow> module_cache \<Rightarrow> module_cache" where
  "close_item x mc = mc\<lparr>mc_closed := mc_closed mc @ [ci_handle (snd x)], mc_cache := remove1 x (mc_cache mc)\<rparr>"

definition makeSpace :: "module_cache \<Rightarrow> module_cache" where
  "makeSpace mc =
     (if mc_cache mc = [] \<or> length (mc_cache mc) < mc_maxSize mc then mc
      else case min_element (mc_cache mc) of
        None \<Rightarrow> mc
      | Some x \<Rightarrow> close_item x mc)"

fun touch :: "path \<Rightarrow> int \<Rightarrow> (path \<times> cache_item) list \<Rightarrow> (path \<times> cache_item) list" where
  "touch p now [] = []"
| "touch p now ((q, item) # xs) =
     (if q = p then (q, item\<lparr>ci_lastUsed := now\<rparr>) # xs else (q, item) # touch p now xs)"

text \<open>
  \<open>operator[]\<close>: the function of a module.  \<open>dlopen\<close> gives a handle, \<open>dlsym\<close> the function
  \<open>algizModule\<close> of a handle.
\<close>

definition cache_get ::
  "(path \<Rightarrow> nat option) \<Rightarrow> (nat \<Rightarrow> 'f option) \<Rightarrow> int \<Rightarrow> path \<Rightarrow> module_cache \<Rightarrow> module_cache \<times> 'f result" where
  "cache_get dlopen dlsym now p mc =
     (case map_of (mc_cache mc) p of
        Some item \<Rightarrow>
          (mc\<lparr>mc_cache := touch p now (mc_cache mc)\<rparr>,
           case dlsym (ci_handle item) of
             Some f \<Rightarrow> Inr f
           | None \<Rightarrow> Inl (RuntimeError (''Couldn'' @ [CHR 0x27] @ ''t find algizModule symbol'')))
      | None \<Rightarrow>
          (let mc = (if mc_maxSize mc \<le> length (mc_cache mc) then makeSpace mc else mc)
           in case dlopen p of
             None \<Rightarrow> (mc, Inl (RuntimeError (''Couldn'' @ [CHR 0x27] @ ''t dlopen /'' @ join p ''/'')))
           | Some handle \<Rightarrow>
               (case dlsym handle of
                  None \<Rightarrow> (mc, Inl (RuntimeError (''Couldn'' @ [CHR 0x27] @ ''t find algizModule symbol'')))
                | Some f \<Rightarrow>
                    (mc\<lparr>mc_cache := mc_cache mc @ [(p, \<lparr>ci_lastUsed = now, ci_handle = handle\<rparr>)]\<rparr>, Inr f))))"

definition cache_remove :: "path \<Rightarrow> module_cache \<Rightarrow> module_cache \<times> bool" where
  "cache_remove p mc =
     (case map_of (mc_cache mc) p of
        Some item \<Rightarrow> (close_item (p, item) mc, True)
      | None \<Rightarrow> (mc, False))"

definition cache_destroy :: "module_cache \<Rightarrow> module_cache" where
  "cache_destroy mc = mc\<lparr>mc_closed := mc_closed mc @ map (\<lambda>x. ci_handle (snd x)) (mc_cache mc)\<rparr>"

section \<open>Invariant\<close>

definition cache_ok :: "module_cache \<Rightarrow> bool" where
  "cache_ok mc \<longleftrightarrow> distinct (map fst (mc_cache mc)) \<and> length (mc_cache mc) \<le> max 1 (mc_maxSize mc)"

lemma min_element_None: "min_element xs = None \<longleftrightarrow> xs = []"
  by (cases xs) (auto split: option.splits)

lemma min_element_least:
  "min_element xs = Some x \<Longrightarrow> x \<in> set xs \<and> (\<forall>y \<in> set xs. ci_lastUsed (snd x) \<le> ci_lastUsed (snd y))"
proof (induction xs arbitrary: x)
  case (Cons a xs)
  show ?case
  proof (cases "min_element xs")
    case None
    with Cons.prems show ?thesis by (simp add: min_element_None)
  next
    case (Some y)
    with Cons.IH [of y] Cons.prems show ?thesis by (auto split: if_splits)
  qed
qed simp

lemma map_fst_touch [simp]: "map fst (touch p now xs) = map fst xs"
  by (induction xs) auto

lemma length_touch [simp]: "length (touch p now xs) = length xs"
  using map_fst_touch [of p now xs] by (metis length_map)

lemma distinct_map_remove1: "distinct (map fst xs) \<Longrightarrow> distinct (map fst (remove1 x xs))"
proof (induction xs)
  case (Cons a xs)
  then show ?case using set_remove1_subset [of x xs] by auto
qed simp

lemma map_of_touch: "map_of (touch p now xs) q =
    (if q = p then map_option (\<lambda>i. i\<lparr>ci_lastUsed := now\<rparr>) (map_of xs p) else map_of xs q)"
  by (induction xs) auto

lemma makeSpace_room:
  assumes "cache_ok mc" and "mc_maxSize mc \<le> length (mc_cache mc)"
  shows "cache_ok (makeSpace mc) \<and> length (mc_cache (makeSpace mc)) < max 1 (mc_maxSize mc)
    \<and> mc_maxSize (makeSpace mc) = mc_maxSize mc"
proof (cases "mc_cache mc = []")
  case True
  with assms show ?thesis by (simp add: makeSpace_def)
next
  case False
  then obtain x where x: "min_element (mc_cache mc) = Some x" using min_element_None by fastforce
  then have "x \<in> set (mc_cache mc)" using min_element_least by blast
  with False x assms show ?thesis
    by (auto simp: makeSpace_def close_item_def cache_ok_def length_remove1 distinct_map_remove1)
qed

lemma map_of_append_fresh: "p \<notin> fst ` set xs \<Longrightarrow> map_of (xs @ [(p, v)]) p = Some v"
  by (induction xs) auto

text \<open>
  (C21) The module cache: it never holds a module twice nor more modules than it may; a module that
  is cached is returned without loading or closing anything; when a full cache needs room the
  module whose last use is longest ago is closed, and only that one; and a module that was
  loaded is found again by the next look-up.
\<close>

theorem module_cache_lru:
  assumes "cache_ok mc" and "cache_get dlopen dlsym now p mc = (mc', res)"
  shows "cache_ok mc'
    \<and> (map_of (mc_cache mc) p \<noteq> None \<longrightarrow> mc_closed mc' = mc_closed mc \<and> map fst (mc_cache mc') = map fst (mc_cache mc))
    \<and> (map_of (mc_cache mc) p = None \<longrightarrow>
        (if length (mc_cache mc) < mc_maxSize mc \<or> mc_cache mc = [] then mc_closed mc' = mc_closed mc
         else \<exists>x \<in> set (mc_cache mc). mc_closed mc' = mc_closed mc @ [ci_handle (snd x)]
           \<and> (\<forall>y \<in> set (mc_cache mc). ci_lastUsed (snd x) \<le> ci_lastUsed (snd y))
           \<and> remove1 x (mc_cache mc) = (if isl res then mc_cache mc' else butlast (mc_cache mc'))))
    \<and> (\<not> isl res \<longrightarrow> map_option ci_lastUsed (map_of (mc_cache mc') p) = Some now)"
proof (cases "map_of (mc_cache mc) p")
  case (Some item)
  with assms show ?thesis
    by (auto simp: cache_get_def cache_ok_def map_of_touch split: option.splits)
next
  case None
  let ?mc = "if mc_maxSize mc \<le> length (mc_cache mc) then makeSpace mc else mc"
  have ok: "cache_ok ?mc" "length (mc_cache ?mc) < max 1 (mc_maxSize ?mc)"
    using makeSpace_room [OF assms(1)] assms(1) by (auto simp: not_le)
  have sub: "set (mc_cache ?mc) \<subseteq> set (mc_cache mc)"
    using set_remove1_subset [of _ "mc_cache mc"]
    by (auto simp: makeSpace_def close_item_def split: option.splits)
  have fresh: "p \<notin> fst ` set (mc_cache ?mc)" using None sub by (auto simp: map_of_eq_None_iff)
  have res: "(isl res \<and> mc' = ?mc) \<or> (\<not> isl res \<and>
      (\<exists>h. mc' = ?mc\<lparr>mc_cache := mc_cache ?mc @ [(p, \<lparr>ci_lastUsed = now, ci_handle = h\<rparr>)]\<rparr>))"
    using assms(2) None by (auto simp: cache_get_def Let_def split: option.splits)
  have closed: "if length (mc_cache mc) < mc_maxSize mc \<or> mc_cache mc = [] then ?mc = mc
      else \<exists>x \<in> set (mc_cache mc). ?mc = close_item x mc
        \<and> (\<forall>y \<in> set (mc_cache mc). ci_lastUsed (snd x) \<le> ci_lastUsed (snd y))"
    using min_element_least [of "mc_cache mc"] min_element_None [of "mc_cache mc"]
    by (auto simp: makeSpace_def split: option.splits)
  have "cache_ok mc'" using res ok fresh by (auto simp: cache_ok_def)
  moreover have "if length (mc_cache mc) < mc_maxSize mc \<or> mc_cache mc = [] then mc_closed mc' = mc_closed mc
      else \<exists>x \<in> set (mc_cache mc). mc_closed mc' = mc_closed mc @ [ci_handle (snd x)]
        \<and> (\<forall>y \<in> set (mc_cache mc). ci_lastUsed (snd x) \<le> ci_lastUsed (snd y))
        \<and> remove1 x (mc_cache mc) = (if isl res then mc_cache mc' else butlast (mc_cache mc'))"
  proof (cases "length (mc_cache mc) < mc_maxSize mc \<or> mc_cache mc = []")
    case True
    with closed res show ?thesis by auto
  next
    case False
    with closed obtain x where "x \<in> set (mc_cache mc)" "?mc = close_item x mc"
      "\<forall>y \<in> set (mc_cache mc). ci_lastUsed (snd x) \<le> ci_lastUsed (snd y)" by auto
    with False res show ?thesis by (auto simp: close_item_def intro!: bexI [of _ x])
  qed
  moreover have "\<not> isl res \<longrightarrow> map_option ci_lastUsed (map_of (mc_cache mc') p) = Some now"
    using res fresh map_of_append_fresh [of p "mc_cache ?mc"] by auto
  ultimately show ?thesis using None by simp
qed

theorem module_cache_lru_witness:
  "\<exists>mc' res. cache_get (\<lambda>_. Some 9) Some 30 [''c''] \<lparr>mc_maxSize = 2,
       mc_cache = [([''a''], \<lparr>ci_lastUsed = 20, ci_handle = 1\<rparr>), ([''b''], \<lparr>ci_lastUsed = 10, ci_handle = 2\<rparr>)],
       mc_closed = []\<rparr> = (mc', res)
     \<and> cache_ok mc' \<and> mc_closed mc' = [2]"
proof -
  let ?mc = "\<lparr>mc_maxSize = 2,
       mc_cache = [([''a''], \<lparr>ci_lastUsed = 20, ci_handle = 1\<rparr>), ([''b''], \<lparr>ci_lastUsed = 10, ci_handle = 2\<rparr>)],
       mc_closed = []\<rparr>"
  obtain mc' and res :: "nat result" where get: "cache_get (\<lambda>_. Some 9) Some 30 [''c''] ?mc = (mc', res)" by fastforce
  have "cache_ok ?mc" by (simp add: cache_ok_def)
  from module_cache_lru [OF this get] get show ?thesis by (auto simp: cache_ok_def)
qed

end
