(* ===== verification/Fileserv.thy ===== *)
theory Fileserv
  imports Http_Server Module_Cache Mime
begin

text \<open>
  \<open>src/plugins/fileserv/Fileserv.cpp\<close>: the plugin that serves files, with its access checks, ranges
  and compiled modules.

  The file system, the template engine, the dynamic linker and the compiler are the fields of an
  environment record.  A file's content and size do not change while it is served.  The plugin's
  own state is the module cache.
\<close>

section \<open>Environment and configuration\<close>

text \<open>Values of configuration files, as far as this plugin looks at them.\<close>

datatype option_value = OBool bool | OString string | OObject "(string \<times> option_value) list" | OOther

definition json_at :: "option_value \<Rightarrow> string \<Rightarrow> option_value result" where
  "json_at v key = (case v of
     OObject kvs \<Rightarrow> (case map_of kvs key of Some x \<Rightarrow> Inr x | None \<Rightarrow> Inl (JsonOutOfRange key))
   | _ \<Rightarrow> Inl (JsonTypeError ''cannot use at()''))"

definition json_contains :: "option_value \<Rightarrow> string \<Rightarrow> bool" where
  "json_contains v key = (case v of OObject kvs \<Rightarrow> map_of kvs key \<noteq> None | _ \<Rightarrow> False)"

definition get_string :: "option_value \<Rightarrow> string result" where
  "get_string v = (case v of OString s \<Rightarrow> Inr s | _ \<Rightarrow> Inl (JsonTypeError ''type must be string''))"

definition get_bool :: "option_value \<Rightarrow> bool result" where
  "get_bool v = (case v of OBool b \<Rightarrow> Inr b | _ \<Rightarrow> Inl (JsonTypeError ''type must be boolean''))"

type_synonym fs_args = "module_cache handler_args"
type_synonym fs_server = "(module_cache, option_value) http_server"

datatype defaults_config = NoDefaults | OneDefault string | ManyDefaults "string list" | BadDefaults

record fileserv =
  fv_hostnames :: "string list option"
  fv_root :: "path option"
  fv_enableModules :: bool
  fv_defaults :: defaults_config

record fileserv_env =
  fe_fs :: filesystem
  fe_db :: user_db
  fe_canonical :: "path \<Rightarrow> path"
  fe_hook :: "string \<Rightarrow> (fs_args \<Rightarrow> path \<Rightarrow> fs_args \<times> bool) option"
  fe_render :: "string \<Rightarrow> (string \<times> string) list \<Rightarrow> string result"
  fe_dump :: "(string \<times> string) list \<Rightarrow> string"
  fe_exists :: "path \<Rightarrow> bool"
  fe_compile :: "path \<Rightarrow> path \<Rightarrow> bool \<Rightarrow> string option option"
  fe_dlopen :: "path \<Rightarrow> nat option"
  fe_dlsym :: "nat \<Rightarrow> (fs_args \<Rightarrow> path \<Rightarrow> fs_args \<times> unit result) option"
  fe_now :: int
  fe_format_time :: "int \<Rightarrow> string"
  fe_boundary :: string

definition chunkSize :: nat where
  "chunkSize = 2 ^ 20"

section \<open>Small steps\<close>

definition getRoot :: "fileserv \<Rightarrow> fs_server \<Rightarrow> path" where
  "getRoot fv hs = (case fv_root fv of Some r \<Rightarrow> r | None \<Rightarrow> hs_webRoot hs)"

definition hostMatches :: "fileserv \<Rightarrow> request \<Rightarrow> bool" where
  "hostMatches fv req =
     (case fv_hostnames fv of
        Some hostnames \<Rightarrow>
          (case map_of (rq_headers req) ''host'' of Some h \<Rightarrow> h \<in> set hostnames | None \<Rightarrow> False)
      | None \<Rightarrow> map_of (rq_headers req) ''host'' = None)"

definition expand :: "fileserv_env \<Rightarrow> path \<Rightarrow> string \<Rightarrow> path result" where
  "expand env web_root request_path =
     rmap (\<lambda>u. lexically_normal (path_append (fe_canonical env web_root) (''./'' @ u))) (unescape request_path True)"

definition send_to :: "server_call list \<Rightarrow> fs_args \<Rightarrow> fs_args" where
  "send_to calls args = args\<lparr>ha_log := ha_log args @ calls\<rparr>"

text \<open>\<open>client.close()\<close>: only a connection that is not kept alive is closed.\<close>

definition close_client :: "fs_args \<Rightarrow> fs_args" where
  "close_client args =
     (if \<not> cf_keepAlive (cl_flags (ha_client args)) then send_to [CloseClient (cl_id (ha_client args))] args else args)"

definition option_bool :: "fs_server \<Rightarrow> path \<Rightarrow> string \<Rightarrow> bool option result" where
  "option_bool hs p name =
     rbind (getOption hs p name) (\<lambda>v. case v of None \<Rightarrow> Inr None | Some x \<Rightarrow> rmap Some (get_bool x))"

definition getModulesEnabled :: "fileserv \<Rightarrow> fs_server \<Rightarrow> path \<Rightarrow> bool result" where
  "getModulesEnabled fv hs p =
     (if fv_enableModules fv then Inr True
      else rmap (\<lambda>opt. opt = Some True) (option_bool hs p ''enableModules''))"

definition shouldServeModule :: "fileserv_env \<Rightarrow> fileserv \<Rightarrow> fs_server \<Rightarrow> path \<Rightarrow> bool result" where
  "shouldServeModule env fv hs p =
     rbind (getModulesEnabled fv hs p) (\<lambda>enabled.
       if \<not> enabled then Inr False
       else if extension p = ''.cpp''
       then rmap (\<lambda>x. x \<or> extension p = ''.alg'') (canExecute (fe_db env) (fe_fs env) p)
       else Inr (extension p = ''.alg''))"

definition getDefaults :: "fileserv \<Rightarrow> string list result" where
  "getDefaults fv = (case fv_defaults fv of
     NoDefaults \<Rightarrow> Inr []
   | OneDefault s \<Rightarrow> Inr [s]
   | ManyDefaults ss \<Rightarrow> Inr ss
   | BadDefaults \<Rightarrow> Inl (RuntimeError ''httpfileserv.default is required to be a string or array of strings''))"

fun find_default :: "filesystem \<Rightarrow> path \<Rightarrow> string list \<Rightarrow> path option" where
  "find_default fs full_path [] = None"
| "find_default fs full_path (d # ds) =
     (let new_path = path_append full_path d
      in if is_regular_file fs new_path then Some new_path else find_default fs full_path ds)"

definition findPath :: "fileserv_env \<Rightarrow> fileserv \<Rightarrow> path \<Rightarrow> path option result" where
  "findPath env fv full_path =
     (if is_regular_file (fe_fs env) full_path then Inr (Some full_path)
      else rmap (find_default (fe_fs env) full_path) (getDefaults fv))"

section \<open>Access checks\<close>

definition check_credentials :: "fs_args \<Rightarrow> option_value \<Rightarrow> fs_args \<times> bool result" where
  "check_credentials args auth =
     (case rbind (json_at auth ''username'') get_string of
        Inl e \<Rightarrow> (args, Inl e)
      | Inr username \<Rightarrow>
          (case rbind (json_at auth ''password'') get_string of
             Inl e \<Rightarrow> (args, Inl e)
           | Inr password \<Rightarrow>
               (case checkAuthentication (ha_request args) username password of
                  Missing \<Rightarrow>
                    (case (if json_contains auth ''realm'' then rbind (json_at auth ''realm'') get_string else Inr []) of
                       Inl e \<Rightarrow> (args, Inl e)
                     | Inr realm \<Rightarrow> (send_to [send401_realm (ha_client args) realm] args, Inr True))
                | Success \<Rightarrow> (args, Inr False)
                | _ \<Rightarrow> (send_to [send401 (ha_client args)] args, Inr True))))"

text \<open>A configuration without user name or password is ignored with a warning.\<close>

definition authFailed :: "fs_server \<Rightarrow> path \<Rightarrow> fs_args \<Rightarrow> fs_args \<times> bool result" where
  "authFailed hs full_path args =
     (let last_check = (\<lambda>args. if filename full_path = ''.algiz''
                               then (send_to [send401 (ha_client args)] args, Inr True) else (args, Inr False))
      in case getOption hs full_path ''auth'' of
        Inl e \<Rightarrow> (args, Inl e)
      | Inr None \<Rightarrow> last_check args
      | Inr (Some auth) \<Rightarrow>
          (case check_credentials args auth of
             (args', Inl (JsonOutOfRange _)) \<Rightarrow> last_check args'
           | (args', Inl e) \<Rightarrow> (args', Inl e)
           | (args', Inr True) \<Rightarrow> (args', Inr True)
           | (args', Inr False) \<Rightarrow> last_check args'))"

definition doFilter ::
  "fileserv_env \<Rightarrow> string \<Rightarrow> path \<Rightarrow> (fs_args \<Rightarrow> fs_args \<times> bool result) \<Rightarrow> fs_args \<Rightarrow> fs_args \<times> bool result" where
  "doFilter env name p default_action args =
     (case fe_hook env name of
        Some f \<Rightarrow> (case f args p of (args', b) \<Rightarrow> (args', Inr b))
      | None \<Rightarrow> default_action args)"

definition module_filter :: "fileserv_env \<Rightarrow> fileserv \<Rightarrow> fs_server \<Rightarrow> path \<Rightarrow> bool result" where
  "module_filter env fv hs p =
     rbind (getModulesEnabled fv hs p) (\<lambda>enabled.
       if enabled \<and> extension p = ''.so''
       then rmap (\<lambda>x. \<not> (x \<and> (snd (dot_split (stem p)) = ''.alg'' \<or> snd (dot_split (stem p)) = ''.cpp'')))
              (canExecute (fe_db env) (fe_fs env) p)
       else Inr True)"

definition filter_request :: "fileserv_env \<Rightarrow> fileserv \<Rightarrow> fs_server \<Rightarrow> path \<Rightarrow> fs_args \<Rightarrow> fs_args \<times> bool result" where
  "filter_request env fv hs p args =
     (case doFilter env ''algizAuthCheck'' p
             (\<lambda>a. case authFailed hs p a of (a', r) \<Rightarrow> (a', rmap Not r)) args of
        (args', Inl e) \<Rightarrow> (args', Inl e)
      | (args', Inr False) \<Rightarrow>
          doFilter env ''algizAuthCheckFailed'' p
            (\<lambda>a. (send_to [response_call (ha_client a) (HtmlResponse 401 ''Unauthorized'')] a, Inr False)) args'
      | (args', Inr True) \<Rightarrow>
          (case doFilter env ''algizCompiledModuleCheck'' p (\<lambda>a. (a, module_filter env fv hs p)) args' of
             (args'', Inl e) \<Rightarrow> (args'', Inl e)
           | (args'', Inr False) \<Rightarrow>
               doFilter env ''algizCompiledModuleCheckFailed'' p
                 (\<lambda>a. (send_to [response_call (ha_client a) (HtmlResponse 401 ''Nice try.'')] a, Inr False)) args''
           | (args'', Inr True) \<Rightarrow> (args'', Inr True)))"

section \<open>Serving\<close>

text \<open>
  An open stream: its position and whether a read came up short (after which it reads nothing
  any more), and the buffer it reads into.
\<close>

record read_stream =
  st_pos :: nat
  st_failed :: bool
  st_buffer :: string

definition stream_read :: "string \<Rightarrow> nat \<Rightarrow> read_stream \<Rightarrow> read_stream" where
  "stream_read content to_read st =
     (let n = (if st_failed st then 0 else min to_read (length content - st_pos st))
      in \<lparr>st_pos = st_pos st + n, st_failed = (st_failed st \<or> n < to_read),
          st_buffer = take n (drop (st_pos st) content) @ drop n (st_buffer st)\<rparr>)"

function send_loop :: "int \<Rightarrow> string \<Rightarrow> nat \<Rightarrow> read_stream \<Rightarrow> server_call list \<times> read_stream" where
  "send_loop client content remaining st =
     (if remaining = 0 then ([], st)
      else let to_read = min chunkSize remaining;
               st = stream_read content to_read st;
               (calls, st') = send_loop client content (remaining - to_read) st
           in (SendTo client (take to_read (st_buffer st)) # calls, st'))"
  by pat_completeness auto
termination
  by (relation "measure (\<lambda>(client, content, remaining, st). remaining)") (auto simp: chunkSize_def)

declare send_loop.simps [simp del]

definition zeros :: "nat \<Rightarrow> string" where
  "zeros n = replicate n (CHR 0x00)"

text \<open>A stream whose exceptions are enabled throws when the file cannot be opened.\<close>

definition open_failure :: exn where
  "open_failure = RuntimeError ''ios_base::failure''"

definition serveFull :: "fileserv_env \<Rightarrow> path \<Rightarrow> fs_args \<Rightarrow> fs_args \<times> unit result" where
  "serveFull env full_path args =
     (case fs_content (fe_fs env) full_path of
        None \<Rightarrow> (args, Inl open_failure)
      | Some content \<Rightarrow>
          (if \<not> fs_openable (fe_fs env) full_path then (args, Inl open_failure)
           else let filesize = length content;
                    r = HtmlResponse 200 [];
                    r = setMIME (getMIME (extension full_path))
                          (setAcceptRanges True (setLastModified (fe_format_time env) (lastWritten (fe_fs env) full_path) r));
                    r = putHeader ''content-length'' (to_string_nat filesize) r;
                    cid = cl_id (ha_client args)
                in (send_to (SendTo cid (noContent r)
                     # fst (send_loop cid content filesize
                         \<lparr>st_pos = 0, st_failed = False, st_buffer = zeros (min chunkSize filesize)\<rparr>)) args, Inr ())))"

text \<open>The parts of a range response; \<open>multi\<close> responses put a heading before each part.\<close>

definition part_heading :: "string \<Rightarrow> nat \<Rightarrow> nat \<Rightarrow> nat \<Rightarrow> string" where
  "part_heading boundary start end' filesize =
     boundary @ crlf @ ''Content-Type: '' @ crlf @ ''Content-Range: '' @ to_string_nat start @ ''-''
     @ to_string_nat end' @ ''/'' @ to_string_nat filesize @ crlf @ crlf"

definition range_size :: "size_t \<times> size_t \<Rightarrow> size_t" where
  "range_size r = snd r - fst r + 1"

text \<open>The buffer is allocated afresh when its size changes.\<close>

definition resize_buffer :: "nat \<Rightarrow> string option \<times> nat \<Rightarrow> string \<times> nat" where
  "resize_buffer buffer_length buf =
     (case buf of
        (None, old) \<Rightarrow> (zeros buffer_length, buffer_length)
      | (Some b, old) \<Rightarrow> if old \<noteq> buffer_length then (zeros buffer_length, buffer_length) else (b, old))"

fun range_parts ::
  "int \<Rightarrow> string \<Rightarrow> bool \<Rightarrow> string \<Rightarrow> range list \<Rightarrow> bool \<Rightarrow> string option \<times> nat \<Rightarrow> server_call list \<times> bool" where
  "range_parts cid content multi boundary [] failed buf = ([], failed)"
| "range_parts cid content multi boundary (r # rs) failed buf =
     (let heading = (if multi then [SendTo cid (part_heading boundary (unat (fst r)) (unat (snd r)) (length content))] else []);
          remaining = unat (range_size r);
          (buffer, len) = resize_buffer (min chunkSize remaining) buf;
          (calls, st) = send_loop cid content remaining
             \<lparr>st_pos = unat (fst r), st_failed = failed, st_buffer = buffer\<rparr>;
          (calls', failed') = range_parts cid content multi boundary rs (st_failed st) (Some (st_buffer st), len)
      in (heading @ calls @ calls', failed'))"

definition range_response :: "fileserv_env \<Rightarrow> path \<Rightarrow> nat \<Rightarrow> request \<Rightarrow> response" where
  "range_response env full_path filesize req =
     (let len = fold (\<lambda>r n. n + range_size r) (rq_ranges req) (rq_suffixLength req);
          r = setLastModified (fe_format_time env) (lastWritten (fe_fs env) full_path)
                (putHeader ''content-length'' (to_string_nat (unat len)) (setAcceptRanges True (HtmlResponse 206 [])))
      in if 1 < length (rq_ranges req)
         then putHeader ''content-type'' (''; boundary='' @ drop 2 (fe_boundary env)) r
         else putHeader ''content-range''
                (''bytes '' @ to_string_nat (unat (fst (hd (rq_ranges req)))) @ ''-''
                 @ to_string_nat (unat (snd (hd (rq_ranges req)))) @ ''/'' @ to_string_nat filesize)
                (putHeader ''content-type'' [] r))"

text \<open>
  \<open>serveRange\<close>.  A request for a suffix only has no ranges: the assertion fails, and without
  assertions the first element of an empty vector is read.
\<close>

definition serveRange ::
  "(range list \<Rightarrow> range list) \<Rightarrow> fileserv_env \<Rightarrow> path \<Rightarrow> fs_args \<Rightarrow> fs_args \<times> unit result" where
  "serveRange std_sort env full_path args =
     (case fs_content (fe_fs env) full_path of
        None \<Rightarrow> (args, Inl (RuntimeError ''file_size''))
      | Some content \<Rightarrow>
          (let filesize = length content;
               (req, ok) = valid std_sort (of_nat filesize) (ha_request args);
               args = args\<lparr>ha_request := req\<rparr>;
               c = ha_client args; cid = cl_id c
           in if \<not> ok then (send_to [send400 c] args, Inr ())
              else if \<not> fs_openable (fe_fs env) full_path then (args, Inl open_failure)
              else if rq_ranges req = [] then (args, Inl (UndefinedBehaviour ''serveRange: no ranges''))
              else let multi = (1 < length (rq_ranges req));
                       head = SendTo cid (noContent (range_response env full_path filesize req));
                       (parts, failed) = range_parts cid content multi (fe_boundary env) (rq_ranges req) False (None, 0);
                       suffix = unat (rq_suffixLength req);
                       tail = (if suffix = 0 then []
                               else (if multi then [SendTo cid (part_heading (fe_boundary env) (filesize - suffix) (filesize - 1) filesize)] else [])
                                 @ fst (send_loop cid content suffix
                                     \<lparr>st_pos = filesize - suffix, st_failed = failed, st_buffer = zeros (min chunkSize suffix)\<rparr>));
                       close_delimiter = (if multi then [SendTo cid (fe_boundary env), SendTo cid ''--''] else [])
                   in (send_to (head # parts @ tail @ close_delimiter) args, Inr ())))"

definition serveModule :: "fileserv_env \<Rightarrow> path \<Rightarrow> fs_args \<Rightarrow> fs_args \<times> unit result" where
  "serveModule env full_path args =
     (let object = butlast full_path @ [filename full_path @ ''.so''];
          stale = (\<not> fe_exists env object \<or> isNewerThan (fe_fs env) full_path object);
          args = (if stale then args\<lparr>ha_world := fst (cache_remove object (ha_world args))\<rparr> else args)
      in case (if stale then fe_compile env full_path object (extension full_path = ''.alg'') else None) of
        Some err_text \<Rightarrow>
          (send_to [response_call (ha_client args) (setCharset ''utf-8''
              (Response 500 (case err_text of Some t \<Rightarrow> t | None \<Rightarrow> ''Compilation failed'') ''text/plain''))] args, Inr ())
      | None \<Rightarrow>
          (case cache_get (fe_dlopen env) (fe_dlsym env) (fe_now env) object (ha_world args) of
             (mc, Inl e) \<Rightarrow> (args\<lparr>ha_world := mc\<rparr>, Inl e)
           | (mc, Inr f) \<Rightarrow> f (args\<lparr>ha_world := mc\<rparr>) full_path))"

section \<open>The handlers\<close>

definition caught :: "fs_args \<Rightarrow> fs_args" where
  "caught args = close_client (send_to [response_call (ha_client args) (HtmlResponse 403 ''Forbidden'')] args)"

text \<open>The body of the \<open>try\<close> block, which \<open>GET\<close> and \<open>POST\<close> share except for the template's data.\<close>

definition serve_path ::
  "(range list \<Rightarrow> range list) \<Rightarrow> fileserv_env \<Rightarrow> fileserv \<Rightarrow> fs_server \<Rightarrow> path \<Rightarrow> (string \<times> string) list
   \<Rightarrow> fs_args \<Rightarrow> fs_args \<times> unit result" where
  "serve_path std_sort env fv hs full_path data args =
     (if extension full_path = ''.t''
      then (case rbind (readFile (fe_fs env) full_path) (\<lambda>t. fe_render env t data) of
              Inl e \<Rightarrow> (args, Inl e)
            | Inr out \<Rightarrow> (send_to [response_call (ha_client args) (setMIME ''text/html'' (HtmlResponse 200 out))] args, Inr ()))
      else case shouldServeModule env fv hs full_path of
        Inl e \<Rightarrow> (args, Inl e)
      | Inr True \<Rightarrow> serveModule env full_path args
      | Inr False \<Rightarrow>
          (let (req, hacked) = hackRanges (ha_request args); args = args\<lparr>ha_request := req\<rparr>
           in if \<not> hacked \<and> (rq_ranges req \<noteq> [] \<or> rq_suffixLength req \<noteq> 0)
              then serveRange std_sort env full_path args
              else serveFull env full_path args))"

definition try_serve ::
  "(range list \<Rightarrow> range list) \<Rightarrow> fileserv_env \<Rightarrow> fileserv \<Rightarrow> fs_server \<Rightarrow> path \<Rightarrow> (string \<times> string) list
   \<Rightarrow> fs_args \<Rightarrow> fs_args \<times> cancelable_result result" where
  "try_serve std_sort env fv hs full_path data args =
     (case serve_path std_sort env fv hs full_path data args of
        (args', Inr _) \<Rightarrow> (close_client args', Inr Approve)
      | (args', Inl (UndefinedBehaviour u)) \<Rightarrow> (args', Inl (UndefinedBehaviour u))
      | (args', Inl e) \<Rightarrow> (caught args', Inr Approve))"

definition dot_file :: "path \<Rightarrow> bool" where
  "dot_file p = (case filename p of c # _ \<Rightarrow> c = CHR ''.'' | [] \<Rightarrow> False)"

text \<open>
  What the two handlers have in common; \<open>nodot_blocks\<close> is how they read the option, which is
  where they differ.
\<close>

definition handle_file ::
  "(bool option \<Rightarrow> bool) \<Rightarrow> (request \<Rightarrow> (string \<times> string) list) \<Rightarrow> (range list \<Rightarrow> range list)
   \<Rightarrow> fileserv_env \<Rightarrow> fileserv \<Rightarrow> fs_server \<Rightarrow> fs_args handler" where
  "handle_file nodot_blocks data std_sort env fv hs args not_disabled =
     (if \<not> not_disabled \<or> \<not> hostMatches fv (ha_request args) then (args, Inr Pass)
      else let web_root = getRoot fv hs
           in case expand env web_root (rq_path (ha_request args)) of
             Inl e \<Rightarrow> (args, Inl e)
           | Inr p \<Rightarrow>
               (let full_path = (if fs_is_directory (fe_fs env) p then path_append p [] else p)
                in if \<not> isSubpath web_root full_path then (args, Inr Pass)
                   else case filter_request env fv hs full_path args of
                     (args', Inl e) \<Rightarrow> (args', Inl e)
                   | (args', Inr False) \<Rightarrow> (close_client args', Inr Kill)
                   | (args', Inr True) \<Rightarrow>
                       (case option_bool hs full_path ''nodot'' of
                          Inl e \<Rightarrow> (args', Inl e)
                        | Inr nodot \<Rightarrow>
                            (if nodot_blocks nodot \<and> dot_file full_path
                             then (close_client (send_to [send401 (ha_client args')] args'), Inr Kill)
                             else case findPath env fv full_path of
                               Inl e \<Rightarrow> (args', Inl e)
                             | Inr None \<Rightarrow> (args', Inr Pass)
                             | Inr (Some found) \<Rightarrow>
                                 try_serve std_sort env fv hs found (data (ha_request args')) args'))))"

definition fileserv_handleGET ::
  "(range list \<Rightarrow> range list) \<Rightarrow> fileserv_env \<Rightarrow> fileserv \<Rightarrow> fs_server \<Rightarrow> fs_args handler" where
  "fileserv_handleGET std_sort env = handle_file (\<lambda>nodot. nodot = Some True) (\<lambda>_. []) std_sort env"

definition fileserv_handlePOST ::
  "(range list \<Rightarrow> range list) \<Rightarrow> fileserv_env \<Rightarrow> fileserv \<Rightarrow> fs_server \<Rightarrow> fs_args handler" where
  "fileserv_handlePOST std_sort env =
     handle_file (\<lambda>nodot. nodot \<noteq> None) (\<lambda>req. [(''post'', fe_dump env (rq_postParameters req))]) std_sort env"

section \<open>Confinement\<close>

lemma drop_separator_normal: "normal p \<Longrightarrow> plain_dir (drop_separator p)"
proof (cases p rule: rev_cases)
  case (snoc q e)
  then show "normal p \<Longrightarrow> plain_dir (drop_separator p)"
    by (cases "e = []") (auto simp: normal_def plain_dir_def drop_separator_def)
qed (simp add: drop_separator_def plain_dir_def)

lemma path_append_empty_normal: "normal p \<Longrightarrow> normal (path_append p [])"
  using drop_separator_normal [of p] by (auto simp: path_append_def normal_def plain_dir_def)

lemma expand_normal: "expand env web_root u = Inr p \<Longrightarrow> normal p"
  by (auto simp: expand_def result_simps lexically_normal_normal)

text \<open>The path a request is about, once a directory got its separator.\<close>

definition full_path_of :: "fileserv_env \<Rightarrow> path \<Rightarrow> path" where
  "full_path_of env p = (if fs_is_directory (fe_fs env) p then path_append p [] else p)"

lemma full_path_normal: "normal p \<Longrightarrow> normal (full_path_of env p)"
  by (simp add: full_path_of_def path_append_empty_normal)

lemma path_names_join:
  assumes "list_all (\<lambda>n. n \<noteq> [] \<and> CHR ''/'' \<notin> set n) names" and "names \<noteq> []"
  shows "path_names [] (join names ''/'') = names"
proof -
  have one: "path_names acc n = [acc @ n]" "path_names acc (n @ CHR ''/'' # s) = (acc @ n) # path_names [] s"
    if "CHR ''/'' \<notin> set n" "acc @ n \<noteq> []" for acc n s
    using that by (induction n arbitrary: acc) auto
  show ?thesis using assms
  proof (induction names)
    case (Cons n names)
    then show ?case by (cases names) (simp_all add: join_Cons one)
  qed simp
qed

lemma expand_inside:
  assumes "fe_canonical env root = root" and "plain_dir root" and "root \<noteq> []"
    and "plain_dir names" and "names \<noteq> []" and "list_all (\<lambda>n. CHR ''/'' \<notin> set n) names"
    and "unescape request_path True = Inr (CHR ''/'' # join names ''/'')"
  shows "expand env root request_path = Inr (root @ names)"
proof -
  have names: "path_names [] (join names ''/'') = names"
    using assms(4-6) by (intro path_names_join) (auto simp: plain_dir_def list_all_iff)
  have sep: "drop_separator root = root"
    using assms(2,3) by (metis drop_separator_def last_in_set plain_dir_def)
  have "path_append root (''./'' @ CHR ''/'' # join names ''/'') = root @ [''.''] @ names"
    using assms(3) names sep by (simp add: path_append_def)
  moreover have "normal_loop [] (root @ [''.''] @ names) = root @ names"
    using normal_loop_plain [OF assms(2), of "[]" "[''.''] @ names"] normal_loop_plain [OF assms(4), of root "[]"] assms(5)
    by simp
  ultimately show ?thesis using assms(1,7) by (simp add: expand_def lexically_normal_def)
qed

text \<open>
  (C1) No path leads out of the served directory: whatever a request's path contains (encoded or not,
  with any number of dots), the path it is resolved to has no dot or dot-dot in it, and unless
  it lies below the root the handlers pass without doing anything; while every plain path below
  the root resolves to the file it names.
\<close>

theorem fileserv_confined:
  assumes "getRoot fv hs = root" and "fe_canonical env root = root" and "plain_dir root" and "root \<noteq> []"
    and "expand env root (rq_path (ha_request args)) = Inr p"
  shows "''..'' \<notin> set (full_path_of env p) \<and> ''.'' \<notin> set (full_path_of env p)
    \<and> ((\<nexists>rest. full_path_of env p = root @ rest) \<longrightarrow>
        fileserv_handleGET std_sort env fv hs args b = (args, Inr Pass)
        \<and> fileserv_handlePOST std_sort env fv hs args b = (args, Inr Pass))
    \<and> (plain_dir names \<and> names \<noteq> [] \<and> list_all (\<lambda>n. CHR ''/'' \<notin> set n) names
        \<and> unescape request_path True = Inr (CHR ''/'' # join names ''/'') \<longrightarrow>
        expand env root request_path = Inr (root @ names))"
proof (intro conjI impI)
  have "normal (full_path_of env p)" using assms(5) expand_normal full_path_normal by blast
  then show "''..'' \<notin> set (full_path_of env p)" "''.'' \<notin> set (full_path_of env p)"
    by (simp_all add: normal_def)
  assume "\<nexists>rest. full_path_of env p = root @ rest"
  then have "\<not> isSubpath root (full_path_of env p)" by (auto simp: isSubpath_prefix)
  then show "fileserv_handleGET std_sort env fv hs args b = (args, Inr Pass)"
    "fileserv_handlePOST std_sort env fv hs args b = (args, Inr Pass)"
    using assms(1,5)
    by (simp_all add: fileserv_handleGET_def fileserv_handlePOST_def handle_file_def full_path_of_def Let_def)
next
  assume "plain_dir names \<and> names \<noteq> [] \<and> list_all (\<lambda>n. CHR ''/'' \<notin> set n) names
        \<and> unescape request_path True = Inr (CHR ''/'' # join names ''/'')"
  then show "expand env root request_path = Inr (root @ names)"
    using assms(2-4) by (intro expand_inside) simp_all
qed

definition empty_env :: fileserv_env where
  "empty_env = \<lparr>fe_fs = \<lparr>fs_is_directory = (\<lambda>_. False), fs_content = (\<lambda>p. if p = [''www'', ''f''] then Some ''hello'' else None),
       fs_openable = (\<lambda>_. True), fs_last_write = (\<lambda>_. 0), fs_perms = (\<lambda>_. \<lparr>owner_exec = False, group_exec = False, others_exec = False\<rparr>),
       fs_owner = (\<lambda>_. 0), fs_group = (\<lambda>_. 0), fs_stat_errno = (\<lambda>_. None)\<rparr>,
     fe_db = \<lparr>db_uid = 0, db_passwd = (\<lambda>_. None), db_members = (\<lambda>_. None)\<rparr>, fe_canonical = (\<lambda>p. p),
     fe_hook = (\<lambda>_. None), fe_render = (\<lambda>t d. Inr t), fe_dump = (\<lambda>_. []), fe_exists = (\<lambda>_. False),
     fe_compile = (\<lambda>a b c. Some None), fe_dlopen = (\<lambda>_. None), fe_dlsym = (\<lambda>_. None), fe_now = 0,
     fe_format_time = (\<lambda>_. ''then''), fe_boundary = ''--abcdefghijklmnop''\<rparr>"

definition empty_fileserv :: fileserv where
  "empty_fileserv = \<lparr>fv_hostnames = None, fv_root = None, fv_enableModules = False, fv_defaults = NoDefaults\<rparr>"

definition empty_fs_server :: fs_server where
  "empty_fs_server = \<lparr>hs_webRoot = [''www''], hs_options = Map.empty, hs_configs = Map.empty, hs_getHandlers = [],
     hs_postHandlers = [], hs_webSocketConnectionHandlers = [], hs_webSocketMessageHandlers = Map.empty,
     hs_webSocketCloseHandlers = Map.empty\<rparr>"

definition args_for :: "string \<Rightarrow> fs_args" where
  "args_for p = \<lparr>ha_client = new_client 5 ''::1'', ha_request = new_request\<lparr>rq_method := GET, rq_path := p\<rparr>,
     ha_parts = [], ha_world = new_cache 64, ha_log = []\<rparr>"

theorem fileserv_confined_witness:
  "expand empty_env [''www''] ''/../etc/passwd'' = Inr [''etc'', ''passwd'']
   \<and> fileserv_handleGET id empty_env empty_fileserv empty_fs_server (args_for ''/../etc/passwd'') True
       = (args_for ''/../etc/passwd'', Inr Pass)"
proof -
  have e: "expand empty_env [''www''] ''/../etc/passwd'' = Inr [''etc'', ''passwd'']"
    by (simp add: expand_def empty_env_def unescape_def path_append_def drop_separator_def lexically_normal_def)
  moreover have "getRoot empty_fileserv empty_fs_server = [''www'']"
    by (simp add: getRoot_def empty_fileserv_def empty_fs_server_def)
  moreover have "full_path_of empty_env [''etc'', ''passwd''] = [''etc'', ''passwd'']"
    by (simp add: full_path_of_def empty_env_def)
  moreover have "rq_path (ha_request (args_for ''/../etc/passwd'')) = ''/../etc/passwd''"
    "fe_canonical empty_env [''www''] = [''www'']" "plain_dir [''www'']"
    by (simp_all add: args_for_def empty_env_def plain_dir_def)
  ultimately show ?thesis
    using fileserv_confined [of empty_fileserv empty_fs_server "[''www'']" empty_env "args_for ''/../etc/passwd''"
        "[''etc'', ''passwd'']" id True "[]" "[]"]
    by simp
qed

section \<open>Protected files\<close>

text \<open>What a refusal may send: unauthorised pages and the end of the connection.\<close>

definition denial :: "http_client \<Rightarrow> server_call \<Rightarrow> bool" where
  "denial c call \<longleftrightarrow> call = send401 c \<or> (\<exists>realm. call = send401_realm c realm) \<or> call = CloseClient (cl_id c)
     \<or> call = response_call c (HtmlResponse 401 ''Unauthorized'')"

lemma denial_intros [simp]:
  "denial c (send401 c)" "denial c (send401_realm c realm)" "denial c (CloseClient (cl_id c))"
  by (auto simp: denial_def)

definition only_denials :: "fs_args \<Rightarrow> fs_args \<Rightarrow> bool" where
  "only_denials args args' \<longleftrightarrow> ha_client args' = ha_client args \<and>
     (\<exists>calls. ha_log args' = ha_log args @ calls \<and> calls \<noteq> [] \<and> (\<forall>call \<in> set calls. denial (ha_client args) call))"

lemma only_denials_more:
  "only_denials args args' \<Longrightarrow> denial (ha_client args) call \<Longrightarrow> only_denials args (send_to [call] args')"
  by (auto simp: only_denials_def send_to_def)

lemma only_denials_send: "denial (ha_client args) call \<Longrightarrow> only_denials args (send_to [call] args)"
  by (auto simp: only_denials_def send_to_def)

lemma only_denials_close: "only_denials args args' \<Longrightarrow> only_denials args (close_client args')"
proof -
  assume d: "only_denials args args'"
  then have "ha_client args' = ha_client args" by (simp add: only_denials_def)
  with d show ?thesis by (auto simp: close_client_def denial_def intro: only_denials_more)
qed

text \<open>
  A path is protected for a request when it is a configuration file, or when credentials are
  configured for it and the request does not carry them.
\<close>

definition well_configured :: "option_value \<Rightarrow> string \<Rightarrow> string \<Rightarrow> bool" where
  "well_configured auth u pw \<longleftrightarrow> json_at auth ''username'' = Inr (OString u) \<and> json_at auth ''password'' = Inr (OString pw)
     \<and> (json_contains auth ''realm'' \<longrightarrow> (\<exists>realm. json_at auth ''realm'' = Inr (OString realm)))"

definition protected_for :: "fs_server \<Rightarrow> path \<Rightarrow> request \<Rightarrow> bool" where
  "protected_for hs p req \<longleftrightarrow>
     (filename p = ''.algiz'' \<and> getOption hs p ''auth'' = Inr None)
     \<or> (\<exists>auth u pw. getOption hs p ''auth'' = Inr (Some auth) \<and> well_configured auth u pw
          \<and> (checkAuthentication req u pw \<noteq> Success \<or> filename p = ''.algiz''))"

lemma check_credentials_refused:
  assumes "well_configured auth u pw" and "checkAuthentication (ha_request args) u pw \<noteq> Success"
  shows "\<exists>args'. check_credentials args auth = (args', Inr True) \<and> only_denials args args'"
  using assms
  by (cases "checkAuthentication (ha_request args) u pw")
    (auto simp: check_credentials_def well_configured_def get_string_def intro!: only_denials_send)

lemma authFailed_protected:
  assumes "protected_for hs p (ha_request args)"
  shows "\<exists>args'. authFailed hs p args = (args', Inr True) \<and> only_denials args args'"
proof -
  have config_file: "\<exists>args'. (send_to [send401 (ha_client args)] args, Inr True) = (args', Inr True) \<and> only_denials args args'"
    by (auto simp: denial_def intro: only_denials_send)
  from assms consider (cfg) "filename p = ''.algiz''" "getOption hs p ''auth'' = Inr None"
    | (auth) auth u pw where "getOption hs p ''auth'' = Inr (Some auth)" "well_configured auth u pw"
        "checkAuthentication (ha_request args) u pw \<noteq> Success"
    | (authed) auth u pw where "getOption hs p ''auth'' = Inr (Some auth)" "well_configured auth u pw"
        "checkAuthentication (ha_request args) u pw = Success" "filename p = ''.algiz''"
    unfolding protected_for_def by blast
  then show ?thesis
  proof cases
    case cfg
    then show ?thesis using config_file by (simp add: authFailed_def)
  next
    case auth
    from check_credentials_refused [OF auth(2,3)] auth(1) show ?thesis by (auto simp: authFailed_def)
  next
    case authed
    then have "check_credentials args auth = (args, Inr False)"
      by (simp add: check_credentials_def well_configured_def get_string_def)
    with authed config_file show ?thesis by (simp add: authFailed_def)
  qed
qed



text \<open>
  A configuration that names a user but no password protects nothing: the check is skipped with
  a warning.
\<close>

lemma incomplete_credentials_open:
  assumes "getOption hs p ''auth'' = Inr (Some (OObject [(''username'', OString u)]))" and "filename p \<noteq> ''.algiz''"
  shows "authFailed hs p args = (args, Inr False)"
  using assms by (simp add: authFailed_def check_credentials_def json_at_def get_string_def)

text \<open>\<open>POST\<close> looks only at whether the option \<open>nodot\<close> is there: \<open>nodot: false\<close> blocks dot files too.\<close>

lemma post_nodot_false_blocks:
  assumes "hostMatches fv (ha_request args)" and "expand env (getRoot fv hs) (rq_path (ha_request args)) = Inr p"
    and "isSubpath (getRoot fv hs) (full_path_of env p)"
    and "filter_request env fv hs (full_path_of env p) args = (args', Inr True)"
    and "option_bool hs (full_path_of env p) ''nodot'' = Inr (Some False)" and "dot_file (full_path_of env p)"
  shows "snd (fileserv_handlePOST std_sort env fv hs args True) = Inr Kill"
  using assms by (auto simp: fileserv_handlePOST_def handle_file_def full_path_of_def Let_def)

section \<open>What is sent\<close>

text \<open>The bytes a list of calls puts on the wire.\<close>

fun sent :: "server_call list \<Rightarrow> string" where
  "sent [] = []"
| "sent (SendTo c s # calls) = s @ sent calls"
| "sent (CloseClient c # calls) = sent calls"

lemma sent_append: "sent (xs @ ys) = sent xs @ sent ys"
  by (induction xs rule: sent.induct) simp_all

lemma stream_read_inside:
  assumes "\<not> st_failed st" and "st_pos st + to_read \<le> length content" and "to_read \<le> length (st_buffer st)"
  shows "stream_read content to_read st = \<lparr>st_pos = st_pos st + to_read, st_failed = False,
      st_buffer = take to_read (drop (st_pos st) content) @ drop to_read (st_buffer st)\<rparr>"
  using assms by (simp add: stream_read_def Let_def min_absorb1)

text \<open>The sending loop: inside the file it sends exactly the bytes asked for, in pieces of the chunk size.\<close>

lemma send_loop_exact:
  assumes "\<not> st_failed st" and "st_pos st + remaining \<le> length content"
    and "min chunkSize remaining \<le> length (st_buffer st)"
  shows "\<exists>calls st'. send_loop cid content remaining st = (calls, st') \<and> sent calls = take remaining (drop (st_pos st) content)
    \<and> \<not> st_failed st' \<and> length (st_buffer st') = length (st_buffer st)"
  using assms
proof (induction remaining arbitrary: st rule: less_induct)
  case (less remaining)
  show ?case
  proof (cases "remaining = 0")
    case True
    then show ?thesis using less.prems by (simp add: send_loop.simps)
  next
    case False
    let ?n = "min chunkSize remaining"
    have n: "0 < ?n" "?n \<le> remaining" using False by (simp_all add: chunkSize_def)
    have read: "stream_read content ?n st = \<lparr>st_pos = st_pos st + ?n, st_failed = False,
        st_buffer = take ?n (drop (st_pos st) content) @ drop ?n (st_buffer st)\<rparr>" (is "_ = ?st")
      using less.prems by (intro stream_read_inside) auto
    have len: "length (st_buffer ?st) = length (st_buffer st)" "take ?n (st_buffer ?st) = take ?n (drop (st_pos st) content)"
      using less.prems n by (simp_all add: min_absorb2)
    have "\<exists>calls st'. send_loop cid content (remaining - ?n) ?st = (calls, st')
        \<and> sent calls = take (remaining - ?n) (drop (st_pos ?st) content)
        \<and> \<not> st_failed st' \<and> length (st_buffer st') = length (st_buffer ?st)"
      using n less.prems len(1) by (intro less.IH) auto
    then obtain calls st' where rest: "send_loop cid content (remaining - ?n) ?st = (calls, st')"
      "sent calls = take (remaining - ?n) (drop (st_pos st + ?n) content)"
      "\<not> st_failed st'" "length (st_buffer st') = length (st_buffer st)"
      using len(1) by auto
    have "take remaining (drop (st_pos st) content)
        = take ?n (drop (st_pos st) content) @ take (remaining - ?n) (drop (st_pos st + ?n) content)"
      using take_add [of ?n "remaining - ?n" "drop (st_pos st) content"] n by (simp add: add.commute)
    then have "sent (SendTo cid (take ?n (st_buffer ?st)) # calls) = take remaining (drop (st_pos st) content)"
      using rest(2) len(2) by simp
    moreover have "send_loop cid content remaining st = (SendTo cid (take ?n (st_buffer ?st)) # calls, st')"
      using False read rest(1) by (subst send_loop.simps) (simp add: Let_def)
    ultimately show ?thesis using rest(3,4) by blast
  qed
qed

lemma length_zeros [simp]: "length (zeros n) = n"
  by (simp add: zeros_def)

text \<open>
  (C14) Whole files: a file that can be opened is sent as a \<open>200\<close> response whose announced length is
  the length of the file, followed by exactly the bytes of the file, however large it is.
\<close>

theorem serveFull_exact:
  assumes "fs_content (fe_fs env) p = Some content" and "fs_openable (fe_fs env) p"
  shows "\<exists>calls r. serveFull env p args = (send_to calls args, Inr ())
    \<and> sent calls = noContent r @ content \<and> rs_code r = 200
    \<and> map_of (rs_headers r) ''content-length'' = Some (to_string_nat (length content))"
proof -
  let ?r = "putHeader ''content-length'' (to_string_nat (length content)) (setMIME (getMIME (extension p))
      (setAcceptRanges True (setLastModified (fe_format_time env) (lastWritten (fe_fs env) p) (HtmlResponse 200 []))))"
  obtain calls st where loop: "send_loop (cl_id (ha_client args)) content (length content)
      \<lparr>st_pos = 0, st_failed = False, st_buffer = zeros (min chunkSize (length content))\<rparr> = (calls, st)"
    "sent calls = content"
    using send_loop_exact [of "\<lparr>st_pos = 0, st_failed = False, st_buffer = zeros (min chunkSize (length content))\<rparr>"
        "length content" content "cl_id (ha_client args)"] by auto
  have "serveFull env p args = (send_to (SendTo (cl_id (ha_client args)) (noContent ?r) # calls) args, Inr ())"
    using assms loop(1) by (simp add: serveFull_def Let_def)
  moreover have "sent (SendTo (cl_id (ha_client args)) (noContent ?r) # calls) = noContent ?r @ content"
    using loop(2) by simp
  moreover have "rs_code ?r = 200"
    by (simp add: setMIME_def setAcceptRanges_def setLastModified_def)
  moreover have "map_of (rs_headers ?r) ''content-length'' = Some (to_string_nat (length content))" by simp
  ultimately show ?thesis by blast
qed

theorem serveFull_exact_witness:
  "\<exists>calls r. serveFull empty_env [''www'', ''f''] (args_for ''/f'') = (send_to calls (args_for ''/f''), Inr ())
     \<and> sent calls = noContent r @ ''hello''"
  using serveFull_exact [of empty_env "[''www'', ''f'']" "''hello''" "args_for ''/f''"]
  by (auto simp: empty_env_def)

lemma range_size_nat: "s \<le> e \<Longrightarrow> unat e + 1 < 2 ^ 64 \<Longrightarrow> unat (range_size (s, e)) = unat e - unat s + 1"
proof -
  assume le: "s \<le> e" and bound: "unat e + 1 < 2 ^ 64"
  have "unat (e - s) = unat e - unat s" using le by (simp add: unat_sub word_le_nat_alt)
  moreover have "unat (e - s) + 1 < 2 ^ 64" using bound le by (simp add: \<open>unat (e - s) = unat e - unat s\<close>)
  ultimately show "unat (range_size (s, e)) = unat e - unat s + 1"
    by (simp add: range_size_def unat_word_ariths)
qed

text \<open>
  (C13) One range: a range whose ends are in order and inside the file is answered with \<open>206\<close>, the
  range and the file's size in \<open>Content-Range\<close>, its length as the announced length, and exactly
  the bytes from its first to its last.
\<close>

theorem serveRange_exact:
  assumes "fs_content (fe_fs env) p = Some content" and "fs_openable (fe_fs env) p"
    and "rq_ranges (ha_request args) = [(s, e)]" and "rq_suffixLength (ha_request args) = 0"
    and "std_sort [(s, e)] = [(s, e)]" and "s \<le> e" and "unat e < length content" and "length content < 2 ^ 64"
  shows "\<exists>calls r. serveRange std_sort env p args = (send_to calls args, Inr ())
    \<and> sent calls = noContent r @ take (unat e - unat s + 1) (drop (unat s) content) \<and> rs_code r = 206
    \<and> map_of (rs_headers r) ''content-length'' = Some (to_string_nat (unat e - unat s + 1))
    \<and> map_of (rs_headers r) ''content-range'' = Some (''bytes '' @ to_string_nat (unat s) @ ''-''
        @ to_string_nat (unat e) @ ''/'' @ to_string_nat (length content))"
proof -
  let ?cid = "cl_id (ha_client args)" and ?n = "unat e - unat s + 1"
  let ?r = "range_response env p (length content) (ha_request args)"
  have size: "unat (range_size (s, e)) = ?n" using range_size_nat [OF assms(6)] assms(7,8) by simp
  have order: "unat s \<le> unat e" using assms(6) by (simp add: word_le_nat_alt)
  have same: "(ha_request args)\<lparr>rq_ranges := [(s, e)]\<rparr> = ha_request args"
    using assms(3) by (cases "ha_request args") simp
  have "e \<le> of_nat (length content)"
    using assms(7,8) by (simp add: word_le_nat_alt unat_size_of_nat)
  then have "valid std_sort (of_nat (length content)) (ha_request args)
      = ((ha_request args)\<lparr>rq_ranges := [(s, e)]\<rparr>, True)"
    using assms(3-5) by (simp add: valid_def)
  then have valid: "valid std_sort (of_nat (length content)) (ha_request args) = (ha_request args, True)"
    by (simp only: same)
  obtain calls st where loop: "send_loop ?cid content ?n \<lparr>st_pos = unat s, st_failed = False, st_buffer = zeros (min chunkSize ?n)\<rparr> = (calls, st)"
    "sent calls = take ?n (drop (unat s) content)"
    using send_loop_exact [of "\<lparr>st_pos = unat s, st_failed = False, st_buffer = zeros (min chunkSize ?n)\<rparr>" ?n content ?cid]
      assms(7) order by auto
  have "serveRange std_sort env p args = (send_to (SendTo ?cid (noContent ?r) # calls) args, Inr ())"
    using assms(1-4) valid loop(1) size
    by (simp add: serveRange_def Let_def resize_buffer_def send_to_def)
  moreover have "sent (SendTo ?cid (noContent ?r) # calls) = noContent ?r @ take ?n (drop (unat s) content)"
    using loop(2) by simp
  moreover have "rs_code ?r = 206" "map_of (rs_headers ?r) ''content-length'' = Some (to_string_nat ?n)"
    "map_of (rs_headers ?r) ''content-range'' = Some (''bytes '' @ to_string_nat (unat s) @ ''-''
        @ to_string_nat (unat e) @ ''/'' @ to_string_nat (length content))"
    using assms(3,4) size
    by (simp_all add: range_response_def Let_def setLastModified_def setAcceptRanges_def map_of_omap_put)
  ultimately show ?thesis by blast
qed

theorem serveRange_exact_witness:
  "\<exists>calls r. serveRange id empty_env [''www'', ''f''] ((args_for ''/f'')\<lparr>ha_request := new_request\<lparr>rq_ranges := [(1, 3)]\<rparr>\<rparr>)
       = (send_to calls ((args_for ''/f'')\<lparr>ha_request := new_request\<lparr>rq_ranges := [(1, 3)]\<rparr>\<rparr>), Inr ())
     \<and> sent calls = noContent r @ ''ell''"
proof -
  have "fs_content (fe_fs empty_env) [''www'', ''f''] = Some ''hello''" "fs_openable (fe_fs empty_env) [''www'', ''f'']"
    by (simp_all add: empty_env_def)
  moreover have "rq_suffixLength new_request = 0" by (simp add: new_request_def)
  ultimately obtain calls r where
    "serveRange id empty_env [''www'', ''f''] ((args_for ''/f'')\<lparr>ha_request := new_request\<lparr>rq_ranges := [(1, 3)]\<rparr>\<rparr>)
       = (send_to calls ((args_for ''/f'')\<lparr>ha_request := new_request\<lparr>rq_ranges := [(1, 3)]\<rparr>\<rparr>), Inr ())"
    "sent calls = noContent r @ take (unat (3 :: size_t) - unat (1 :: size_t) + 1) (drop (unat (1 :: size_t)) ''hello'')"
    using serveRange_exact [of empty_env "[''www'', ''f'']" "''hello''"
        "(args_for ''/f'')\<lparr>ha_request := new_request\<lparr>rq_ranges := [(1, 3)]\<rparr>\<rparr>" 1 3 id] by auto
  then show ?thesis by (auto simp: take_Cons')
qed

text \<open>
  A request for the last bytes of a file only, \<open>Range: bytes=-500\<close>, has no ranges and reaches the
  failing assertion of \<open>serveRange\<close>.
\<close>

lemma suffix_range_undefined:
  assumes "fs_content (fe_fs env) p = Some content" and "fs_openable (fe_fs env) p"
    and "rq_ranges (ha_request args) = []" and "unat (rq_suffixLength (ha_request args)) \<le> length content"
    and "length content < 2 ^ 64"
  shows "snd (serveRange std_sort env p args) = Inl (UndefinedBehaviour ''serveRange: no ranges'')"
proof -
  have "\<not> of_nat (length content) < rq_suffixLength (ha_request args)"
    using assms(4,5) by (simp add: word_less_nat_alt unat_size_of_nat)
  with assms show ?thesis by (simp add: serveRange_def valid_def Let_def)
qed

end
