(* ===== verification/Small_Plugins.thy ===== *)
theory Small_Plugins
  imports Fileserv
begin

text \<open>
  The small plugins: \<open>Calculator\<close>, \<open>Redirect\<close>, \<open>Default404\<close>, \<open>Logger\<close> and \<open>WSEcho\<close>
  (\<open>src/src/plugins\<close>).  A handler works on the arguments of the HTTP server's model; what it
  sends and closes is appended to their log.

  The locale \<open>plain_plugin\<close> is what the chain of handlers relies on: a handler that is disabled
  passes and does nothing, one that passes has done nothing, and what it does is only to append
  to the log.
\<close>

section \<open>The contract of a handler\<close>

locale plain_plugin =
  fixes handle :: "'w handler_args handler"
  assumes disabled: "handle args False = (args, Inr Pass)"
    and passed: "handle args b = (args', Inr res) \<Longrightarrow> res = Pass \<Longrightarrow> args' = args"
    and verdict: "handle args b = (args', Inr res) \<Longrightarrow> res = Pass \<or> res = Approve"
    and appends: "handle args b = (args', r) \<Longrightarrow> \<exists>calls. args' = args\<lparr>ha_log := ha_log args @ calls\<rparr>"
begin

text \<open>In a chain the handler either answers for the chain or is as good as absent.\<close>

lemma chain_step:
  "beforeMulti args (Some handle # handlers) b =
     (case handle args b of
        (args', Inl e) \<Rightarrow> (args', Inl e)
      | (args', Inr res) \<Rightarrow>
          if res = Approve then (args', Inr (True, KillResult)) else beforeMulti args handlers b)"
proof (cases "handle args b")
  case (Pair args' r)
  show ?thesis
  proof (cases r)
    case (Inr res)
    with passed [of args b args' res] verdict [of args b args' res] Pair show ?thesis by auto
  qed (simp add: Pair)
qed

lemma chain_disabled: "beforeMulti args (Some handle # handlers) False = beforeMulti args handlers False"
  by (simp add: disabled)

end

text \<open>Registering a handler with the server and taking it out again.\<close>

definition register_get :: "'w handler_args handler \<Rightarrow> ('w, 'v) http_server \<Rightarrow> ('w, 'v) http_server" where
  "register_get h hs = hs\<lparr>hs_getHandlers := hs_getHandlers hs @ [Some h]\<rparr>"

definition register_post :: "'w handler_args handler \<Rightarrow> ('w, 'v) http_server \<Rightarrow> ('w, 'v) http_server" where
  "register_post h hs = hs\<lparr>hs_postHandlers := hs_postHandlers hs @ [Some h]\<rparr>"

definition unregister_get :: "'w handler_args handler \<Rightarrow> ('w, 'v) http_server \<Rightarrow> ('w, 'v) http_server" where
  "unregister_get h hs = hs\<lparr>hs_getHandlers := fst (erase (hs_getHandlers hs) (Some h))\<rparr>"

definition unregister_post :: "'w handler_args handler \<Rightarrow> ('w, 'v) http_server \<Rightarrow> ('w, 'v) http_server" where
  "unregister_post h hs = hs\<lparr>hs_postHandlers := fst (erase (hs_postHandlers hs) (Some h))\<rparr>"

section \<open>Calculator\<close>

text \<open>Arithmetic on \<open>int64_t\<close>: a result that does not fit is undefined.\<close>

definition int64 :: "int \<Rightarrow> int result" where
  "int64 v = (if - (2 ^ 63) \<le> v \<and> v < 2 ^ 63 then Inr v else Inl (UndefinedBehaviour ''signed overflow''))"

text \<open>Division of C++ truncates.\<close>

definition cquot :: "int \<Rightarrow> int \<Rightarrow> int" where
  "cquot a b = sgn a * sgn b * (abs a div abs b)"

definition calculate :: "string \<Rightarrow> int \<Rightarrow> int \<Rightarrow> string option result" where
  "calculate oper left right =
     (if oper = ''+'' \<or> oper = ''plus'' then rmap (\<lambda>v. Some (to_string_int v)) (int64 (left + right))
      else if oper = ''-'' \<or> oper = ''min'' then rmap (\<lambda>v. Some (to_string_int v)) (int64 (left - right))
      else if oper = ''*'' \<or> oper = ''mult'' then rmap (\<lambda>v. Some (to_string_int v)) (int64 (left * right))
      else if oper = ''/'' \<or> oper = ''div''
      then if right = 0 then Inr (Some ''Division by zero'')
           else rmap (\<lambda>v. Some (to_string_int v)) (int64 (cquot left right))
      else Inr None)"

definition send_and_close :: "response \<Rightarrow> 'w handler_args \<Rightarrow> 'w handler_args" where
  "send_and_close r args = logged [response_call (ha_client args) r, CloseClient (cl_id (ha_client args))] args"

definition calculator_handle :: "'w handler_args handler" where
  "calculator_handle args not_disabled =
     (if \<not> not_disabled then (args, Inr Pass)
      else if length (ha_parts args) = 3
      then case rbind (parseLong_string (ha_parts args ! 1)) (\<lambda>left.
                  rmap (\<lambda>right. (left, right)) (parseLong_string (ha_parts args ! 2))) of
             Inl (InvalidArgument _) \<Rightarrow> (args, Inr Pass)
           | Inl e \<Rightarrow> (args, Inl e)
           | Inr (left, right) \<Rightarrow>
               (case calculate (hd (ha_parts args)) left right of
                  Inl e \<Rightarrow> (args, Inl e)
                | Inr None \<Rightarrow> (args, Inr Pass)
                | Inr (Some out) \<Rightarrow>
                    (send_and_close (setMIME ''text/plain'' (HtmlResponse 200 out)) args, Inr Approve))
      else (args, Inr Pass))"

definition calculator_postinit :: "('w, 'v) http_server \<Rightarrow> ('w, 'v) http_server" where
  "calculator_postinit = register_get calculator_handle"

definition calculator_cleanup :: "('w, 'v) http_server \<Rightarrow> ('w, 'v) http_server" where
  "calculator_cleanup = unregister_get calculator_handle"

section \<open>Redirect\<close>

text \<open>The option \<open>base\<close> of the plugin's configuration; without one the scheme is changed to https.\<close>

definition redirect_base :: "option_value option \<Rightarrow> string" where
  "redirect_base base =
     (case base of
        Some (OString s) \<Rightarrow>
          if s \<noteq> [] then (if last s = CHR ''/'' then butlast s else s) else ''https''
      | _ \<Rightarrow> ''https'')"

definition redirect_location :: "string \<Rightarrow> request \<Rightarrow> string" where
  "redirect_location base req =
     (let host = getHeader req ''host'';
          base_view = (if base = ''https'' \<and> host \<noteq> [] then ''https://'' @ host else base)
      in if rq_path req = [] \<or> hd (rq_path req) \<noteq> CHR ''/'' then base_view @ ''/'' @ pathWithParameters req
         else base_view @ pathWithParameters req)"

definition redirect_response :: "string \<Rightarrow> request \<Rightarrow> response" where
  "redirect_response base req =
     setHeader ''location'' (redirect_location base req) (setNoContentType True (HtmlResponse 301 []))"

text \<open>\<open>client.close()\<close> leaves a connection open that is kept alive.\<close>

definition redirect_handle :: "string \<Rightarrow> 'w handler_args handler" where
  "redirect_handle base args not_disabled =
     (if \<not> not_disabled then (args, Inr Pass)
      else (logged (response_call (ha_client args) (redirect_response base (ha_request args))
              # (if cf_keepAlive (cl_flags (ha_client args)) then [] else [CloseClient (cl_id (ha_client args))])) args,
            Inr Approve))"

definition redirect_postinit :: "option_value option \<Rightarrow> ('w, 'v) http_server \<Rightarrow> string \<times> ('w, 'v) http_server" where
  "redirect_postinit config hs = (redirect_base config, register_get (redirect_handle (redirect_base config)) hs)"

definition redirect_cleanup :: "string \<Rightarrow> ('w, 'v) http_server \<Rightarrow> ('w, 'v) http_server" where
  "redirect_cleanup base = unregister_get (redirect_handle base)"

section \<open>Default404\<close>

text \<open>
  \<open>fs_path\<close> resolves the configured name; \<open>render\<close> is the template engine (inja), called for files
  whose name ends in \<open>.t\<close>.
\<close>

definition default404_content ::
  "filesystem \<Rightarrow> (string \<Rightarrow> path) \<Rightarrow> (string \<Rightarrow> (string \<times> string) list \<Rightarrow> string result) \<Rightarrow> option_value option \<Rightarrow> request \<Rightarrow> string result" where
  "default404_content fs fs_path render file req =
     rmap (\<lambda>content. if content = [] then ''404 Not Found'' else content)
       (case file of
          None \<Rightarrow> Inr []
        | Some v \<Rightarrow> rbind (get_string v) (\<lambda>name. rbind (readFile fs (fs_path name)) (\<lambda>content.
            if extension (fs_path name) = ''.t'' then render content [(''path'', rq_path req)] else Inr content)))"

definition default404_handle ::
  "filesystem \<Rightarrow> (string \<Rightarrow> path) \<Rightarrow> (string \<Rightarrow> (string \<times> string) list \<Rightarrow> string result) \<Rightarrow> option_value option \<Rightarrow> 'w handler_args handler" where
  "default404_handle fs fs_path render file args not_disabled =
     (if \<not> not_disabled then (args, Inr Pass)
      else case default404_content fs fs_path render file (ha_request args) of
        Inl e \<Rightarrow> (args, Inl e)
      | Inr content \<Rightarrow> (send_and_close (setMIME ''text/html'' (HtmlResponse 404 content)) args, Inr Approve))"

definition default404_postinit where
  "default404_postinit fs fs_path render file = register_get (default404_handle fs fs_path render file)"

definition default404_cleanup where
  "default404_cleanup fs fs_path render file = unregister_get (default404_handle fs fs_path render file)"

section \<open>Logger\<close>

datatype log_line = Info string | Warn string

definition quoted :: "string \<Rightarrow> string" where
  "quoted s = CHR 0x22 # s @ [CHR 0x22]"

text \<open>\<open>who\<close> is the description of the server and the client that begins a line.\<close>

definition logger_header :: "request \<Rightarrow> string \<times> string \<Rightarrow> log_line list" where
  "logger_header req names =
     (case names of (upper, lower) \<Rightarrow>
        (case map_of (rq_headers req) lower of
           Some v \<Rightarrow> [Info (lower @ '': '' @ quoted v)]
         | None \<Rightarrow>
             (case map_of (rq_headers req) upper of
                Some v \<Rightarrow> [Info (upper @ '': '' @ quoted v)]
              | None \<Rightarrow> if lower = ''host'' then [Warn ''No Host header''] else [])))"

definition logger_lines :: "string \<Rightarrow> request \<Rightarrow> log_line list" where
  "logger_lines who req =
     (if length (rq_path req) \<le> 2048
      then Info (who @ ''Received request for '' @ quoted (escapeANSI (rq_path req)))
      else Info (who @ ''Received request for a really large path...''))
     # concat (map (logger_header req) [(''Host'', ''host''), (''Range'', ''range'')])"

text \<open>
  The lines go to the terminal and not to the client; the handler ignores its flag.  What the
  chain sees of a run is its verdict.
\<close>

definition logger_run :: "string \<Rightarrow> 'w handler_args \<Rightarrow> bool \<Rightarrow> log_line list \<times> cancelable_result" where
  "logger_run who args not_disabled = (logger_lines who (ha_request args), Pass)"

definition logger_handle :: "string \<Rightarrow> 'w handler_args handler" where
  "logger_handle who args not_disabled = (args, Inr (snd (logger_run who args not_disabled)))"

definition logger_postinit :: "string \<Rightarrow> ('w, 'v) http_server \<Rightarrow> ('w, 'v) http_server" where
  "logger_postinit who hs = register_post (logger_handle who) (register_get (logger_handle who) hs)"

definition logger_cleanup :: "string \<Rightarrow> ('w, 'v) http_server \<Rightarrow> ('w, 'v) http_server" where
  "logger_cleanup who hs = unregister_post (logger_handle who) (unregister_get (logger_handle who) hs)"

section \<open>WSEcho\<close>

definition wsecho_handleMessage :: "'w ws_message_args handler" where
  "wsecho_handleMessage args not_disabled =
     (if \<not> not_disabled then (args, Inr Pass)
      else (args\<lparr>wm_log := wm_log args @ map (\<lambda>c. case c of Send s \<Rightarrow> SendTo (cl_id (wm_client args)) s
                                | _ \<Rightarrow> CloseClient (cl_id (wm_client args)))
                  (sendWebSocket (wm_message args) False 255)\<rparr>, Inr Approve))"

text \<open>The server the arguments refer to is a second component of the state.\<close>

definition wsecho_handleConnect ::
  "'w ws_connection_args \<Rightarrow> bool \<Rightarrow> ('w, 'v) http_server \<Rightarrow> ('w ws_connection_args \<times> ('w, 'v) http_server) \<times> cancelable_result" where
  "wsecho_handleConnect args not_disabled hs =
     (if \<not> not_disabled then ((args, hs), Pass)
      else if ''echo'' \<in> set (wa_protocols args)
      then ((args\<lparr>wa_acceptedProtocol := ''echo''\<rparr>,
             registerWebSocketMessageHandler (ha_client args) (Some wsecho_handleMessage) hs), Approve)
      else ((args, hs), Pass))"

text \<open>What the chain of connection handlers sees of it.\<close>

definition wsecho_connectionHandler :: "'w ws_connection_args handler" where
  "wsecho_connectionHandler args not_disabled =
     (if not_disabled \<and> ''echo'' \<in> set (wa_protocols args)
      then (args\<lparr>wa_acceptedProtocol := ''echo''\<rparr>, Inr Approve) else (args, Inr Pass))"

definition wsecho_postinit :: "('w, 'v) http_server \<Rightarrow> ('w, 'v) http_server" where
  "wsecho_postinit hs = hs\<lparr>hs_webSocketConnectionHandlers :=
     hs_webSocketConnectionHandlers hs @ [Some wsecho_connectionHandler]\<rparr>"

text \<open>
  \<open>cleanup\<close> drops the plugin's handlers, so the server's weak pointers to them expire, and then
  removes the expired ones.
\<close>

definition expire :: "('p option \<Rightarrow> bool) \<Rightarrow> (int \<rightharpoonup> 'p option list) \<Rightarrow> (int \<rightharpoonup> 'p option list)" where
  "expire gone m = (\<lambda>i. map_option (map (\<lambda>h. if gone h then None else h)) (m i))"

definition wsecho_cleanup :: "('w, 'v) http_server \<Rightarrow> ('w, 'v) http_server" where
  "wsecho_cleanup hs = cleanWebSocketHandlers (hs\<lparr>hs_webSocketMessageHandlers :=
     expire (\<lambda>h. h = Some wsecho_handleMessage) (hs_webSocketMessageHandlers hs),
     hs_webSocketConnectionHandlers := fst (erase (hs_webSocketConnectionHandlers hs) (Some wsecho_connectionHandler))\<rparr>)"

section \<open>The handlers keep the contract\<close>

lemma logged_appends: "\<exists>calls'. logged calls args = args\<lparr>ha_log := ha_log args @ calls'\<rparr>"
  by (auto simp: logged_def)

lemma no_calls: "\<exists>calls. args = args\<lparr>ha_log := ha_log args @ calls\<rparr>"
  by (rule exI [of _ "[]"]) simp

lemmas keeps_contract = logged_appends no_calls

interpretation calculator: plain_plugin calculator_handle
  by unfold_locales
    (auto simp: calculator_handle_def send_and_close_def intro: keeps_contract
      split: if_splits sum.splits option.splits prod.splits exn.splits)

interpretation redirect: plain_plugin "redirect_handle base"
  by unfold_locales (auto simp: redirect_handle_def intro: keeps_contract split: if_splits)

interpretation default404: plain_plugin "default404_handle fs fs_path render config"
  by unfold_locales
    (auto simp: default404_handle_def send_and_close_def intro: keeps_contract split: if_splits sum.splits)

interpretation logger: plain_plugin "logger_handle who"
  by unfold_locales (auto simp: logger_handle_def logger_run_def intro: keeps_contract)


section \<open>The calculator, verified\<close>

lemma digit_run:
  assumes "list_all isNumericChar ds" and "ds \<noteq> []"
  shows "strto_scan ds = ((False, digits_value ds), [])" and "strto_scan (CHR ''-'' # ds) = ((True, digits_value ds), [])"
proof -
  have all: "takeWhile isNumericChar ds = ds" using assms(1) by (simp add: list_all_iff takeWhile_eq_all_conv)
  obtain d ds' where ds: "ds = d # ds'" "48 \<le> ord d" "ord d \<le> 57"
    using assms by (cases ds) (auto simp: isNumericChar_def)
  then have "\<not> c_isspace d" "d \<noteq> CHR ''-''" "d \<noteq> CHR ''+''"
    by (auto simp: c_isspace_def ord_def)
  then have "sign_split (dropWhile c_isspace ds) = (False, ds)"
    "sign_split (dropWhile c_isspace (CHR ''-'' # ds)) = (True, ds)"
    using ds(1) by (simp_all add: sign_split_def) (simp_all add: c_isspace_def ord_def)
  with assms(2) show "strto_scan ds = ((False, digits_value ds), [])"
    "strto_scan (CHR ''-'' # ds) = ((True, digits_value ds), [])"
    by (simp_all add: strto_scan_def all Let_def)
qed

lemma c_str_digits: "list_all isNumericChar ds \<Longrightarrow> c_str ds = ds"
  by (auto simp: c_str_def list_all_iff takeWhile_eq_all_conv isNumericChar_def ord_def)

text \<open>\<open>parseLong\<close> reads back every \<open>int64_t\<close> that \<open>std::to_string\<close> writes.\<close>

lemma parseLong_to_string:
  assumes "- (2 ^ 63) \<le> x" and "x < 2 ^ 63"
  shows "parseLong_string (to_string_int x) = Inr x"
proof -
  note ds = to_string_nat_digits [of "nat (- x)"] to_string_nat_digits [of "nat x"]
  have "c_str (CHR ''-'' # to_string_nat (nat (- x))) = CHR ''-'' # to_string_nat (nat (- x))"
    using c_str_digits [of "to_string_nat (nat (- x))"] ds by (simp add: c_str_def)
  then show ?thesis
    using assms ds
    by (auto simp: parseLong_string_def to_string_int_def digit_run c_str_digits digits_value_to_string_nat clamp_long_def)
qed

definition in_int64 :: "int \<Rightarrow> bool" where
  "in_int64 v \<longleftrightarrow> - (2 ^ 63) \<le> v \<and> v < 2 ^ 63"

text \<open>The page with a number on it, or the overflow.\<close>

definition calculator_answer :: "'w handler_args \<Rightarrow> int \<Rightarrow> 'w handler_args \<times> cancelable_result result" where
  "calculator_answer args v =
     (if in_int64 v then (send_and_close (setMIME ''text/plain'' (HtmlResponse 200 (to_string_int v))) args, Inr Approve)
      else (args, Inl (UndefinedBehaviour ''signed overflow'')))"

lemma calculator_run:
  assumes "ha_parts args = [oper, to_string_int x, to_string_int y]" and "in_int64 x" and "in_int64 y"
  shows "calculator_handle args True =
    (case calculate oper x y of
       Inl e \<Rightarrow> (args, Inl e)
     | Inr None \<Rightarrow> (args, Inr Pass)
     | Inr (Some out) \<Rightarrow> (send_and_close (setMIME ''text/plain'' (HtmlResponse 200 out)) args, Inr Approve))"
  using assms parseLong_to_string [of x] parseLong_to_string [of y]
  by (simp add: calculator_handle_def in_int64_def)

lemma calculator_number:
  assumes "calculate oper x y = rmap (\<lambda>v. Some (to_string_int v)) (int64 v)"
  shows "(case calculate oper x y of
       Inl e \<Rightarrow> (args, Inl e)
     | Inr None \<Rightarrow> (args, Inr Pass)
     | Inr (Some out) \<Rightarrow> (send_and_close (setMIME ''text/plain'' (HtmlResponse 200 out)) args, Inr Approve))
    = calculator_answer args v"
  using assms by (simp add: calculator_answer_def int64_def in_int64_def)

lemma cquot_truncates:
  assumes "y \<noteq> 0"
  obtains r where "x = cquot x y * y + r" "abs r < abs y" "r = 0 \<or> sgn r = sgn x"
proof
  let ?r = "sgn x * (abs x mod abs y)"
  have y: "sgn y * y = abs y" by (simp add: abs_sgn mult.commute)
  have "cquot x y * y = sgn x * (abs x div abs y) * (sgn y * y)"
    by (simp add: cquot_def algebra_simps)
  then have "cquot x y * y + ?r = sgn x * ((abs x div abs y) * abs y + abs x mod abs y)"
    unfolding y distrib_left by (simp only: mult.assoc)
  also have "\<dots> = x" by (simp add: mult_sgn_abs)
  finally show "x = cquot x y * y + ?r" ..
  show "abs ?r < abs y" using assms by (simp add: abs_mult abs_sgn_eq)
  show "?r = 0 \<or> sgn ?r = sgn x"
  proof (cases "abs x mod abs y = 0")
    case False
    moreover have "0 \<le> abs x mod abs y" using assms by simp
    ultimately show ?thesis by (simp add: sgn_mult)
  qed simp
qed

lemma cquot_overflow:
  assumes "in_int64 x" and "in_int64 y" and "y \<noteq> 0"
  shows "in_int64 (cquot x y) \<longleftrightarrow> \<not> (x = - (2 ^ 63) \<and> y = - 1)"
proof (cases "abs y = 1")
  case True
  have "cquot x 1 = x" "cquot x (- 1) = - x" by (simp_all add: cquot_def mult_sgn_abs)
  with True assms show ?thesis by (auto simp: in_int64_def abs_if split: if_splits)
next
  case False
  have q: "abs (cquot x y) \<le> abs x div abs y"
    using pos_imp_zdiv_nonneg_iff [of "abs y" "abs x"] assms(3) by (simp add: cquot_def abs_mult abs_sgn_eq)
  have "abs x div abs y \<le> abs x"
    using zdiv_mono2 [of "abs x" 1 "abs y"] assms(3) by simp
  moreover have "abs x div abs y < abs x" if "x \<noteq> 0"
    using that False assms(3) int_div_less_self [of "abs x" "abs y"] by simp
  moreover have "abs x \<le> 2 ^ 63" using assms(1) by (auto simp: in_int64_def)
  ultimately have "abs (cquot x y) < 2 ^ 63" using q by (cases "x = 0") auto
  then show ?thesis using False by (auto simp: in_int64_def)
qed

text \<open>
  (C25) The calculator on two \<open>int64_t\<close> operands in their decimal notation: sum, difference and
  product are answered exactly when they fit in 64 bits, and overflow is undefined otherwise;
  division truncates towards zero, overflows only for the least number divided by -1, and by zero
  is answered with a message; any other operator, and every request while the handler is disabled,
  is passed on with nothing sent.
\<close>

theorem calculator_correct:
  assumes "ha_parts args = [oper, to_string_int x, to_string_int y]" and "in_int64 x" and "in_int64 y"
  shows "(oper \<in> {''+'', ''plus''} \<longrightarrow> calculator_handle args True = calculator_answer args (x + y))
    \<and> (oper \<in> {''-'', ''min''} \<longrightarrow> calculator_handle args True = calculator_answer args (x - y))
    \<and> (oper \<in> {''*'', ''mult''} \<longrightarrow> calculator_handle args True = calculator_answer args (x * y))
    \<and> (oper \<in> {''/'', ''div''} \<longrightarrow> y \<noteq> 0 \<longrightarrow>
        (\<exists>q r. x = q * y + r \<and> abs r < abs y \<and> (r = 0 \<or> sgn r = sgn x)
          \<and> (in_int64 q \<longleftrightarrow> \<not> (x = - (2 ^ 63) \<and> y = - 1))
          \<and> calculator_handle args True = calculator_answer args q))
    \<and> (oper \<in> {''/'', ''div''} \<longrightarrow> y = 0 \<longrightarrow>
        calculator_handle args True =
          (send_and_close (setMIME ''text/plain'' (HtmlResponse 200 ''Division by zero'')) args, Inr Approve))
    \<and> (oper \<notin> {''+'', ''plus'', ''-'', ''min'', ''*'', ''mult'', ''/'', ''div''} \<longrightarrow>
        calculator_handle args True = (args, Inr Pass))
    \<and> calculator_handle args False = (args, Inr Pass)"
proof -
  note run = calculator_run [OF assms]
  have number: "calculator_handle args True = calculator_answer args v"
    if "calculate oper x y = rmap (\<lambda>v. Some (to_string_int v)) (int64 v)" for v
    unfolding run by (rule calculator_number [OF that])
  have "\<exists>q r. x = q * y + r \<and> abs r < abs y \<and> (r = 0 \<or> sgn r = sgn x)
      \<and> (in_int64 q \<longleftrightarrow> \<not> (x = - (2 ^ 63) \<and> y = - 1)) \<and> calculator_handle args True = calculator_answer args q"
    if oper: "oper \<in> {''/'', ''div''}" and "y \<noteq> 0"
  proof -
    obtain r where "x = cquot x y * y + r" "abs r < abs y" "r = 0 \<or> sgn r = sgn x"
      using \<open>y \<noteq> 0\<close> by (rule cquot_truncates)
    moreover have "calculator_handle args True = calculator_answer args (cquot x y)"
      using oper \<open>y \<noteq> 0\<close> by (intro number) (auto simp: calculate_def)
    ultimately show ?thesis using cquot_overflow [OF assms(2,3) \<open>y \<noteq> 0\<close>] by blast
  qed
  moreover have "oper \<in> {''+'', ''plus''} \<longrightarrow> calculator_handle args True = calculator_answer args (x + y)"
    "oper \<in> {''-'', ''min''} \<longrightarrow> calculator_handle args True = calculator_answer args (x - y)"
    "oper \<in> {''*'', ''mult''} \<longrightarrow> calculator_handle args True = calculator_answer args (x * y)"
    by (auto intro!: number simp: calculate_def)
  ultimately show ?thesis
    using run calculator.disabled [of args] by (simp add: calculate_def)
qed

definition sample_args :: "string list \<Rightarrow> unit handler_args" where
  "sample_args parts = \<lparr>ha_client = new_client 3 ''::1'', ha_request = new_request, ha_parts = parts, ha_world = (), ha_log = []\<rparr>"

theorem calculator_correct_witness:
  "calculator_handle (sample_args [''/'', to_string_int (- 9223372036854775808), to_string_int (- 1)]) True =
     (sample_args [''/'', to_string_int (- 9223372036854775808), to_string_int (- 1)],
      Inl (UndefinedBehaviour ''signed overflow''))"
proof -
  let ?args = "sample_args [''/'', to_string_int (- 9223372036854775808), to_string_int (- 1)]"
  obtain q where "\<not> in_int64 q" "calculator_handle ?args True = calculator_answer ?args q"
    using calculator_correct [of ?args "''/''" "- 9223372036854775808" "- 1"]
    by (auto simp: sample_args_def in_int64_def)
  then show ?thesis by (simp add: calculator_answer_def)
qed

section \<open>Registration\<close>

lemma unregister_register [simp]:
  "Some h \<notin> set (hs_getHandlers hs) \<Longrightarrow> unregister_get h (register_get h hs) = hs"
  "Some h \<notin> set (hs_postHandlers hs) \<Longrightarrow> unregister_post h (register_post h hs) = hs"
  by (simp_all add: unregister_get_def register_get_def unregister_post_def register_post_def erase_remove1 remove1_append)

lemma register_commutes: "unregister_get h (register_post k hs) = register_post k (unregister_get h hs)"
  by (simp add: unregister_get_def register_post_def)

text \<open>Unloading a plugin leaves the server as it was before loading it.\<close>

lemma cleanup_undoes_postinit:
  "Some calculator_handle \<notin> set (hs_getHandlers hs) \<Longrightarrow> calculator_cleanup (calculator_postinit hs) = hs"
  "Some (redirect_handle (redirect_base config)) \<notin> set (hs_getHandlers hs) \<Longrightarrow>
     (case redirect_postinit config hs of (base, hs') \<Rightarrow> redirect_cleanup base hs') = hs"
  "Some (default404_handle fs fs_path render file) \<notin> set (hs_getHandlers hs) \<Longrightarrow>
     default404_cleanup fs fs_path render file (default404_postinit fs fs_path render file hs) = hs"
  "Some (logger_handle who) \<notin> set (hs_getHandlers hs) \<Longrightarrow> Some (logger_handle who) \<notin> set (hs_postHandlers hs) \<Longrightarrow>
     logger_cleanup who (logger_postinit who hs) = hs"
  by (simp_all add: calculator_cleanup_def calculator_postinit_def redirect_cleanup_def redirect_postinit_def
      default404_cleanup_def default404_postinit_def logger_cleanup_def logger_postinit_def register_commutes)

section \<open>What a request can put into a redirection\<close>

text \<open>
  The parameters are decoded when the request is parsed and not encoded again: a line break in a
  parameter ends the header.
\<close>

lemma redirect_header_injection:
  "getParameters (''/?'' @ encode_query [(''a'', eol @ ''X: y'')]) True = Inr [(''a'', eol @ ''X: y'')]"
  "redirect_location ''https://h'' (new_request\<lparr>rq_path := ''/'', rq_parameters := [(''a'', eol @ ''X: y'')]\<rparr>) =
     ''https://h/?a='' @ eol @ ''X: y''"
proof -
  have "length (encode_pair (''a'', eol @ ''X: y'')) < 2 ^ 64"
    by (simp add: encode_pair_def escapeURL_def url_char_def isNumericChar_def ord_def less_char_def eol_def charHex_def)
  then show "getParameters (''/?'' @ encode_query [(''a'', eol @ ''X: y'')]) True = Inr [(''a'', eol @ ''X: y'')]"
    by (simp add: getParameters_def find_char_append parameters_loop_encoded)
qed (simp add: redirect_location_def pathWithParameters_def getHeader_def new_request_def)

section \<open>The echo\<close>

text \<open>After the handshake every message comes back in one frame of the same length, and unloading the plugin silences it.\<close>

lemma wsecho_echo:
  assumes "''echo'' \<in> set (wa_protocols args)" and "hs_webSocketMessageHandlers hs (cl_id (ha_client args)) = None"
    and "wsecho_handleConnect args True hs = ((args', hs'), res)"
  shows "res = Approve" and "wa_acceptedProtocol args' = ''echo''"
    and "handleWebSocketMessage hs' (ha_client args) m w =
      ((ha_client args, w, [SendTo (cl_id (ha_client args)) (frame_header (of_nat (length m)) False 255),
         SendTo (cl_id (ha_client args)) m]), Inr ())"
    and "handleWebSocketMessage (wsecho_cleanup hs') (ha_client args) m w = ((ha_client args, w, []), Inr ())"
  using assms
  by (auto simp: wsecho_handleConnect_def handleWebSocketMessage_def registerWebSocketMessageHandler_def
      wsecho_handleMessage_def sendWebSocket_def wsecho_cleanup_def cleanWebSocketHandlers_def
      cleanWebSocketMessageHandlers_def cleanWebSocketCloseHandlers_def clean_registry_def expire_def
      erase_expired.simps)

end
