(* ===== verification/Site.thy ===== *)
theory Site
  imports Net_Read Small_Plugins
begin

text \<open>
  The whole path of a request: the message handler that \<open>src/src/Core.cpp\<close> installs feeds the
  messages the connection layer cuts from the stream to the client, the client calls the HTTP
  server, the server runs the plugins' handlers, and the handlers' answers go back to the
  connection layer.

  A state of the walk is the client, the plugins' state and the log of the calls that reached the
  connection layer.
\<close>

section \<open>Calls of a client\<close>

type_synonym 'w site_state = "http_client \<times> 'w \<times> server_call list"

definition add_calls :: "server_call list \<Rightarrow> 'w site_state \<Rightarrow> 'w site_state" where
  "add_calls calls st = (case st of (c, w, log) \<Rightarrow> (c, w, log @ calls))"

text \<open>What the server's operations return, after the calls made so far.\<close>

definition continue_with :: "server_call list \<Rightarrow> 'w outcome \<Rightarrow> 'w site_state \<times> unit result" where
  "continue_with log outcome = (case outcome of ((c, w, calls), res) \<Rightarrow> ((c, w, log @ calls), res))"

definition perform ::
  "(string \<Rightarrow> string) \<Rightarrow> ('w, 'v) http_server \<Rightarrow> client_call \<Rightarrow> 'w site_state \<Rightarrow> 'w site_state \<times> unit result" where
  "perform digest hs call st =
     (case st of (c, w, log) \<Rightarrow>
       (case call of
          Send s \<Rightarrow> (add_calls [SendTo (cl_id c) s] st, Inr ())
        | CloseSocket \<Rightarrow> (add_calls [CloseClient (cl_id c)] st, Inr ())
        | CloseWebSocket \<Rightarrow> (case server_closeWebSocket hs c w of (w', calls) \<Rightarrow> ((c, w', log @ calls), Inr ()))
        | Send400 \<Rightarrow> (add_calls [send400 c] st, Inr ())
        | WebSocketMessage m \<Rightarrow> continue_with log (handleWebSocketMessage hs c m w)
        | HandleGET req \<Rightarrow> continue_with log (handleGET digest hs c req w)
        | HandlePOST req \<Rightarrow> continue_with log (handlePOST hs c req w)))"

fun perform_all ::
  "(string \<Rightarrow> string) \<Rightarrow> ('w, 'v) http_server \<Rightarrow> client_call list \<Rightarrow> 'w site_state \<Rightarrow> 'w site_state \<times> unit result" where
  "perform_all digest hs [] st = (st, Inr ())"
| "perform_all digest hs (call # calls) st =
     (case perform digest hs call st of
        (st', Inr _) \<Rightarrow> perform_all digest hs calls st'
      | stop \<Rightarrow> stop)"

section \<open>Messages of a connection\<close>

text \<open>The \<open>catch\<close> clause of the message handler.\<close>

definition apologise :: "'w site_state \<times> unit result \<Rightarrow> 'w site_state \<times> unit result" where
  "apologise outcome =
     (case outcome of
        ((c, w, log), Inl (ParseError _)) \<Rightarrow>
          ((c, w, log @ [response_call c apology, CloseClient (cl_id c)]), Inr ())
      | _ \<Rightarrow> outcome)"

definition site_message ::
  "(string \<Rightarrow> size_t option result) \<Rightarrow> (string \<Rightarrow> string) \<Rightarrow> ('w, 'v) http_server \<Rightarrow> string
   \<Rightarrow> 'w site_state \<Rightarrow> 'w site_state \<times> unit result" where
  "site_message post_max_opt digest hs message st =
     (case st of (c, w, log) \<Rightarrow>
       apologise
         (case handleInput post_max_opt message c of
            (c', Inl e) \<Rightarrow> ((c', w, log), Inl e)
          | (c', Inr calls) \<Rightarrow> perform_all digest hs calls (c', w, log)))"

text \<open>One message after another, as \<open>handleRead\<close> hands them over; an exception ends the reading.\<close>

fun site_messages ::
  "(string \<Rightarrow> size_t option result) \<Rightarrow> (string \<Rightarrow> string) \<Rightarrow> ('w, 'v) http_server \<Rightarrow> string list
   \<Rightarrow> 'w site_state \<Rightarrow> 'w site_state \<times> unit result" where
  "site_messages pm digest hs [] st = (st, Inr ())"
| "site_messages pm digest hs (m # ms) st =
     (case site_message pm digest hs m st of
        (st', Inr _) \<Rightarrow> site_messages pm digest hs ms st'
      | stop \<Rightarrow> stop)"

section \<open>From bytes to the handlers\<close>

text \<open>The parser does not mind that the newline was cut off.\<close>

lemma handleLine_cut:
  "rq_mode r \<noteq> ModeContent \<Longrightarrow> handleLine pm (l @ [CHR 0x0D]) r cf = handleLine pm (l @ eol) r cf"
  by (simp add: handleLine_def strip_suffix_def eol_def butlast_append)

text \<open>A line the parser goes on from changes the client and nothing else.\<close>

lemma site_message_continue:
  assumes "\<not> cl_isWebSocket c" and "handleLine pm l (cl_request c) (cl_flags c) = ((r, cf), Inr Continue)"
  shows "site_message pm digest hs l (c, w, log) = ((c\<lparr>cl_request := r, cl_flags := cf\<rparr>, w, log), Inr ())"
  using assms by (simp add: site_message_def handleInput_def apologise_def)

definition get_lines :: "string \<Rightarrow> string \<Rightarrow> (string \<times> string) list \<Rightarrow> string list" where
  "get_lines target version hs =
     map (\<lambda>l. l @ [CHR 0x0D]) ((''GET '' @ target @ '' '' @ version) # map (\<lambda>h. fst h @ '': '' @ snd h) hs @ [[]])"

definition get_bytes :: "string \<Rightarrow> string \<Rightarrow> (string \<times> string) list \<Rightarrow> string" where
  "get_bytes target version hs = concat (map (\<lambda>l. l @ [CHR 0x0A]) (get_lines target version hs))"

definition parsed_get :: "string \<Rightarrow> (string \<times> string) list \<Rightarrow> string \<Rightarrow> (string \<times> string) list \<Rightarrow> request" where
  "parsed_get target ps version hs =
     new_request\<lparr>rq_method := GET, rq_path := getPath target, rq_parameters := ps,
       rq_version := version, rq_headers := merge_headers hs [], rq_mode := ModeContent\<rparr>"

lemma site_header:
  assumes "\<not> cl_isWebSocket c" and "rq_mode (cl_request c) = ModeHeaders" and "plain_header h"
  shows "site_message pm digest srv (fst h @ '': '' @ snd h @ [CHR 0x0D]) (c, w, log) =
    ((c\<lparr>cl_request := (cl_request c)\<lparr>rq_headers := merge_header (toLower (fst h)) (snd h) (rq_headers (cl_request c))\<rparr>\<rparr>, w, log),
     Inr ())"
proof -
  have "handleLine pm (fst h @ '': '' @ snd h @ [CHR 0x0D]) (cl_request c) (cl_flags c) =
      handleLine pm (header_text h) (cl_request c) (cl_flags c)"
    using handleLine_cut [of "cl_request c" pm "fst h @ '': '' @ snd h"] assms(2) by (simp add: header_text_def)
  then show ?thesis
    using handleLine_plain_header [OF assms(2,3)] by (simp add: site_message_continue [OF assms(1)])
qed

lemma site_headers:
  assumes "list_all plain_header hs" and "\<not> cl_isWebSocket c" and "rq_mode (cl_request c) = ModeHeaders"
  shows "site_messages pm digest srv (map (\<lambda>l. l @ [CHR 0x0D]) (map (\<lambda>h. fst h @ '': '' @ snd h) hs) @ ms) (c, w, log) =
    site_messages pm digest srv ms
      (c\<lparr>cl_request := (cl_request c)\<lparr>rq_headers := merge_headers hs (rq_headers (cl_request c))\<rparr>\<rparr>, w, log)"
  using assms
proof (induction hs arbitrary: c)
  case (Cons h hs)
  then show ?case
    using site_header [of c h pm digest srv w log] by (simp add: merge_headers_def)
qed (simp add: merge_headers_def)

lemma get_lines_text:
  assumes "\<forall>l \<in> set (get_lines target version hs). CHR 0x0A \<notin> set l"
  shows "text_lines (get_bytes target version hs) = (get_lines target version hs, [])"
  using text_lines_join [of "get_lines target version hs" "[]"] assms by (simp add: get_bytes_def list_all_iff)

text \<open>A request of a fresh connection reaches \<open>handleGET\<close> with the empty line, and not before.\<close>

lemma get_request_served:
  assumes "CHR '' '' \<notin> set target" and "getParameters target True = Inr ps"
    and "version \<in> {''HTTP/1.0'', ''HTTP/1.1''}" and "list_all plain_header hs"
    and "map_of (merge_headers hs []) ''content-length'' = None"
  shows "site_messages pm digest srv (get_lines target version hs) (new_client i ip, w, []) =
    apologise (handleGET digest srv ((new_client i ip)\<lparr>cl_request := parsed_get target ps version hs\<rparr>)
      (parsed_get target ps version hs) w)"
proof -
  let ?c = "new_client i ip"
  let ?r = "new_request\<lparr>rq_method := GET, rq_path := getPath target, rq_parameters := ps,
    rq_version := version, rq_mode := ModeHeaders\<rparr>"
  let ?line = "''GET '' @ target @ '' '' @ version"
  have fresh: "\<not> cl_isWebSocket ?c" "cl_request ?c = new_request" "rq_mode new_request = ModeMethod"
    by (simp_all add: new_client_def new_request_def)
  have "handleLine pm (?line @ [CHR 0x0D]) new_request (cl_flags ?c) = ((?r, cl_flags ?c), Inr Continue)"
    using handleLine_method [OF fresh(3) _ assms(1-3), of GET pm "cl_flags ?c"]
      handleLine_cut [of new_request pm ?line "cl_flags ?c"]
    by (simp add: method_name_def fresh(3))
  then have first: "site_message pm digest srv (?line @ [CHR 0x0D]) (?c, w, []) = ((?c\<lparr>cl_request := ?r\<rparr>, w, []), Inr ())"
    using site_message_continue [of ?c pm "?line @ [CHR 0x0D]" ?r "cl_flags ?c" digest srv w "[]"] fresh
    by (simp add: new_client_def)
  have rest: "site_messages pm digest srv (map (\<lambda>l. l @ [CHR 0x0D]) (map (\<lambda>h. fst h @ '': '' @ snd h) hs) @ [[CHR 0x0D]])
      (?c\<lparr>cl_request := ?r\<rparr>, w, []) =
    site_messages pm digest srv [[CHR 0x0D]] (?c\<lparr>cl_request := ?r\<lparr>rq_headers := merge_headers hs []\<rparr>\<rparr>, w, [])"
    using site_headers [OF assms(4), of "?c\<lparr>cl_request := ?r\<rparr>" pm digest srv "[[CHR 0x0D]]" w "[]"] fresh
    by (simp add: new_request_def)
  have "handleInput pm [CHR 0x0D] (?c\<lparr>cl_request := ?r\<lparr>rq_headers := merge_headers hs []\<rparr>\<rparr>) =
      (?c\<lparr>cl_request := parsed_get target ps version hs\<rparr>, Inr [HandleGET (parsed_get target ps version hs)])"
    using fresh(1) assms(5)
    by (simp add: handleInput_def handleLine_def strip_suffix_def handleRequest_def parsed_get_def)
  then have "site_message pm digest srv [CHR 0x0D] (?c\<lparr>cl_request := ?r\<lparr>rq_headers := merge_headers hs []\<rparr>\<rparr>, w, []) =
    apologise (handleGET digest srv (?c\<lparr>cl_request := parsed_get target ps version hs\<rparr>) (parsed_get target ps version hs) w)"
    by (simp add: site_message_def perform_def continue_with_def split: prod.splits sum.splits)
  then show ?thesis
    using first rest by (simp add: get_lines_def split: prod.splits sum.splits)
qed

section \<open>A site of small plugins\<close>

text \<open>A server on which the logger, the calculator and the default page were loaded, in this order.\<close>

definition small_site where
  "small_site who fs fs_path render file hs =
     default404_postinit fs fs_path render file (calculator_postinit (logger_postinit who hs))"

lemma small_site_handlers:
  "hs_getHandlers (small_site who fs fs_path render file hs) =
     hs_getHandlers hs @ [Some (logger_handle who), Some calculator_handle, Some (default404_handle fs fs_path render file)]"
  by (simp add: small_site_def default404_postinit_def calculator_postinit_def logger_postinit_def
      register_get_def register_post_def)

lemma calculator_cases:
  obtains (passes) "calculator_handle args True = (args, Inr Pass)"
  | (answers) page where "calculator_handle args True = (send_and_close page args, Inr Approve)"
  | (fails) e where "calculator_handle args True = (args, Inl e)"
proof (cases "calculator_handle args True")
  case (Pair args' res)
  then show ?thesis
    using that
    by (auto simp: calculator_handle_def split: if_splits sum.splits option.splits prod.splits exn.splits)
qed

lemma default404_answers:
  "default404_content fs fs_path render file (ha_request args) = Inr content \<Longrightarrow>
   default404_handle fs fs_path render file args True =
     (send_and_close (setMIME ''text/html'' (HtmlResponse 404 content)) args, Inr Approve)"
  by (simp add: default404_handle_def)

lemma small_site_chain:
  assumes "\<And>e. snd (calculator_handle args True) \<noteq> Inl e"
    and "default404_content fs fs_path render file (ha_request args) = Inr content"
  obtains page where
    "beforeMulti args [Some (logger_handle who), Some calculator_handle, Some (default404_handle fs fs_path render file)] True =
       (send_and_close page args, Inr (True, KillResult))"
    "calculator_handle args True =
       (if page = setMIME ''text/html'' (HtmlResponse 404 content) \<and> snd (calculator_handle args True) = Inr Pass
        then (args, Inr Pass) else (send_and_close page args, Inr Approve))"
proof (rule calculator_cases [of args])
  assume "calculator_handle args True = (args, Inr Pass)"
  then show thesis
    using that [of "setMIME ''text/html'' (HtmlResponse 404 content)"]
    by (simp add: logger.chain_step calculator.chain_step default404.chain_step logger_handle_def logger_run_def
        default404_answers [OF assms(2)])
next
  fix page assume "calculator_handle args True = (send_and_close page args, Inr Approve)"
  then show thesis
    using that [of page] by (simp add: logger.chain_step calculator.chain_step logger_handle_def logger_run_def)
next
  fix e assume "calculator_handle args True = (args, Inl e)"
  then show thesis using assms(1) [of e] by simp
qed


declare split_loop.simps [code]

definition sum_args :: "unit handler_args" where
  "sum_args = \<lparr>ha_client = (new_client 3 ''::1'')\<lparr>cl_request := parsed_get ''/plus/40/2'' [] ''HTTP/1.1'' [(''Host'', ''x'')]\<rparr>,
     ha_request = parsed_get ''/plus/40/2'' [] ''HTTP/1.1'' [(''Host'', ''x'')], ha_parts = [''plus'', ''40'', ''2''],
     ha_world = (), ha_log = []\<rparr>"

lemma sum_args_run:
  "calculator_handle sum_args True = (send_and_close (setMIME ''text/plain'' (HtmlResponse 200 ''42'')) sum_args, Inr Approve)"
proof -
  have "to_string_int 40 = ''40''" "to_string_int 2 = ''2''" "to_string_int 42 = ''42''" by code_simp+
  then show ?thesis
    using calculator_run [of sum_args "''plus''" 40 2] calculator_number [of "''plus''" 40 2 42 sum_args]
    by (simp add: sum_args_def in_int64_def calculate_def int64_def)
qed


end
