(* ===== verification/Chess_Board.thy ===== *)
theory Chess_Board
  imports Util_Strings
begin

text \<open>
  The board of the probability-chess plugin (\<open>src/src/plugins/probchess\<close>): colours, squares,
  moves and pieces (\<open>Color\<close>, \<open>Square\<close>, \<open>Move\<close>, \<open>piece/*\<close>) and the class \<open>Board\<close>.

  The C++ \<open>int\<close> coordinates are HOL integers: every coordinate the plugin computes is a board
  coordinate moved by at most two steps, far from the ends of \<open>int\<close>.  A board is the array
  \<open>pieces\<close> as a list of eight rows; \<open>width\<close> and \<open>height\<close> are 8 in every board, they are only
  ever copied.  Pieces are held by value.  The code shares a piece between the array and local
  variables, and writes through the pointer only in \<open>Board::move\<close> and in the loop of
  \<open>isCheckmated\<close>, where the updated piece is returned next to the board.

  The main result is that \<open>canMoveTo\<close> of every piece is exactly the set of squares a textbook
  would allow (without castling, en passant and the rules on check, which the game does not
  have).
\<close>

section \<open>Colours, squares and moves\<close>

datatype color = Black | White

instantiation color :: enum
begin

definition "enum_color = [Black, White]"
definition "enum_all_color P \<longleftrightarrow> P Black \<and> P White"
definition "enum_ex_color P \<longleftrightarrow> P Black \<or> P White"

instance
proof
  show "(UNIV :: color set) = set enum_class.enum"
    by (auto simp: enum_color_def intro: color.exhaust)
  show "distinct (enum_class.enum :: color list)" by (simp add: enum_color_def)
  fix P :: "color \<Rightarrow> bool"
  show "enum_class.enum_all P = Ball UNIV P"
    by (simp add: enum_all_color_def) (metis color.exhaust)
  show "enum_class.enum_ex P = Bex UNIV P"
    by (simp add: enum_ex_color_def) (metis color.exhaust)
qed

end

definition colorName :: "color \<Rightarrow> string" where
  "colorName c = (if c = White then ''white'' else ''black'')"

definition otherColor :: "color \<Rightarrow> color" where
  "otherColor c = (if c = White then Black else White)"

record square =
  sq_row :: int
  sq_col :: int

abbreviation sq :: "int \<Rightarrow> int \<Rightarrow> square" where
  "sq r c \<equiv> \<lparr>sq_row = r, sq_col = c\<rparr>"

text \<open>The remainder of C++ takes the sign of the dividend.\<close>

definition crem :: "int \<Rightarrow> int \<Rightarrow> int" where
  "crem a b = sgn a * (\<bar>a\<bar> mod \<bar>b\<bar>)"

definition square_getColor :: "square \<Rightarrow> color" where
  "square_getColor s = (if crem (sq_row s) 2 = crem (sq_col s) 2 then White else Black)"

definition square_eq :: "square \<Rightarrow> square \<Rightarrow> bool" where
  "square_eq s other \<longleftrightarrow> sq_row s = sq_row other \<and> sq_col s = sq_col other"

definition square_neq :: "square \<Rightarrow> square \<Rightarrow> bool" where
  "square_neq s other \<longleftrightarrow> sq_row s \<noteq> sq_row other \<or> sq_col s \<noteq> sq_col other"

definition square_not :: "square \<Rightarrow> bool" where
  "square_not s \<longleftrightarrow> sq_row s < 0 \<or> 7 < sq_row s \<or> sq_col s < 0 \<or> 7 < sq_col s"

definition square_bool :: "square \<Rightarrow> bool" where
  "square_bool s \<longleftrightarrow> 0 \<le> sq_row s \<and> sq_row s < 8 \<and> 0 \<le> sq_col s \<and> sq_col s < 8"

definition square_plus :: "square \<Rightarrow> int \<Rightarrow> square" where
  "square_plus s row_shift = sq (sq_row s + row_shift) (sq_col s)"

definition square_minus :: "square \<Rightarrow> int \<Rightarrow> square" where
  "square_minus s row_shift = sq (sq_row s - row_shift) (sq_col s)"

definition square_left :: "square \<Rightarrow> int \<Rightarrow> square" where
  "square_left s column_shift = sq (sq_row s) (sq_col s - column_shift)"

definition square_right :: "square \<Rightarrow> int \<Rightarrow> square" where
  "square_right s column_shift = sq (sq_row s) (sq_col s + column_shift)"

definition square_offset :: "square \<Rightarrow> int \<times> int \<Rightarrow> square" where
  "square_offset s offsets = sq (sq_row s + fst offsets) (sq_col s + snd offsets)"

definition square_string :: "square \<Rightarrow> string" where
  "square_string s = to_string_int (sq_row s) @ to_string_int (sq_col s)"

text \<open>\<open>'a' + column\<close> is an \<open>int\<close>, narrowed to \<open>char\<close>.\<close>

definition algebraic :: "square \<Rightarrow> string" where
  "algebraic s = char_of (nat ((97 + sq_col s) mod 256)) # to_string_int (8 - sq_row s)"

record move =
  mv_from :: square
  mv_to :: square

text \<open>A \<open>char\<close> read as a number is signed.\<close>

definition schar :: "char \<Rightarrow> int" where
  "schar c = (if ord c < 128 then int (ord c) else int (ord c) - 256)"

text \<open>The constructor from text indexes the view without a check of its length.\<close>

definition move_parse :: "string \<Rightarrow> move result" where
  "move_parse str =
     (if length str < 4 then Inl (UndefinedBehaviour ''Move: read past the end of the view'')
      else Inr \<lparr>mv_from = sq (8 - (schar (str ! 1) - 48)) (schar (str ! 0) - 97),
                mv_to = sq (8 - (schar (str ! 3) - 48)) (schar (str ! 2) - 97)\<rparr>)"

definition pseudoalgebraic :: "move \<Rightarrow> string" where
  "pseudoalgebraic m = algebraic (mv_from m) @ algebraic (mv_to m)"

section \<open>Pieces\<close>

datatype piece_type = Bishop | King | Knight | Pawn | Queen | Rook

record piece =
  pc_type :: piece_type
  pc_color :: color
  pc_square :: square

section \<open>The array of pieces\<close>

record board =
  bd_pieces :: "piece option list list"

definition board_width :: int where
  "board_width = 8"

definition board_height :: int where
  "board_height = 8"

definition new_board :: board where
  "new_board = \<lparr>bd_pieces = replicate 8 (replicate 8 None)\<rparr>"

definition at_rc :: "board \<Rightarrow> int \<Rightarrow> int \<Rightarrow> piece option" where
  "at_rc b r c =
     (if r < 0 \<or> board_height \<le> r \<or> c < 0 \<or> board_width \<le> c then None
      else bd_pieces b ! nat r ! nat c)"

definition at_square :: "board \<Rightarrow> square \<Rightarrow> piece option" where
  "at_square b s = at_rc b (sq_row s) (sq_col s)"

text \<open>
  \<open>pieces[row][column] = ...\<close>.  The code does not check the indices; every use below is on a
  square of the board (\<open>canMoveTo_on_board\<close>, \<open>board_ok\<close>), except in \<open>loadFEN\<close>, which tests them
  here as undefined behaviour.
\<close>

definition put_at :: "square \<Rightarrow> piece option \<Rightarrow> board \<Rightarrow> board" where
  "put_at s v b = b\<lparr>bd_pieces := (bd_pieces b)
     [nat (sq_row s) := (bd_pieces b ! nat (sq_row s)) [nat (sq_col s) := v]]\<rparr>"

section \<open>How the pieces move\<close>

text \<open>\<open>Piece::filter\<close>: off the board or on a piece of the same colour.\<close>

fun piece_filter :: "board \<Rightarrow> piece \<Rightarrow> square list \<Rightarrow> square list" where
  "piece_filter b p [] = []"
| "piece_filter b p (s # squares) =
     (if square_not s then piece_filter b p squares
      else case at_square b s of
        Some other \<Rightarrow> (if pc_color other = pc_color p then piece_filter b p squares
                       else s # piece_filter b p squares)
      | None \<Rightarrow> s # piece_filter b p squares)"

text \<open>
  One of the loops \<open>for (int i = 0; i < 7; ++i)\<close> of the sliding pieces: step, stop off the
  board, push, stop on a piece.
\<close>

fun slide :: "board \<Rightarrow> (square \<Rightarrow> square) \<Rightarrow> nat \<Rightarrow> square \<Rightarrow> square list" where
  "slide b step 0 s = []"
| "slide b step (Suc n) s =
     (let s' = step s in
      if square_not s' then []
      else s' # (if at_square b s' \<noteq> None then [] else slide b step n s'))"

definition bishop_canMoveTo :: "board \<Rightarrow> piece \<Rightarrow> square list" where
  "bishop_canMoveTo b p =
     piece_filter b p
      (slide b (\<lambda>s. square_offset s (1, 1)) 7 (pc_square p)
       @ slide b (\<lambda>s. square_offset s (1, - 1)) 7 (pc_square p)
       @ slide b (\<lambda>s. square_offset s (- 1, - 1)) 7 (pc_square p)
       @ slide b (\<lambda>s. square_offset s (- 1, 1)) 7 (pc_square p))"

definition king_canMoveTo :: "board \<Rightarrow> piece \<Rightarrow> square list" where
  "king_canMoveTo b p =
     piece_filter b p (map (square_offset (pc_square p))
       [(- 1, 0), (- 1, 1), (0, 1), (1, 1), (1, 0), (1, - 1), (0, - 1), (- 1, - 1)])"

definition knight_canMoveTo :: "board \<Rightarrow> piece \<Rightarrow> square list" where
  "knight_canMoveTo b p =
     piece_filter b p (map (square_offset (pc_square p))
       [(- 2, - 1), (- 2, 1), (- 1, 2), (1, 2), (2, 1), (2, - 1), (1, - 2), (- 1, - 2)])"

definition pawn_canMoveTo :: "board \<Rightarrow> piece \<Rightarrow> square list" where
  "pawn_canMoveTo b p =
     (let square = pc_square p;
          forward = (if pc_color p = Black then 1 else - 1);
          front = square_plus square forward;
          out = (if at_square b front = None
                 then front #
                   (if (sq_row square = 1 \<and> pc_color p = Black)
                       \<or> (sq_row square = 6 \<and> pc_color p = White)
                    then let ahead = square_plus front forward in
                         if at_square b ahead = None then [ahead] else []
                    else [])
                 else []);
          west = square_left front 1;
          out = (if at_square b west \<noteq> None then out @ [west] else out);
          east = square_right west 2;
          out = (if at_square b east \<noteq> None then out @ [east] else out)
      in piece_filter b p out)"

definition queen_canMoveTo :: "board \<Rightarrow> piece \<Rightarrow> square list" where
  "queen_canMoveTo b p =
     piece_filter b p
      (slide b (\<lambda>s. square_offset s (1, 1)) 7 (pc_square p)
       @ slide b (\<lambda>s. square_offset s (1, - 1)) 7 (pc_square p)
       @ slide b (\<lambda>s. square_offset s (- 1, - 1)) 7 (pc_square p)
       @ slide b (\<lambda>s. square_offset s (- 1, 1)) 7 (pc_square p)
       @ slide b (\<lambda>s. square_minus s 1) 7 (pc_square p)
       @ slide b (\<lambda>s. square_plus s 1) 7 (pc_square p)
       @ slide b (\<lambda>s. square_left s 1) 7 (pc_square p)
       @ slide b (\<lambda>s. square_right s 1) 7 (pc_square p))"

definition rook_canMoveTo :: "board \<Rightarrow> piece \<Rightarrow> square list" where
  "rook_canMoveTo b p =
     piece_filter b p
      (slide b (\<lambda>s. square_minus s 1) 7 (pc_square p)
       @ slide b (\<lambda>s. square_plus s 1) 7 (pc_square p)
       @ slide b (\<lambda>s. square_left s 1) 7 (pc_square p)
       @ slide b (\<lambda>s. square_right s 1) 7 (pc_square p))"

text \<open>
  The virtual functions of \<open>Piece\<close>: each class gives its type, value, name, letter and glyph
  and its \<open>canMoveTo\<close>.
\<close>

record piece_class =
  cls_canMoveTo :: "board \<Rightarrow> piece \<Rightarrow> square list"
  cls_getType :: piece_type
  cls_typeValue :: int
  cls_name :: string
  cls_toString :: "color \<Rightarrow> string"
  cls_toFEN :: "color \<Rightarrow> string"

definition bishop_class :: piece_class where
  "bishop_class = \<lparr>cls_canMoveTo = bishop_canMoveTo, cls_getType = Bishop, cls_typeValue = 3,
     cls_name = ''bishop'',
     cls_toString = (\<lambda>c. [CHR 0xE2, CHR 0x99, if c = White then CHR 0x97 else CHR 0x9D]),
     cls_toFEN = (\<lambda>c. if c = White then ''B'' else ''b'')\<rparr>"

definition king_class :: piece_class where
  "king_class = \<lparr>cls_canMoveTo = king_canMoveTo, cls_getType = King, cls_typeValue = 0,
     cls_name = ''king'',
     cls_toString = (\<lambda>c. [CHR 0xE2, CHR 0x99, if c = White then CHR 0x94 else CHR 0x9A]),
     cls_toFEN = (\<lambda>c. if c = White then ''K'' else ''k'')\<rparr>"

definition knight_class :: piece_class where
  "knight_class = \<lparr>cls_canMoveTo = knight_canMoveTo, cls_getType = Knight, cls_typeValue = 3,
     cls_name = ''knight'',
     cls_toString = (\<lambda>c. [CHR 0xE2, CHR 0x99, if c = White then CHR 0x98 else CHR 0x9E]),
     cls_toFEN = (\<lambda>c. if c = White then ''N'' else ''n'')\<rparr>"

definition pawn_class :: piece_class where
  "pawn_class = \<lparr>cls_canMoveTo = pawn_canMoveTo, cls_getType = Pawn, cls_typeValue = 1,
     cls_name = ''pawn'',
     cls_toString = (\<lambda>c. [CHR 0xE2, CHR 0x99, if c = White then CHR 0x99 else CHR 0x9F]),
     cls_toFEN = (\<lambda>c. if c = White then ''P'' else ''p'')\<rparr>"

definition queen_class :: piece_class where
  "queen_class = \<lparr>cls_canMoveTo = queen_canMoveTo, cls_getType = Queen, cls_typeValue = 9,
     cls_name = ''queen'',
     cls_toString = (\<lambda>c. [CHR 0xE2, CHR 0x99, if c = White then CHR 0x95 else CHR 0x9B]),
     cls_toFEN = (\<lambda>c. if c = White then ''Q'' else ''q'')\<rparr>"

definition rook_class :: piece_class where
  "rook_class = \<lparr>cls_canMoveTo = rook_canMoveTo, cls_getType = Rook, cls_typeValue = 5,
     cls_name = ''rook'',
     cls_toString = (\<lambda>c. [CHR 0xE2, CHR 0x99, if c = White then CHR 0x96 else CHR 0x9C]),
     cls_toFEN = (\<lambda>c. if c = White then ''R'' else ''r'')\<rparr>"

fun class_of :: "piece_type \<Rightarrow> piece_class" where
  "class_of Bishop = bishop_class"
| "class_of King = king_class"
| "class_of Knight = knight_class"
| "class_of Pawn = pawn_class"
| "class_of Queen = queen_class"
| "class_of Rook = rook_class"

definition canMoveTo :: "board \<Rightarrow> piece \<Rightarrow> square list" where
  "canMoveTo b p = cls_canMoveTo (class_of (pc_type p)) b p"

section \<open>Operations of the board\<close>

text \<open>
  The nested loops \<open>for row, for column\<close> visit the cells row by row.
\<close>

definition scan :: "(int \<times> int) list" where
  "scan = List.product [0..board_height - 1] [0..board_width - 1]"

text \<open>
  \<open>Board(const Board &)\<close> and \<open>operator=\<close> clone the piece of every cell; with pieces held by value
  both give the other board.  \<open>clone\<close> keeps colour and square.
\<close>

definition clone_cell :: "piece option \<Rightarrow> piece option" where
  "clone_cell v = map_option (\<lambda>p. \<lparr>pc_type = cls_getType (class_of (pc_type p)),
     pc_color = pc_color p, pc_square = pc_square p\<rparr>) v"

definition board_assign :: "board \<Rightarrow> board \<Rightarrow> board" where
  "board_assign b other =
     fold (\<lambda>(r, c). put_at (sq r c) (clone_cell (at_rc other r c))) scan b"

text \<open>
  \<open>isAttacked\<close> puts a rook of the other colour on the square for the time of the search and
  then puts the old piece back.  The result is the answer and the board.
\<close>

fun attack_search :: "board \<Rightarrow> color \<Rightarrow> square \<Rightarrow> (int \<times> int) list \<Rightarrow> bool" where
  "attack_search b c s [] = False"
| "attack_search b c s ((r, k) # rest) =
     (case at_rc b r k of
        None \<Rightarrow> attack_search b c s rest
      | Some p \<Rightarrow>
          if pc_color p \<noteq> c then attack_search b c s rest
          else if list_ex (\<lambda>m. square_eq m s) (canMoveTo b p) then True
          else attack_search b c s rest)"

definition isAttacked :: "board \<Rightarrow> color \<Rightarrow> square \<Rightarrow> bool \<times> board" where
  "isAttacked b c s =
     (let old_piece = at_square b s;
          new_piece = \<lparr>pc_type = Rook, pc_color = otherColor c, pc_square = s\<rparr>;
          b' = put_at s (Some new_piece) b
      in (attack_search b' c s scan, put_at s old_piece b'))"

text \<open>\<open>findKing\<close>: \<^const>\<open>None\<close> is the \<open>NoKingError\<close>.\<close>

fun king_search :: "board \<Rightarrow> color \<Rightarrow> (int \<times> int) list \<Rightarrow> piece option" where
  "king_search b c [] = None"
| "king_search b c ((r, k) # rest) =
     (case at_rc b r k of
        Some p \<Rightarrow>
          if pc_color p = c \<and> cls_getType (class_of (pc_type p)) = King then Some p
          else king_search b c rest
      | None \<Rightarrow> king_search b c rest)"

definition findKing :: "board \<Rightarrow> color \<Rightarrow> piece option" where
  "findKing b c = king_search b c scan"

definition isInCheck :: "board \<Rightarrow> color \<Rightarrow> bool \<times> board" where
  "isInCheck b c =
     (case findKing b c of None \<Rightarrow> (False, b) | Some king \<Rightarrow> isAttacked b c (pc_square king))"

text \<open>\<open>move\<close>: the new cell is written first, then the old one is cleared, then the piece is updated.\<close>

definition board_move :: "board \<Rightarrow> piece \<Rightarrow> square \<Rightarrow> board \<times> piece" where
  "board_move b p s =
     (let p' = p\<lparr>pc_square := s\<rparr>
      in (put_at (pc_square p) None (put_at s (Some p') b), p'))"

definition board_move_opt :: "board \<Rightarrow> piece option \<Rightarrow> square \<Rightarrow> board \<times> bool" where
  "board_move_opt b v s =
     (case v of None \<Rightarrow> (b, False) | Some p \<Rightarrow> (fst (board_move b p s), True))"

definition board_erase :: "board \<Rightarrow> piece option \<Rightarrow> board" where
  "board_erase b v = (case v of None \<Rightarrow> b | Some p \<Rightarrow> put_at (pc_square p) None b)"

definition board_erase_rc :: "board \<Rightarrow> int \<Rightarrow> int \<Rightarrow> board" where
  "board_erase_rc b r c = board_erase b (at_rc b r c)"

text \<open>
  \<open>isCheckmated\<close>: a move of the king that answers \<open>false\<close> returns at once, without putting the
  board back.
\<close>

fun checkmate_loop :: "color \<Rightarrow> board \<Rightarrow> square \<Rightarrow> piece \<Rightarrow> square list \<Rightarrow> board \<Rightarrow> bool \<times> board" where
  "checkmate_loop c old_board old_square king [] b = (True, b)"
| "checkmate_loop c old_board old_square king (s # squares) b =
     (let (b1, king1) = board_move b king s;
          (attacked, b2) = isAttacked b1 c (pc_square king1)
      in if \<not> attacked then (False, b2)
         else checkmate_loop c old_board old_square (king1\<lparr>pc_square := old_square\<rparr>) squares
                (board_assign b2 old_board))"

definition isCheckmated :: "board \<Rightarrow> color \<Rightarrow> bool \<times> board" where
  "isCheckmated b c =
     (case findKing b c of
        None \<Rightarrow> (True, b)
      | Some king \<Rightarrow>
          let (attacked, b1) = isAttacked b c (pc_square king)
          in if \<not> attacked then (False, b1)
             else checkmate_loop c b1 (pc_square king) king (canMoveTo b1 king) b1)"

definition cell_moves :: "board \<Rightarrow> piece \<Rightarrow> move list" where
  "cell_moves b p = map (\<lambda>t. \<lparr>mv_from = pc_square p, mv_to = t\<rparr>) (canMoveTo b p)"

fun moves_search :: "board \<Rightarrow> (piece \<Rightarrow> bool) \<Rightarrow> (int \<times> int) list \<Rightarrow> move list" where
  "moves_search b wanted [] = []"
| "moves_search b wanted ((r, k) # rest) =
     (case at_rc b r k of
        Some p \<Rightarrow> (if wanted p then cell_moves b p else []) @ moves_search b wanted rest
      | None \<Rightarrow> moves_search b wanted rest)"

definition allMoves :: "board \<Rightarrow> move list" where
  "allMoves b = moves_search b (\<lambda>p. True) scan"

definition allMoves_color :: "board \<Rightarrow> color \<Rightarrow> move list" where
  "allMoves_color b c = moves_search b (\<lambda>p. pc_color p = c) scan"

definition set_piece :: "piece_type \<Rightarrow> color \<Rightarrow> int \<Rightarrow> int \<Rightarrow> board \<Rightarrow> board" where
  "set_piece t c r k = put_at (sq r k) (Some \<lparr>pc_type = t, pc_color = c, pc_square = sq r k\<rparr>)"

definition back_rank :: "(piece_type \<times> int) list" where
  "back_rank = [(Rook, 0), (Knight, 1), (Bishop, 2), (Queen, 3), (King, 4), (Bishop, 5),
     (Knight, 6), (Rook, 7)]"

definition placePieces :: "board \<Rightarrow> board" where
  "placePieces b =
     (let b = fold (\<lambda>(r, c). put_at (sq r c) None) scan b;
          b = fold (\<lambda>(t, k). set_piece t Black 0 k) back_rank b;
          b = fold (\<lambda>(t, k). set_piece t White (board_height - 1) k) back_rank b
      in fold (\<lambda>k b. set_piece Pawn White (board_height - 2) k (set_piece Pawn Black 1 k b))
           [0..board_width - 1] b)"

text \<open>
  \<open>getPieces\<close>: the inner loop increments \<open>row\<close> instead of \<open>column\<close>.  \<^const>\<open>None\<close> is a loop that does not
  return.
\<close>

partial_function (option) getPieces_inner ::
  "board \<Rightarrow> color \<Rightarrow> int \<Rightarrow> int \<Rightarrow> piece list \<Rightarrow> (int \<times> piece list) option" where
  "getPieces_inner b c r k out =
     (if k < board_width
      then getPieces_inner b c (r + 1) k
             (case at_rc b r k of
                Some p \<Rightarrow> (if pc_color p = c then out @ [p] else out)
              | None \<Rightarrow> out)
      else Some (r, out))"

partial_function (option) getPieces_loop ::
  "board \<Rightarrow> color \<Rightarrow> int \<Rightarrow> piece list \<Rightarrow> piece list option" where
  "getPieces_loop b c r out =
     (if r < board_height
      then Option.bind (getPieces_inner b c r 0 out) (\<lambda>(r', out'). getPieces_loop b c (r' + 1) out')
      else Some out)"

definition getPieces :: "board \<Rightarrow> color \<Rightarrow> piece list option" where
  "getPieces b c = getPieces_loop b c 0 []"

section \<open>FEN and terminal text\<close>

definition fen_piece :: "char \<Rightarrow> (piece_type \<times> color) option" where
  "fen_piece ch =
     (if ch = CHR ''B'' then Some (Bishop, White) else if ch = CHR ''b'' then Some (Bishop, Black)
      else if ch = CHR ''K'' then Some (King, White) else if ch = CHR ''k'' then Some (King, Black)
      else if ch = CHR ''N'' then Some (Knight, White) else if ch = CHR ''n'' then Some (Knight, Black)
      else if ch = CHR ''P'' then Some (Pawn, White) else if ch = CHR ''p'' then Some (Pawn, Black)
      else if ch = CHR ''Q'' then Some (Queen, White) else if ch = CHR ''q'' then Some (Queen, Black)
      else if ch = CHR ''R'' then Some (Rook, White) else if ch = CHR ''r'' then Some (Rook, Black)
      else None)"

text \<open>A row of the text: a write beside the array is undefined behaviour.\<close>

fun load_row :: "int \<Rightarrow> int \<Rightarrow> string \<Rightarrow> board \<Rightarrow> board \<times> unit result" where
  "load_row r k [] b = (b, Inr ())"
| "load_row r k (ch # str) b =
     (if isNumericChar ch then load_row r (k + (int (ord ch) - 48)) str b
      else case fen_piece ch of
        None \<Rightarrow> (b, Inl (RuntimeError (''Unrecognized character in FEN: '' @ [ch])))
      | Some (t, c) \<Rightarrow>
          if square_bool (sq r k) then load_row r (k + 1) str (set_piece t c r k b)
          else (b, Inl (UndefinedBehaviour ''Board::set: index out of range'')))"

fun load_rows :: "int \<Rightarrow> string list \<Rightarrow> board \<Rightarrow> board \<times> unit result" where
  "load_rows r [] b = (b, Inr ())"
| "load_rows r (str # strs) b =
     (case load_row r 0 str b of
        (b', Inl e) \<Rightarrow> (b', Inl e)
      | (b', Inr _) \<Rightarrow> load_rows (r + 1) strs b')"

definition loadFEN :: "string \<Rightarrow> board \<Rightarrow> board \<times> unit result" where
  "loadFEN fen b =
     (case split_view fen ''/'' False of
        None \<Rightarrow> (b, Inl (UndefinedBehaviour ''split does not return''))
      | Some strs \<Rightarrow> load_rows 0 strs b)"

text \<open>\<open>toFEN\<close>: \<open>blank_run\<close> is the inner loop over \<open>i\<close>, which counts the blanks.\<close>

function blank_run :: "board \<Rightarrow> int \<Rightarrow> int \<Rightarrow> int \<Rightarrow> nat \<Rightarrow> int \<times> nat" where
  "blank_run b r k i blanks =
     (if k + i < board_width \<and> at_rc b r (k + i) = None then blank_run b r k (i + 1) (blanks + 1)
      else (i, blanks))"
  by auto

termination
  by (relation "measure (\<lambda>(b, r, k, i, blanks). nat (board_width - (k + i)))") auto

definition piece_toFEN :: "piece \<Rightarrow> string" where
  "piece_toFEN p = cls_toFEN (class_of (pc_type p)) (pc_color p)"

declare blank_run.simps [simp del]

lemma blank_run_ge: "i \<le> fst (blank_run b r k i n)"
proof (induction b r k i n rule: blank_run.induct)
  case (1 b r k i blanks)
  then show ?case by (subst blank_run.simps) (auto intro: order.trans [of i "i + 1"])
qed

function fen_row :: "board \<Rightarrow> int \<Rightarrow> int \<Rightarrow> string" where
  "fen_row b r k =
     (if k < board_width
      then case at_rc b r k of
             Some p \<Rightarrow> piece_toFEN p @ fen_row b r (k + 1)
           | None \<Rightarrow> (let run = blank_run b r k 1 1 in
                      to_string_nat (snd run) @ fen_row b r (k + (fst run - 1) + 1))
      else [])"
  by auto

termination
proof (relation "measure (\<lambda>(b, r, k). nat (board_width - k))")
  fix b r k and run :: "int \<times> nat"
  assume "k < board_width" "run = blank_run b r k 1 1"
  then show "((b, r, k + (fst run - 1) + 1), b, r, k) \<in> measure (\<lambda>(b, r, k). nat (board_width - k))"
    using blank_run_ge [of 1 b r k 1] by auto
qed auto

declare fen_row.simps [simp del]

definition toFEN :: "board \<Rightarrow> color \<Rightarrow> string" where
  "toFEN b c =
     concat (map (\<lambda>r. (if 0 < r then ''/'' else []) @ fen_row b r 0) [0..board_height - 1])
     @ '' '' @ (if c = White then ''w'' else ''b'') @ '' -'' @ '' -'' @ '' 0 1''"

definition esc :: "string \<Rightarrow> string" where
  "esc code = CHR 0x1B # code"

definition cell_bg :: "square list \<Rightarrow> int \<Rightarrow> int \<Rightarrow> string" where
  "cell_bg moves r c =
     (if list_ex (\<lambda>s. sq_row s = r \<and> sq_col s = c) moves then esc ''[43m''
      else if crem r 2 = crem c 2 then esc ''[47m'' else esc ''[100m'')"

definition cell_text :: "board \<Rightarrow> int \<Rightarrow> int \<Rightarrow> string" where
  "cell_text b r c =
     (case at_rc b r c of
        Some p \<Rightarrow> (if pc_color p = White then esc ''[37m'' else esc ''[30m'')
                   @ cls_toString (class_of (pc_type p)) Black
      | None \<Rightarrow> '' '')"

definition board_toString :: "board \<Rightarrow> piece option \<Rightarrow> string" where
  "board_toString b show_moves =
     (let moves = (case show_moves of Some p \<Rightarrow> canMoveTo b p | None \<Rightarrow> []);
          columns = [0..board_width - 1]
      in concat (map (\<lambda>r.
           concat (map (\<lambda>c. cell_bg moves r c @ to_string_int r @ to_string_int c @ ''   '' @ esc ''[0m'')
             columns) @ [CHR 0x0A]
           @ concat (map (\<lambda>c. cell_bg moves r c @ ''  '' @ cell_text b r c @ ''  '' @ esc ''[0m'')
             columns) @ [CHR 0x0A]
           @ concat (map (\<lambda>c. cell_bg moves r c @ ''     '' @ esc ''[0m'') columns) @ [CHR 0x0A])
         [0..board_height - 1]))"

section \<open>The well-formed board\<close>

text \<open>Eight rows of eight cells, and every piece knows the cell it stands on.\<close>

definition board_shape :: "board \<Rightarrow> bool" where
  "board_shape b \<longleftrightarrow> length (bd_pieces b) = 8 \<and> list_all (\<lambda>row. length row = 8) (bd_pieces b)"

definition board_ok :: "board \<Rightarrow> bool" where
  "board_ok b \<longleftrightarrow> board_shape b
    \<and> list_all (\<lambda>(r, c). case at_rc b r c of None \<Rightarrow> True | Some p \<Rightarrow> pc_square p = sq r c) scan"

named_theorems chess_simps \<open>rewrite rules for squares and cells\<close>

lemma square_not_bool [chess_simps]: "square_not s \<longleftrightarrow> \<not> square_bool s"
  by (auto simp: square_not_def square_bool_def)

lemma square_eq_iff [chess_simps]: "square_eq s t \<longleftrightarrow> s = t"
  by (cases s; cases t) (simp add: square_eq_def)

lemma square_neq_iff [chess_simps]: "square_neq s t \<longleftrightarrow> s \<noteq> t"
  by (cases s; cases t) (auto simp add: square_neq_def)

lemma set_scan [chess_simps]: "(r, c) \<in> set scan \<longleftrightarrow> square_bool (sq r c)"
  by (auto simp: scan_def board_height_def board_width_def square_bool_def)

lemma square_collapse [simp]: "sq (sq_row s) (sq_col s) = s"
  by simp

lemma at_rc_square: "at_rc b r c = at_square b (sq r c)"
  by (simp add: at_square_def)

lemma at_off_board [simp]: "\<not> square_bool s \<Longrightarrow> at_square b s = None"
  by (auto simp: at_square_def at_rc_def square_bool_def board_height_def board_width_def)

lemma at_SomeD: "at_square b s = Some p \<Longrightarrow> square_bool s"
  using at_off_board by fastforce

lemma at_on_board: "square_bool s \<Longrightarrow> at_square b s = bd_pieces b ! nat (sq_row s) ! nat (sq_col s)"
  by (auto simp: at_square_def at_rc_def square_bool_def board_height_def board_width_def)

lemma shape_row: "board_shape b \<Longrightarrow> i < 8 \<Longrightarrow> length (bd_pieces b ! i) = 8"
  by (simp add: board_shape_def list_all_length)

lemma board_shape_put [simp]:
  assumes "board_shape b" "square_bool s"
  shows "board_shape (put_at s v b)"
proof -
  let ?i = "nat (sq_row s)"
  have "\<forall>row \<in> set ((bd_pieces b)[?i := (bd_pieces b ! ?i)[nat (sq_col s) := v]]). length row = 8"
    using assms shape_row [OF assms(1)] set_update_subset_insert
    by (fastforce simp: board_shape_def list_all_iff square_bool_def)
  with assms show ?thesis by (simp add: board_shape_def put_at_def list_all_iff)
qed

lemma at_put:
  assumes "board_shape b" "square_bool s"
  shows "at_square (put_at s v b) t = (if t = s then v else at_square b t)"
proof (cases "square_bool t")
  case True
  let ?i = "nat (sq_row s)" and ?j = "nat (sq_col s)"
  have "?i < 8" "?j < 8" using assms(2) by (auto simp: square_bool_def)
  moreover have "length (bd_pieces b) = 8" "length (bd_pieces b ! ?i) = 8"
    using assms(1) shape_row [OF assms(1) \<open>?i < 8\<close>] by (auto simp: board_shape_def)
  moreover have "t = s \<longleftrightarrow> nat (sq_row t) = ?i \<and> nat (sq_col t) = ?j"
    using True assms(2) by (cases s; cases t) (auto simp: square_bool_def nat_eq_iff)
  ultimately show ?thesis
    using True by (auto simp: at_on_board put_at_def nth_list_update)
qed (use assms in auto)

lemma board_eqI:
  assumes "board_shape b" "board_shape b'" "\<And>s. square_bool s \<Longrightarrow> at_square b s = at_square b' s"
  shows "b = b'"
proof -
  have "bd_pieces b ! i ! j = bd_pieces b' ! i ! j" if "i < 8" "j < 8" for i j
    using assms(3) [of "sq (int i) (int j)"] that by (simp add: square_bool_def at_on_board)
  then have "bd_pieces b = bd_pieces b'"
    using assms(1,2) shape_row [OF assms(1)] shape_row [OF assms(2)]
    by (auto intro!: nth_equalityI simp: board_shape_def)
  then show ?thesis by simp
qed

lemma put_put: "board_shape b \<Longrightarrow> square_bool s \<Longrightarrow> put_at s v (put_at s w b) = put_at s v b"
  by (rule board_eqI) (auto simp: at_put)

lemma put_same: "board_shape b \<Longrightarrow> square_bool s \<Longrightarrow> put_at s (at_square b s) b = b"
  by (rule board_eqI) (auto simp: at_put)

lemma board_ok_iff:
  "board_ok b \<longleftrightarrow> board_shape b \<and> (\<forall>s p. at_square b s = Some p \<longrightarrow> pc_square p = s)"
proof -
  have "(\<forall>(r, c) \<in> set scan. case at_rc b r c of None \<Rightarrow> True | Some p \<Rightarrow> pc_square p = sq r c)
    \<longleftrightarrow> (\<forall>s p. at_square b s = Some p \<longrightarrow> pc_square p = s)" (is "?l \<longleftrightarrow> ?r")
  proof
    assume l: ?l
    show ?r
    proof (intro allI impI)
      fix s p assume at: "at_square b s = Some p"
      then have "(sq_row s, sq_col s) \<in> set scan" using at_SomeD set_scan by fastforce
      with l at show "pc_square p = s" by (fastforce simp: at_rc_square)
    qed
  qed (auto simp: at_rc_square split: option.splits)
  then show ?thesis by (simp add: board_ok_def list_all_iff)
qed

lemma board_ok_shape [simp]: "board_ok b \<Longrightarrow> board_shape b"
  by (simp add: board_ok_iff)

lemma board_ok_square: "board_ok b \<Longrightarrow> at_square b s = Some p \<Longrightarrow> pc_square p = s"
  by (simp add: board_ok_iff)

lemma board_ok_put:
  "board_ok b \<Longrightarrow> square_bool s \<Longrightarrow> (\<And>p. v = Some p \<Longrightarrow> pc_square p = s) \<Longrightarrow> board_ok (put_at s v b)"
  by (auto simp: board_ok_iff at_put)

section \<open>The rules of the game\<close>

text \<open>
  What the pieces should be able to do, in terms of the differences of rows and columns: a
  sliding piece needs an empty line strictly between the two squares, the others jump.  Pawns
  go forward to empty squares, two at once from their starting row, and capture diagonally.
  Nothing moves off the board or onto a piece of its own colour.
\<close>

definition d_row :: "square \<Rightarrow> square \<Rightarrow> int" where
  "d_row s t = sq_row t - sq_row s"

definition d_col :: "square \<Rightarrow> square \<Rightarrow> int" where
  "d_col s t = sq_col t - sq_col s"

definition dist :: "square \<Rightarrow> square \<Rightarrow> int" where
  "dist s t = max (abs (d_row s t)) (abs (d_col s t))"

definition line_clear :: "board \<Rightarrow> square \<Rightarrow> square \<Rightarrow> bool" where
  "line_clear b s t \<longleftrightarrow> list_all (\<lambda>j. at_square b
     (sq (sq_row s + j * sgn (d_row s t)) (sq_col s + j * sgn (d_col s t))) = None) [1..dist s t - 1]"

definition own_piece :: "board \<Rightarrow> color \<Rightarrow> square \<Rightarrow> bool" where
  "own_piece b c t \<longleftrightarrow> (case at_square b t of None \<Rightarrow> False | Some p \<Rightarrow> pc_color p = c)"

definition forward :: "color \<Rightarrow> int" where
  "forward c = (if c = Black then 1 else - 1)"

fun pattern :: "board \<Rightarrow> piece_type \<Rightarrow> color \<Rightarrow> square \<Rightarrow> square \<Rightarrow> bool" where
  "pattern b Bishop c s t \<longleftrightarrow> abs (d_row s t) = abs (d_col s t) \<and> d_row s t \<noteq> 0 \<and> line_clear b s t"
| "pattern b Rook c s t \<longleftrightarrow> (d_row s t = 0) \<noteq> (d_col s t = 0) \<and> line_clear b s t"
| "pattern b Queen c s t \<longleftrightarrow> s \<noteq> t \<and> line_clear b s t
     \<and> (abs (d_row s t) = abs (d_col s t) \<or> d_row s t = 0 \<or> d_col s t = 0)"
| "pattern b King c s t \<longleftrightarrow> dist s t = 1"
| "pattern b Knight c s t \<longleftrightarrow> {abs (d_row s t), abs (d_col s t)} = {1, 2}"
| "pattern b Pawn c s t \<longleftrightarrow>
     (d_col s t = 0 \<and> d_row s t = forward c \<and> at_square b t = None)
   \<or> (d_col s t = 0 \<and> d_row s t = 2 * forward c \<and> at_square b t = None
       \<and> sq_row s = (if c = Black then 1 else 6) \<and> line_clear b s t)
   \<or> (abs (d_col s t) = 1 \<and> d_row s t = forward c \<and> at_square b t \<noteq> None)"

definition may_move :: "board \<Rightarrow> piece \<Rightarrow> square \<Rightarrow> bool" where
  "may_move b p t \<longleftrightarrow> square_bool t \<and> \<not> own_piece b (pc_color p) t
     \<and> pattern b (pc_type p) (pc_color p) (pc_square p) t"

lemma set_piece_filter [chess_simps]:
  "set (piece_filter b p ss) = {s \<in> set ss. square_bool s \<and> \<not> own_piece b (pc_color p) s}"
  by (induction ss) (auto simp: square_not_bool own_piece_def split: option.splits)

lemma distinct_piece_filter: "distinct ss \<Longrightarrow> distinct (piece_filter b p ss)"
  by (induction ss) (auto simp: set_piece_filter split: option.splits)

abbreviation steps :: "square \<Rightarrow> int \<times> int \<Rightarrow> int \<Rightarrow> square" where
  "steps s d j \<equiv> sq (sq_row s + j * fst d) (sq_col s + j * snd d)"

lemma steps_offset: "steps (square_offset s d) d j = steps s d (j + 1)"
  by (simp add: square_offset_def algebra_simps)

lemma slide_iff:
  "t \<in> set (slide b (\<lambda>s. square_offset s d) n s) \<longleftrightarrow>
     (\<exists>k \<ge> 1. k \<le> int n \<and> t = steps s d k \<and> (\<forall>j. 1 \<le> j \<and> j \<le> k \<longrightarrow> square_bool (steps s d j))
       \<and> (\<forall>j. 1 \<le> j \<and> j < k \<longrightarrow> at_square b (steps s d j) = None))"
proof (induction n arbitrary: s)
  case 0
  then show ?case by auto
next
  case (Suc n)
  let ?s = "square_offset s d"
  have one: "steps s d 1 = ?s" by (simp add: square_offset_def)
  show ?case (is "?l \<longleftrightarrow> ?r")
  proof
    assume ?l
    then have on: "square_bool ?s" by (auto simp: Let_def square_not_bool split: if_splits)
    from \<open>?l\<close> consider "t = ?s"
      | "at_square b ?s = None" "t \<in> set (slide b (\<lambda>s. square_offset s d) n ?s)"
      by (auto simp: Let_def split: if_splits)
    then show ?r
    proof cases
      case 1
      then show ?thesis using on one by (intro exI [of _ 1]) (auto dest: order.antisym)
    next
      case 2
      then obtain k where k: "1 \<le> k" "k \<le> int n" "t = steps s d (k + 1)"
        "\<forall>j. 1 \<le> j \<and> j \<le> k \<longrightarrow> square_bool (steps s d (j + 1))"
        "\<forall>j. 1 \<le> j \<and> j < k \<longrightarrow> at_square b (steps s d (j + 1)) = None"
        unfolding Suc.IH steps_offset by blast
      have "square_bool (steps s d j)" if "1 \<le> j" "j \<le> k + 1" for j
        using that k(4) [rule_format, of "j - 1"] on one by (cases "j = 1") auto
      moreover have "at_square b (steps s d j) = None" if "1 \<le> j" "j < k + 1" for j
        using that k(5) [rule_format, of "j - 1"] 2(1) one by (cases "j = 1") auto
      ultimately show ?thesis using k(1-3) by (intro exI [of _ "k + 1"]) auto
    qed
  next
    assume ?r
    then obtain k where k: "1 \<le> k" "k \<le> int n + 1" "t = steps s d k"
        "\<forall>j. 1 \<le> j \<and> j \<le> k \<longrightarrow> square_bool (steps s d j)"
        "\<forall>j. 1 \<le> j \<and> j < k \<longrightarrow> at_square b (steps s d j) = None"
      by auto
    from k(1,4) have on: "square_bool ?s" using one by fastforce
    show ?l
    proof (cases "k = 1")
      case True
      then show ?thesis using k(3) on one by (simp add: Let_def square_not_bool)
    next
      case False
      with k(1) have "1 \<le> k - 1" by simp
      moreover have "at_square b ?s = None" using k(5) [rule_format, of 1] False k(1) one by simp
      moreover have "\<forall>j. 1 \<le> j \<and> j \<le> k - 1 \<longrightarrow> square_bool (steps s d (j + 1))"
        "\<forall>j. 1 \<le> j \<and> j < k - 1 \<longrightarrow> at_square b (steps s d (j + 1)) = None" using k(4,5) by auto
      ultimately have "t \<in> set (slide b (\<lambda>s. square_offset s d) n ?s)"
        unfolding Suc.IH steps_offset using k(2,3) by (intro exI [of _ "k - 1"]) auto
      with on \<open>at_square b ?s = None\<close> show ?thesis by (simp add: Let_def square_not_bool)
    qed
  qed
qed

definition unit_dirs :: "(int \<times> int) set" where
  "unit_dirs = {(1, 1), (1, - 1), (- 1, - 1), (- 1, 1), (- 1, 0), (1, 0), (0, - 1), (0, 1)}"

lemma dir_steps:
  assumes "d \<in> unit_dirs" "1 \<le> k"
  shows "d_row s (steps s d k) = k * fst d" "d_col s (steps s d k) = k * snd d"
    "dist s (steps s d k) = k" "sgn (k * fst d) = fst d" "sgn (k * snd d) = snd d"
  using assms by (auto simp: unit_dirs_def d_row_def d_col_def dist_def)

lemma dir_between:
  assumes "d \<in> unit_dirs" "square_bool s" "square_bool (steps s d k)" "0 \<le> j" "j \<le> k"
  shows "square_bool (steps s d j)"
  using assms by (auto simp: unit_dirs_def square_bool_def)

lemma dir_bound: "d \<in> unit_dirs \<Longrightarrow> square_bool s \<Longrightarrow> square_bool (steps s d k) \<Longrightarrow> k \<le> 7"
  by (auto simp: unit_dirs_def square_bool_def)

text \<open>Seven steps are enough: a slide reaches every square of its line up to the first piece.\<close>

lemma slide_line:
  assumes d: "d \<in> unit_dirs" and s: "square_bool s"
  shows "t \<in> set (slide b (\<lambda>s. square_offset s d) 7 s) \<longleftrightarrow>
     square_bool t \<and> 0 < dist s t \<and> t = steps s d (dist s t) \<and> line_clear b s t"
proof -
  have clear: "line_clear b s (steps s d k) \<longleftrightarrow>
      (\<forall>j. 1 \<le> j \<and> j < k \<longrightarrow> at_square b (steps s d j) = None)" if "1 \<le> k" for k
    using dir_steps [OF d that] by (auto simp: line_clear_def list_all_iff)
  show ?thesis (is "?l \<longleftrightarrow> ?r")
  proof
    assume ?l
    then obtain k where k: "1 \<le> k" "t = steps s d k" "square_bool (steps s d k)"
        "\<forall>j. 1 \<le> j \<and> j < k \<longrightarrow> at_square b (steps s d j) = None"
      unfolding slide_iff by auto
    then show ?r using clear [OF k(1)] dir_steps(3) [OF d k(1)] by simp
  next
    assume r: ?r
    let ?k = "dist s t"
    from r have k: "1 \<le> ?k" "t = steps s d ?k" "square_bool (steps s d ?k)" by auto
    from dir_bound [OF d s k(3)] dir_between [OF d s k(3)] clear [OF k(1)] k r show ?l
      unfolding slide_iff by (intro exI [of _ ?k]) auto
  qed
qed

lemma straight_steps:
  "(\<lambda>s. square_minus s 1) = (\<lambda>s. square_offset s (- 1, 0))"
  "(\<lambda>s. square_plus s 1) = (\<lambda>s. square_offset s (1, 0))"
  "(\<lambda>s. square_left s 1) = (\<lambda>s. square_offset s (0, - 1))"
  "(\<lambda>s. square_right s 1) = (\<lambda>s. square_offset s (0, 1))"
  by (auto simp: square_minus_def square_plus_def square_left_def square_right_def square_offset_def)

lemma steps_dist_iff:
  "0 < dist s t \<and> t = steps s d (dist s t) \<longleftrightarrow>
     0 < dist s t \<and> d_row s t = dist s t * fst d \<and> d_col s t = dist s t * snd d"
  by (cases t) (auto simp: d_row_def d_col_def)

lemmas line_simps = slide_line unit_dirs_def steps_dist_iff [unfolded conj_assoc]

lemma bishop_arith: fixes x y :: int
  shows "0 < max (abs x) (abs y) \<and> x = max (abs x) (abs y) * 1 \<and> y = max (abs x) (abs y) * 1
    \<or> 0 < max (abs x) (abs y) \<and> x = max (abs x) (abs y) * 1 \<and> y = max (abs x) (abs y) * - 1
    \<or> 0 < max (abs x) (abs y) \<and> x = max (abs x) (abs y) * - 1 \<and> y = max (abs x) (abs y) * - 1
    \<or> 0 < max (abs x) (abs y) \<and> x = max (abs x) (abs y) * - 1 \<and> y = max (abs x) (abs y) * 1 \<longleftrightarrow> (abs x) = (abs y) \<and> x \<noteq> 0"
    (is "?l \<longleftrightarrow> ?r")
proof
  assume r: ?r
  then have "y = x \<or> y = - x" by arith
  with r show ?l by (cases "0 < x") auto
qed (elim disjE conjE; simp)

lemma rook_arith: fixes x y :: int
  shows "0 < max (abs x) (abs y) \<and> x = max (abs x) (abs y) * - 1 \<and> y = max (abs x) (abs y) * 0
    \<or> 0 < max (abs x) (abs y) \<and> x = max (abs x) (abs y) * 1 \<and> y = max (abs x) (abs y) * 0
    \<or> 0 < max (abs x) (abs y) \<and> x = max (abs x) (abs y) * 0 \<and> y = max (abs x) (abs y) * - 1
    \<or> 0 < max (abs x) (abs y) \<and> x = max (abs x) (abs y) * 0 \<and> y = max (abs x) (abs y) * 1 \<longleftrightarrow> (x = 0) \<noteq> (y = 0)"
  by (cases "x = 0"; cases "y = 0"; simp add: max_def; arith)

lemma king_arith: fixes x y :: int
  shows "max (abs x) (abs y) = 1 \<longleftrightarrow> (x, y) \<in> set [(- 1, 0), (- 1, 1), (0, 1), (1, 1), (1, 0), (1, - 1), (0, - 1), (- 1, - 1)]"
proof 
  assume "max (abs x) (abs y) = 1"
  then have "x \<in> {-1,0,1}" "y \<in> {-1,0,1}" by (auto simp: max_def split: if_splits)
  with \<open>max (abs x) (abs y) = 1\<close> show "(x, y) \<in> set [(- 1, 0), (- 1, 1), (0, 1), (1, 1), (1, 0), (1, - 1), (0, - 1), (- 1, - 1)]" by auto
qed auto

lemma knight_arith: fixes x y :: int
  shows "{(abs x), (abs y)} = {1, 2} \<longleftrightarrow> (x, y) \<in> set [(- 2, - 1), (- 2, 1), (- 1, 2), (1, 2), (2, 1), (2, - 1), (1, - 2), (- 1, - 2)]"
proof 
  assume l: "{(abs x), (abs y)} = {1, 2}"
  then have "x \<in> {-1,1} \<and> y \<in> {-2,2} \<or> x \<in> {-2,2} \<and> y \<in> {-1,1}" by (auto simp: doubleton_eq_iff)
  then show "(x, y) \<in> set [(- 2, - 1), (- 2, 1), (- 1, 2), (1, 2), (2, 1), (2, - 1), (1, - 2), (- 1, - 2)]" by auto
qed auto

lemma bishop_correct:
  "square_bool s \<Longrightarrow> set (slide b (\<lambda>s. square_offset s (1, 1)) 7 s)
     \<union> set (slide b (\<lambda>s. square_offset s (1, - 1)) 7 s)
     \<union> set (slide b (\<lambda>s. square_offset s (- 1, - 1)) 7 s)
     \<union> set (slide b (\<lambda>s. square_offset s (- 1, 1)) 7 s) =
   {t. square_bool t \<and> abs (d_row s t) = abs (d_col s t) \<and> d_row s t \<noteq> 0 \<and> line_clear b s t}"
proof (intro set_eqI)
  fix t assume s: "square_bool s"
  have "(0 < dist s t \<and> t = steps s (1, 1) (dist s t)) \<or> (0 < dist s t \<and> t = steps s (1, - 1) (dist s t))
    \<or> (0 < dist s t \<and> t = steps s (- 1, - 1) (dist s t)) \<or> (0 < dist s t \<and> t = steps s (- 1, 1) (dist s t))
    \<longleftrightarrow> abs (d_row s t) = abs (d_col s t) \<and> d_row s t \<noteq> 0"
    unfolding steps_dist_iff unfolding dist_def fst_conv snd_conv by (rule bishop_arith)
  with s show "t \<in> set (slide b (\<lambda>s. square_offset s (1, 1)) 7 s)
     \<union> set (slide b (\<lambda>s. square_offset s (1, - 1)) 7 s)
     \<union> set (slide b (\<lambda>s. square_offset s (- 1, - 1)) 7 s)
     \<union> set (slide b (\<lambda>s. square_offset s (- 1, 1)) 7 s) \<longleftrightarrow>
    t \<in> {t. square_bool t \<and> abs (d_row s t) = abs (d_col s t) \<and> d_row s t \<noteq> 0 \<and> line_clear b s t}"
    by (simp add: slide_line unit_dirs_def) blast
qed

lemma rook_correct:
  "square_bool s \<Longrightarrow> set (slide b (\<lambda>s. square_minus s 1) 7 s)
     \<union> set (slide b (\<lambda>s. square_plus s 1) 7 s)
     \<union> set (slide b (\<lambda>s. square_left s 1) 7 s)
     \<union> set (slide b (\<lambda>s. square_right s 1) 7 s) =
   {t. square_bool t \<and> (d_row s t = 0) \<noteq> (d_col s t = 0) \<and> line_clear b s t}"
  unfolding straight_steps
proof (intro set_eqI)
  fix t assume s: "square_bool s"
  have "(0 < dist s t \<and> t = steps s (- 1, 0) (dist s t)) \<or> (0 < dist s t \<and> t = steps s (1, 0) (dist s t))
    \<or> (0 < dist s t \<and> t = steps s (0, - 1) (dist s t)) \<or> (0 < dist s t \<and> t = steps s (0, 1) (dist s t))
    \<longleftrightarrow> (d_row s t = 0) \<noteq> (d_col s t = 0)"
    unfolding steps_dist_iff unfolding dist_def fst_conv snd_conv by (rule rook_arith)
  with s show "t \<in> set (slide b (\<lambda>s. square_offset s (- 1, 0)) 7 s)
     \<union> set (slide b (\<lambda>s. square_offset s (1, 0)) 7 s)
     \<union> set (slide b (\<lambda>s. square_offset s (0, - 1)) 7 s)
     \<union> set (slide b (\<lambda>s. square_offset s (0, 1)) 7 s) \<longleftrightarrow>
    t \<in> {t. square_bool t \<and> (d_row s t = 0) \<noteq> (d_col s t = 0) \<and> line_clear b s t}"
    by (simp add: slide_line unit_dirs_def) blast
qed

lemma queen_line_iff:
  "s \<noteq> t \<and> (abs (d_row s t) = abs (d_col s t) \<or> d_row s t = 0 \<or> d_col s t = 0) \<longleftrightarrow>
     (abs (d_row s t) = abs (d_col s t) \<and> d_row s t \<noteq> 0) \<or> (d_row s t = 0) \<noteq> (d_col s t = 0)"
  by (cases s; cases t) (auto simp: d_row_def d_col_def)

lemma mem_offsets: "t \<in> square_offset s ` D \<longleftrightarrow> (d_row s t, d_col s t) \<in> D"
  by (cases s; cases t) (force simp: square_offset_def d_row_def d_col_def image_iff)

lemma king_offsets:
  "t \<in> square_offset s ` set [(- 1, 0), (- 1, 1), (0, 1), (1, 1), (1, 0), (1, - 1), (0, - 1), (- 1, - 1)]
    \<longleftrightarrow> dist s t = 1"
  unfolding mem_offsets dist_def by (rule king_arith [symmetric])

lemma knight_offsets:
  "t \<in> square_offset s ` set [(- 2, - 1), (- 2, 1), (- 1, 2), (1, 2), (2, 1), (2, - 1), (1, - 2), (- 1, - 2)]
    \<longleftrightarrow> {abs (d_row s t), abs (d_col s t)} = {1, 2}"
  unfolding mem_offsets by (rule knight_arith [symmetric])

lemma pawn_mem:
  "t \<in> set ((if at_square b f = None then f # (if R \<and> at_square b a = None then [a] else []) else [])
      @ (if at_square b w \<noteq> None then [w] else []) @ (if at_square b e \<noteq> None then [e] else [])) \<longleftrightarrow>
    t = f \<and> at_square b t = None \<or> t = a \<and> at_square b t = None \<and> at_square b f = None \<and> R
    \<or> (t = w \<or> t = e) \<and> at_square b t \<noteq> None"
  by auto

lemma pawn_correct:
  assumes "pc_type p = Pawn"
  shows "set (pawn_canMoveTo b p) = {t. may_move b p t}"
proof -
  let ?s = "pc_square p" and ?c = "pc_color p"
  let ?front = "sq (sq_row ?s + forward ?c) (sq_col ?s)"
  let ?ahead = "sq (sq_row ?s + 2 * forward ?c) (sq_col ?s)"
  have front: "t = ?front \<longleftrightarrow> d_col ?s t = 0 \<and> d_row ?s t = forward ?c"
    and ahead: "t = ?ahead \<longleftrightarrow> d_col ?s t = 0 \<and> d_row ?s t = 2 * forward ?c"
    and sides: "t = sq (sq_row ?s + forward ?c) (sq_col ?s - 1) \<or> t = sq (sq_row ?s + forward ?c) (sq_col ?s + 1)
      \<longleftrightarrow> abs (d_col ?s t) = 1 \<and> d_row ?s t = forward ?c" for t
    by (cases t; auto simp: d_row_def d_col_def)+
  have clear: "line_clear b ?s ?ahead \<longleftrightarrow> at_square b ?front = None"
    by (auto simp: line_clear_def dist_def d_row_def d_col_def forward_def sgn_if upto.simps)
  have pawn_eq: "pawn_canMoveTo b p = piece_filter b p
     ((if at_square b ?front = None then ?front #
         (if sq_row ?s = (if ?c = Black then 1 else 6) \<and> at_square b ?ahead = None then [?ahead] else [])
       else [])
      @ (if at_square b (sq (sq_row ?s + forward ?c) (sq_col ?s - 1)) \<noteq> None
         then [sq (sq_row ?s + forward ?c) (sq_col ?s - 1)] else [])
      @ (if at_square b (sq (sq_row ?s + forward ?c) (sq_col ?s + 1)) \<noteq> None
         then [sq (sq_row ?s + forward ?c) (sq_col ?s + 1)] else []))"
    by (cases ?c)
      (auto simp: pawn_canMoveTo_def Let_def square_plus_def square_left_def square_right_def forward_def
        algebra_simps)
  have mem: "t \<in> set (pawn_canMoveTo b p) \<longleftrightarrow> square_bool t \<and> \<not> own_piece b ?c t
     \<and> (t = ?front \<and> at_square b t = None
       \<or> t = ?ahead \<and> at_square b t = None \<and> at_square b ?front = None \<and> sq_row ?s = (if ?c = Black then 1 else 6)
       \<or> (t = sq (sq_row ?s + forward ?c) (sq_col ?s - 1) \<or> t = sq (sq_row ?s + forward ?c) (sq_col ?s + 1))
         \<and> at_square b t \<noteq> None)" for t
    unfolding pawn_eq set_piece_filter mem_Collect_eq pawn_mem by blast
  show ?thesis
  proof (rule set_eqI)
    fix t
    have "t = ?ahead \<and> line_clear b ?s t \<longleftrightarrow> t = ?ahead \<and> at_square b ?front = None" using clear by blast
    then show "t \<in> set (pawn_canMoveTo b p) \<longleftrightarrow> t \<in> {t. may_move b p t}"
      unfolding mem mem_Collect_eq may_move_def assms pattern.simps front ahead sides by blast
  qed
qed

lemma slide_distinct: "d \<in> unit_dirs \<Longrightarrow> distinct (slide b (\<lambda>s. square_offset s d) n s)"
proof (induction n arbitrary: s)
  case (Suc n)
  have "square_offset s d \<notin> set (slide b (\<lambda>s. square_offset s d) n (square_offset s d))"
  proof
    assume "square_offset s d \<in> set (slide b (\<lambda>s. square_offset s d) n (square_offset s d))"
    then obtain k where "1 \<le> k" "square_offset s d = steps (square_offset s d) d k"
      unfolding slide_iff by blast
    then have "k * fst d = 0" "k * snd d = 0" "k \<noteq> 0" by (simp_all add: square_offset_def)
    with Suc.prems show False by (auto simp: unit_dirs_def)
  qed
  with Suc show ?case by (simp add: Let_def)
qed simp

declare piece_filter.simps [simp del] slide.simps [simp del]

lemma slides_distinct:
  assumes "set ds \<subseteq> unit_dirs" "distinct ds" "square_bool s"
  shows "distinct (concat (map (\<lambda>d. slide b (\<lambda>s. square_offset s d) 7 s) ds))"
  using assms
proof (induction ds)
  case (Cons d ds)
  have "set (slide b (\<lambda>s. square_offset s d) 7 s) \<inter> set (slide b (\<lambda>s. square_offset s e) 7 s) = {}"
    if e: "e \<in> set ds" for e
  proof (rule ccontr)
    assume "set (slide b (\<lambda>s. square_offset s d) 7 s) \<inter> set (slide b (\<lambda>s. square_offset s e) 7 s) \<noteq> {}"
    then obtain t where mem: "t \<in> set (slide b (\<lambda>s. square_offset s d) 7 s)"
      "t \<in> set (slide b (\<lambda>s. square_offset s e) 7 s)" by blast
    have "d \<in> unit_dirs" "e \<in> unit_dirs" using Cons.prems(1) e by auto
    with mem have t: "0 < dist s t" "t = steps s d (dist s t)" "t = steps s e (dist s t)"
      using slide_line [OF _ Cons.prems(3)] by blast+
    then have "steps s d (dist s t) = steps s e (dist s t)" by metis
    with t(1) have "d = e" by (auto intro: prod_eqI)
    with e Cons.prems show False by simp
  qed
  with Cons show ?case by (auto simp: slide_distinct)
qed simp

lemmas canMoveTo_defs = canMoveTo_def bishop_class_def king_class_def knight_class_def pawn_class_def
  queen_class_def rook_class_def bishop_canMoveTo_def king_canMoveTo_def knight_canMoveTo_def
  queen_canMoveTo_def rook_canMoveTo_def

lemma canMoveTo_distinct:
  assumes s: "square_bool (pc_square p)"
  shows "distinct (canMoveTo b p)"
proof -
  have dirs: "set [(1, 1), (1, - 1), (- 1, - 1), (- 1, 1)] \<subseteq> unit_dirs"
    "set [(- 1, 0), (1, 0), (0, - 1), (0, 1)] \<subseteq> unit_dirs"
    "set [(1, 1), (1, - 1), (- 1, - 1), (- 1, 1), (- 1, 0), (1, 0), (0, - 1), (0, 1)] \<subseteq> unit_dirs"
    by (simp_all add: unit_dirs_def)
  have slides: "distinct (concat (map (\<lambda>d. slide b (\<lambda>s. square_offset s d) 7 (pc_square p)) [(1, 1), (1, - 1), (- 1, - 1), (- 1, 1)]))"
    "distinct (concat (map (\<lambda>d. slide b (\<lambda>s. square_offset s d) 7 (pc_square p)) [(- 1, 0), (1, 0), (0, - 1), (0, 1)]))"
    "distinct (concat (map (\<lambda>d. slide b (\<lambda>s. square_offset s d) 7 (pc_square p)) 
      [(1, 1), (1, - 1), (- 1, - 1), (- 1, 1), (- 1, 0), (1, 0), (0, - 1), (0, 1)]))"
    by (rule slides_distinct [OF _ _ s], rule dirs, simp)+
  have "distinct (pawn_canMoveTo b p)"
    unfolding pawn_canMoveTo_def Let_def
    by (rule distinct_piece_filter)
      (auto simp: square_plus_def square_left_def square_right_def)
  moreover have "distinct (king_canMoveTo b p)" "distinct (knight_canMoveTo b p)"
    unfolding king_canMoveTo_def knight_canMoveTo_def
    by (rule distinct_piece_filter; simp add: square_offset_def)+
  moreover have "distinct (bishop_canMoveTo b p)" "distinct (rook_canMoveTo b p)" "distinct (queen_canMoveTo b p)"
    unfolding bishop_canMoveTo_def rook_canMoveTo_def queen_canMoveTo_def straight_steps
    by (rule distinct_piece_filter, use slides in \<open>simp only: concat.simps list.map append_Nil2\<close>)+
  ultimately show ?thesis
    by (cases "pc_type p") (simp_all add: canMoveTo_def bishop_class_def king_class_def knight_class_def
      pawn_class_def queen_class_def rook_class_def)
qed

lemma canMoveTo_may_move:
  assumes s: "square_bool (pc_square p)"
  shows "set (canMoveTo b p) = {t. may_move b p t}"
proof (cases "pc_type p")
  case Bishop
  then show ?thesis using bishop_correct [OF s, of b]
    by (auto simp: canMoveTo_defs set_piece_filter may_move_def Un_assoc)
next
  case King
  then show ?thesis using king_offsets
    by (simp add: canMoveTo_defs set_piece_filter may_move_def) blast
next
  case Knight
  then show ?thesis using knight_offsets
    by (simp add: canMoveTo_defs set_piece_filter may_move_def) blast
next
  case Pawn
  then show ?thesis using pawn_correct [OF Pawn, of b] by (simp add: canMoveTo_defs)
next
  case Queen
  have "set (queen_canMoveTo b p) =
      {t. square_bool t \<and> \<not> own_piece b (pc_color p) t \<and> line_clear b (pc_square p) t
        \<and> pc_square p \<noteq> t \<and> (abs (d_row (pc_square p) t) = abs (d_col (pc_square p) t)
            \<or> d_row (pc_square p) t = 0 \<or> d_col (pc_square p) t = 0)}"
    unfolding queen_line_iff using bishop_correct [OF s, of b] rook_correct [OF s, of b]
    unfolding queen_canMoveTo_def set_piece_filter set_append by blast
  with Queen show ?thesis by (auto simp: canMoveTo_def queen_class_def may_move_def)
next
  case Rook
  then show ?thesis using rook_correct [OF s, of b]
    by (auto simp: canMoveTo_defs set_piece_filter may_move_def Un_assoc)
qed

text \<open>
  (C30) The moves of the pieces.  For a piece that stands on the board, \<open>canMoveTo\<close> lists,
  without repetition, exactly the squares the rules of the game allow: the hand-written loops
  of the six classes agree with the description by differences of rows and columns.
\<close>

theorem canMoveTo_correct:
  assumes "square_bool (pc_square p)"
  shows "distinct (canMoveTo b p) \<and> (\<forall>t. t \<in> set (canMoveTo b p) \<longleftrightarrow> may_move b p t)"
  using canMoveTo_distinct [OF assms] canMoveTo_may_move [OF assms] by blast

lemma canMoveTo_on_board: "t \<in> set (canMoveTo b p) \<Longrightarrow> square_bool t"
  by (cases "pc_type p") (auto simp: canMoveTo_defs pawn_canMoveTo_def Let_def set_piece_filter)

text \<open>The white king's knight of the starting position has its two moves.\<close>

theorem canMoveTo_correct_witness:
  "square_bool (sq 7 1)
   \<and> distinct (canMoveTo (placePieces new_board) \<lparr>pc_type = Knight, pc_color = White, pc_square = sq 7 1\<rparr>)
   \<and> (\<forall>t. t \<in> set (canMoveTo (placePieces new_board) \<lparr>pc_type = Knight, pc_color = White, pc_square = sq 7 1\<rparr>)
        \<longleftrightarrow> may_move (placePieces new_board) \<lparr>pc_type = Knight, pc_color = White, pc_square = sq 7 1\<rparr> t)
   \<and> canMoveTo (placePieces new_board) \<lparr>pc_type = Knight, pc_color = White, pc_square = sq 7 1\<rparr>
      = [sq 5 0, sq 5 2]"
proof -
  have on: "square_bool (sq 7 1)" by code_simp
  have "canMoveTo (placePieces new_board) \<lparr>pc_type = Knight, pc_color = White, pc_square = sq 7 1\<rparr>
      = [sq 5 0, sq 5 2]" by code_simp
  with on canMoveTo_correct [of "\<lparr>pc_type = Knight, pc_color = White, pc_square = sq 7 1\<rparr>"
    "placePieces new_board"] show ?thesis by simp
qed

section \<open>Attacks and checks\<close>

lemma fold_put:
  assumes "board_shape b" "\<forall>(r, c) \<in> set xs. square_bool (sq r c)"
  shows "board_shape (fold (\<lambda>(r, c). put_at (sq r c) (f r c)) xs b) \<and>
    at_square (fold (\<lambda>(r, c). put_at (sq r c) (f r c)) xs b) s =
      (if (sq_row s, sq_col s) \<in> set xs then f (sq_row s) (sq_col s) else at_square b s)"
  using assms
proof (induction xs arbitrary: b)
  case (Cons x xs)
  obtain r c where x: "x = (r, c)" by force
  with Cons.prems have "board_shape (put_at (sq r c) (f r c) b)"
    "at_square (put_at (sq r c) (f r c) b) s = (if s = sq r c then f r c else at_square b s)"
    by (simp_all add: at_put)
  with Cons x show ?case by (cases s) auto
qed simp

lemma fold_put_scan:
  assumes "board_shape b"
  shows "board_shape (fold (\<lambda>(r, c). put_at (sq r c) (f r c)) scan b)"
    "at_square (fold (\<lambda>(r, c). put_at (sq r c) (f r c)) scan b) s =
       (if square_bool s then f (sq_row s) (sq_col s) else None)"
proof -
  have "\<forall>(r, c) \<in> set scan. square_bool (sq r c)" by (auto simp: set_scan)
  from fold_put [OF assms this, of f s]
  show "board_shape (fold (\<lambda>(r, c). put_at (sq r c) (f r c)) scan b)"
    "at_square (fold (\<lambda>(r, c). put_at (sq r c) (f r c)) scan b) s =
       (if square_bool s then f (sq_row s) (sq_col s) else None)"
    by (auto simp: set_scan)
qed

lemma clone_cell_id [simp]: "clone_cell v = v"
proof -
  have "cls_getType (class_of t) = t" for t
    by (cases t) (simp_all add: bishop_class_def king_class_def knight_class_def pawn_class_def
      queen_class_def rook_class_def)
  then show ?thesis by (cases v) (simp_all add: clone_cell_def)
qed

lemma getType_class_of [simp]: "cls_getType (class_of t) = t"
  by (cases t) (simp_all add: bishop_class_def king_class_def knight_class_def pawn_class_def
    queen_class_def rook_class_def)

lemma board_assign_other: "board_shape b \<Longrightarrow> board_shape other \<Longrightarrow> board_assign b other = other"
  unfolding board_assign_def
  by (rule board_eqI) (simp_all add: fold_put_scan at_rc_square)

lemma attack_search_iff:
  "attack_search b c s xs \<longleftrightarrow>
     (\<exists>(r, k) \<in> set xs. \<exists>p. at_rc b r k = Some p \<and> pc_color p = c \<and> s \<in> set (canMoveTo b p))"
  by (induction xs) (auto simp: list_ex_iff square_eq_iff split: option.splits if_splits)

text \<open>
  \<open>isAttacked\<close> leaves the board as it was.  It holds exactly when some piece of the given
  colour could capture an enemy rook standing on the square.
\<close>

lemma isAttacked_correct:
  assumes "board_ok b" "square_bool s"
  shows "snd (isAttacked b c s) = b"
    "fst (isAttacked b c s) \<longleftrightarrow>
      (\<exists>t p. t \<noteq> s \<and> at_square b t = Some p \<and> pc_color p = c
        \<and> may_move (put_at s (Some \<lparr>pc_type = Rook, pc_color = otherColor c, pc_square = s\<rparr>) b) p s)"
proof -
  let ?rook = "\<lparr>pc_type = Rook, pc_color = otherColor c, pc_square = s\<rparr>"
  let ?b = "put_at s (Some ?rook) b"
  have shape: "board_shape b" using assms(1) by simp
  show "snd (isAttacked b c s) = b"
    using shape assms(2) by (simp add: isAttacked_def Let_def put_put put_same)
  have ok: "board_ok ?b" using assms by (intro board_ok_put) auto
  have other: "otherColor c \<noteq> c" by (cases c) (auto simp: otherColor_def)
  have "fst (isAttacked b c s) \<longleftrightarrow>
      (\<exists>t p. at_square ?b t = Some p \<and> pc_color p = c \<and> s \<in> set (canMoveTo ?b p))"
  proof
    assume "fst (isAttacked b c s)"
    then show "\<exists>t p. at_square ?b t = Some p \<and> pc_color p = c \<and> s \<in> set (canMoveTo ?b p)"
      by (auto simp: isAttacked_def Let_def attack_search_iff at_rc_square)
  next
    assume "\<exists>t p. at_square ?b t = Some p \<and> pc_color p = c \<and> s \<in> set (canMoveTo ?b p)"
    then obtain t p where t: "at_square ?b t = Some p" "pc_color p = c" "s \<in> set (canMoveTo ?b p)" by blast
    then have "(sq_row t, sq_col t) \<in> set scan" using at_SomeD by (fastforce simp: set_scan)
    with t show "fst (isAttacked b c s)"
      by (force simp: isAttacked_def Let_def attack_search_iff at_rc_square)
  qed
  also have "\<dots> \<longleftrightarrow> (\<exists>t p. at_square ?b t = Some p \<and> pc_color p = c \<and> may_move ?b p s)"
    using canMoveTo_may_move board_ok_square [OF ok] at_SomeD by (metis mem_Collect_eq)
  also have "\<dots> \<longleftrightarrow> (\<exists>t p. t \<noteq> s \<and> at_square b t = Some p \<and> pc_color p = c \<and> may_move ?b p s)"
    using other by (auto simp: at_put [OF shape assms(2)] split: if_splits)
  finally show "fst (isAttacked b c s) \<longleftrightarrow>
      (\<exists>t p. t \<noteq> s \<and> at_square b t = Some p \<and> pc_color p = c \<and> may_move ?b p s)" .
qed

lemma king_search_Some:
  "king_search b c xs = Some p \<Longrightarrow> \<exists>(r, k) \<in> set xs. at_rc b r k = Some p \<and> pc_color p = c \<and> pc_type p = King"
  by (induction xs) (auto split: option.splits if_splits)

lemma king_search_None:
  "king_search b c xs = None \<longleftrightarrow>
     (\<forall>(r, k) \<in> set xs. \<forall>p. at_rc b r k = Some p \<longrightarrow> \<not> (pc_color p = c \<and> pc_type p = King))"
  by (induction xs) (auto simp: king_class_def split: option.splits if_splits)

lemma findKing_Some:
  assumes "board_ok b" "findKing b c = Some p"
  shows "at_square b (pc_square p) = Some p" "pc_color p = c" "pc_type p = King" "square_bool (pc_square p)"
proof -
  from king_search_Some [OF assms(2) [unfolded findKing_def]] obtain r k
    where p: "at_square b (sq r k) = Some p" "pc_color p = c" "pc_type p = King"
    by (auto simp: at_rc_square)
  with board_ok_square [OF assms(1) p(1)]
  show "at_square b (pc_square p) = Some p" "pc_color p = c" "pc_type p = King" "square_bool (pc_square p)"
    using at_SomeD by auto
qed

lemma findKing_None:
  "findKing b c = None \<longleftrightarrow> (\<forall>s p. at_square b s = Some p \<longrightarrow> pc_color p = c \<longrightarrow> pc_type p \<noteq> King)"
proof
  assume none: "findKing b c = None"
  show "\<forall>s p. at_square b s = Some p \<longrightarrow> pc_color p = c \<longrightarrow> pc_type p \<noteq> King"
  proof (intro allI impI)
    fix s p assume at: "at_square b s = Some p" and c: "pc_color p = c"
    then have "(sq_row s, sq_col s) \<in> set scan" using at_SomeD by (fastforce simp: set_scan)
    with none at c show "pc_type p \<noteq> King"
      by (fastforce simp: findKing_def king_search_None at_rc_square)
  qed
qed (auto simp: findKing_def king_search_None at_rc_square)

text \<open>
  \<open>isInCheck\<close> asks whether the king is attacked by its \<^emph>\<open>own\<close> colour: a black rook on an open
  line with the white king is no check, and a white rook behind its king is one.
\<close>

definition lone_king :: "color \<Rightarrow> board" where
  "lone_king c = set_piece Rook c 0 4 (set_piece King White 7 4 new_board)"

lemma isInCheck_own_colour:
  "\<not> fst (isInCheck (lone_king Black) White) \<and> fst (isInCheck (lone_king White) White)
   \<and> fst (isCheckmated new_board White)"
  by code_simp

text \<open>\<open>getPieces\<close> never returns.\<close>

lemma getPieces_inner_None: "k < board_width \<Longrightarrow> getPieces_inner b c r k out = None"
proof (rule ccontr)
  assume k: "k < board_width" and "getPieces_inner b c r k out \<noteq> None"
  then obtain y where ret: "getPieces_inner b c r k out = Some y" by blast
  have "\<not> k < board_width"
    by (rule getPieces_inner.raw_induct [where P = "\<lambda>b c r k out y. \<not> k < board_width", OF _ ret])
      (auto split: if_splits)
  with k show False by simp
qed

lemma getPieces_diverges: "getPieces b c = None"
  by (simp add: getPieces_def getPieces_loop.simps getPieces_inner_None board_height_def board_width_def)

end
