(* ===== verification/Chess_Fen.thy ===== *)
theory Chess_Fen
  imports Chess_Board
begin

text \<open>
  The text form of a board: what \<open>Board::toFEN\<close> writes before its first space is read back by
  \<open>Board::loadFEN\<close> as the same board, and the whole text is refused.
\<close>

section \<open>Runs of empty cells\<close>

lemma blank_run_spec:
  assumes "blank_run b r k i n = (i', n')" "k + i \<le> board_width"
  shows "i \<le> i' \<and> k + i' \<le> board_width \<and> n' = n + nat (i' - i)
    \<and> (\<forall>j. k + i \<le> j \<and> j < k + i' \<longrightarrow> at_rc b r j = None)"
  using assms
proof (induction b r k i n arbitrary: rule: blank_run.induct)
  case (1 b r k i n)
  show ?case
  proof (cases "k + i < board_width \<and> at_rc b r (k + i) = None")
    case True
    with 1 have IH: "i + 1 \<le> i' \<and> k + i' \<le> board_width \<and> n' = n + 1 + nat (i' - (i + 1))
        \<and> (\<forall>j. k + (i + 1) \<le> j \<and> j < k + i' \<longrightarrow> at_rc b r j = None)"
      by (subst (asm) blank_run.simps) simp
    moreover have "at_rc b r j = None" if "k + i \<le> j" "j < k + i'" for j
      using IH True that by (cases "j = k + i") auto
    ultimately show ?thesis by auto
  next
    case False
    with 1 show ?thesis by (subst (asm) blank_run.simps) (auto split: if_splits)
  qed
qed

lemma digit_load:
  assumes "n < 10"
  shows "load_row r k (to_string_nat n @ rest) B = load_row r (k + int n) rest B"
  using assms by (simp add: to_string_nat.simps isNumericChar_def ord_def)

lemma piece_letter:
  "\<exists>ch. piece_toFEN p = [ch] \<and> \<not> isNumericChar ch \<and> fen_piece ch = Some (pc_type p, pc_color p)"
  by (cases "pc_type p"; cases "pc_color p")
    (simp_all add: piece_toFEN_def fen_piece_def isNumericChar_def ord_def bishop_class_def
      king_class_def knight_class_def pawn_class_def queen_class_def rook_class_def)

section \<open>A row is read back\<close>

lemma load_fen_row:
  assumes "board_ok b" "board_shape B" "0 \<le> r" "r < 8" "0 \<le> k" "k \<le> 8"
    "\<forall>s. sq_row s = r \<and> k \<le> sq_col s \<longrightarrow> at_square B s = None"
  shows "\<exists>B'. load_row r k (fen_row b r k @ rest) B = load_row r 8 rest B' \<and> board_shape B'
    \<and> (\<forall>s. at_square B' s = (if sq_row s = r \<and> k \<le> sq_col s then at_square b s else at_square B s))"
  using assms
proof (induction b r k arbitrary: B rule: fen_row.induct)
  case (1 b r k)
  show ?case
  proof (cases "k < board_width")
    case False
    with 1(8) have "k = 8" by (simp add: board_width_def)
    moreover have "at_square b s = None \<and> at_square B s = None" if "8 \<le> sq_col s" for s
      using that by (simp add: square_bool_def)
    ultimately show ?thesis using 1(4) by (subst fen_row.simps) (auto simp: board_width_def)
  next
    case True
    note k = this [unfolded board_width_def]
    have on: "square_bool (sq r k)" using k 1 by (simp add: square_bool_def)
    show ?thesis
    proof (cases "at_rc b r k")
      case (Some p)
      then have p: "pc_square p = sq r k" using board_ok_square [OF 1(3)] by (simp add: at_rc_square)
      obtain ch where ch: "piece_toFEN p = [ch]" "\<not> isNumericChar ch"
        "fen_piece ch = Some (pc_type p, pc_color p)" using piece_letter by blast
      let ?B = "put_at (sq r k) (Some p) B"
      have set: "set_piece (pc_type p) (pc_color p) r k B = ?B"
        using p by (cases p) (simp add: set_piece_def)
      have at: "at_square ?B s = (if s = sq r k then Some p else at_square B s)" for s
        using at_put [OF 1(4) on] by simp
      have free: "\<forall>s. sq_row s = r \<and> k + 1 \<le> sq_col s \<longrightarrow> at_square ?B s = None"
        using 1(9) by (auto simp: at)
      have bounds: "0 \<le> k + 1" "k + 1 \<le> 8" using k 1(7) by auto
      have "board_shape ?B" using on 1(4) by simp
      from 1(2) [OF True Some 1(3) this 1(5,6) bounds free] obtain B'
        where B': "load_row r (k + 1) (fen_row b r (k + 1) @ rest) ?B = load_row r 8 rest B'"
          "board_shape B'"
          "\<And>s. at_square B' s = (if sq_row s = r \<and> k + 1 \<le> sq_col s then at_square b s else at_square ?B s)"
        by blast
      have "load_row r k (fen_row b r k @ rest) B = load_row r 8 rest B'"
        using True Some ch on set B'(1) by (subst fen_row.simps) simp
      moreover have "at_square B' s = (if sq_row s = r \<and> k \<le> sq_col s then at_square b s else at_square B s)" for s
      proof (cases "s = sq r k")
        case True
        then show ?thesis using B'(3) [of s] Some by (simp add: at at_rc_square)
      next
        case False
        then have "\<not> (sq_row s = r \<and> sq_col s = k)" by (cases s) simp
        with False show ?thesis using B'(3) [of s] by (auto simp: at)
      qed
      ultimately show ?thesis using B'(2) by blast
    next
      case None
      obtain i n where run: "blank_run b r k 1 1 = (i, n)" by force
      from blank_run_spec [OF run] k have spec: "1 \<le> i" "k + i \<le> 8" "n = nat i"
        "\<And>j. k + 1 \<le> j \<Longrightarrow> j < k + i \<Longrightarrow> at_rc b r j = None" by (auto simp: board_width_def)
      have empty: "at_square b s = None" if "sq_row s = r" "k \<le> sq_col s" "sq_col s < k + i" for s
        using that spec(4) [of "sq_col s"] None by (cases s; cases "sq_col s = k") (auto simp: at_rc_square)
      have step: "k + (fst (i, n) - 1) + 1 = k + i" by simp
      have free: "\<forall>s. sq_row s = r \<and> k + i \<le> sq_col s \<longrightarrow> at_square B s = None"
        using 1(9) spec(1) by auto
      have bounds: "0 \<le> k + i" using 1(7) spec(1) by simp
      from 1(1) [OF True None run [symmetric], unfolded step, OF 1(3,4,5,6) bounds spec(2) free]
      obtain B' where B': "load_row r (k + i) (fen_row b r (k + i) @ rest) B = load_row r 8 rest B'"
          "board_shape B'"
          "\<And>s. at_square B' s = (if sq_row s = r \<and> k + i \<le> sq_col s then at_square b s else at_square B s)"
        by blast
      have "n < 10" using spec 1(7) by auto
      then have "load_row r k (fen_row b r k @ rest) B = load_row r 8 rest B'"
        using True None run B'(1) digit_load [of n r k "fen_row b r (k + i) @ rest" B] spec(1,3) step
        by (subst fen_row.simps) (simp add: Let_def)
      moreover have "at_square B' s = (if sq_row s = r \<and> k \<le> sq_col s then at_square b s else at_square B s)" for s
        using B'(3) [of s] empty [of s] 1(9) spec(1) by auto
      ultimately show ?thesis using B'(2) by blast
    qed
  qed
qed

section \<open>The whole text\<close>


lemma fen_row_chars:
  assumes "ch \<in> set (fen_row b r k)"
  shows "isNumericChar ch \<or> fen_piece ch \<noteq> None"
  using assms
proof (induction b r k rule: fen_row.induct)
  case (1 b r k)
  show ?case
  proof (cases "k < board_width")
    case False
    with 1(3) show ?thesis by (subst (asm) fen_row.simps) simp
  next
    case True
    show ?thesis
    proof (cases "at_rc b r k")
      case None
      with True 1(3) have "ch \<in> set (to_string_nat (snd (blank_run b r k 1 1)))
        \<or> ch \<in> set (fen_row b r (k + (fst (blank_run b r k 1 1) - 1) + 1))"
        by (subst (asm) fen_row.simps) (simp add: Let_def)
      then show ?thesis
        using 1(1) [OF True None refl] to_string_nat_digits [of "snd (blank_run b r k 1 1)"]
        by (auto simp: list_all_iff)
    next
      case (Some p)
      with True 1(3) have "ch \<in> set (piece_toFEN p) \<or> ch \<in> set (fen_row b r (k + 1))"
        by (subst (asm) fen_row.simps) simp
      then show ?thesis using 1(2) [OF True Some] piece_letter [of p] by auto
    qed
  qed
qed

lemma fen_row_no_slash: "CHR ''/'' \<notin> set (fen_row b r k)" "CHR '' '' \<notin> set (fen_row b r k)"
  using fen_row_chars by (fastforce simp: isNumericChar_def ord_def fen_piece_def)+

lemma fen_row_ne: "k < 8 \<Longrightarrow> fen_row b r k \<noteq> []"
proof -
  assume "k < 8"
  moreover have "piece_toFEN p \<noteq> []" for p using piece_letter [of p] by auto
  ultimately show ?thesis
    using to_string_nat_digits by (subst fen_row.simps) (simp add: board_width_def Let_def split: option.splits)
qed

definition fen_rows :: "board \<Rightarrow> string list" where
  "fen_rows b = map (\<lambda>r. fen_row b r 0) [0, 1, 2, 3, 4, 5, 6]"

lemma toFEN_rows:
  "toFEN b c = join (fen_rows b @ [fen_row b 7 0 @ '' '' @ (if c = White then ''w'' else ''b'') @ '' - - 0 1'']) ''/''"
proof -
  have "[0..board_height - 1] = [0, 1, 2, 3, 4, 5, 6, 7]" by (simp add: board_height_def upto.simps)
  then show ?thesis by (simp add: toFEN_def fen_rows_def join_Cons)
qed

lemma load_fen_rows:
  assumes "board_ok b" "board_shape B" "0 \<le> r" "r + int n \<le> 8"
    "\<forall>s. r \<le> sq_row s \<longrightarrow> at_square B s = None"
  shows "\<exists>B'. load_rows r (map (\<lambda>i. fen_row b (r + int i) 0) [0..<n] @ others) B = load_rows (r + int n) others B'
    \<and> board_shape B'
    \<and> (\<forall>s. at_square B' s = (if r \<le> sq_row s \<and> sq_row s < r + int n then at_square b s else at_square B s))"
  using assms
proof (induction n arbitrary: r B)
  case 0
  then show ?case by auto
next
  case (Suc n)
  from load_fen_row [OF Suc.prems(1,2,3), of 0 "[]"] Suc.prems obtain B1
    where B1: "load_row r 0 (fen_row b r 0) B = (B1, Inr ())" "board_shape B1"
      "\<And>s. at_square B1 s = (if sq_row s = r \<and> 0 \<le> sq_col s then at_square b s else at_square B s)"
    by auto
  have row: "at_square B1 s = (if sq_row s = r then at_square b s else at_square B s)" for s
    using B1(3) [of s] by (cases "0 \<le> sq_col s") (auto simp: square_bool_def)
  have free: "\<forall>s. r + 1 \<le> sq_row s \<longrightarrow> at_square B1 s = None" using Suc.prems(5) by (simp add: row)
  have rows: "map (\<lambda>i. fen_row b (r + int i) 0) [0..<Suc n] =
      fen_row b r 0 # map (\<lambda>i. fen_row b (r + 1 + int i) 0) [0..<n]"
    by (simp add: upt_conv_Cons map_Suc_upt [symmetric] add.assoc del: upt_Suc)
  have "0 \<le> r + 1" "r + 1 + int n \<le> 8" using Suc.prems by auto
  from Suc.IH [OF Suc.prems(1) B1(2) this free] obtain B'
    where "load_rows (r + 1) (map (\<lambda>i. fen_row b (r + 1 + int i) 0) [0..<n] @ others) B1
        = load_rows (r + 1 + int n) others B'" "board_shape B'"
      "\<And>s. at_square B' s = (if r + 1 \<le> sq_row s \<and> sq_row s < r + 1 + int n then at_square b s else at_square B1 s)"
    by blast
  then show ?case using B1(1) row unfolding rows
    by (intro exI [of _ B']) (auto simp: add_ac)
qed

lemma at_new_board [simp]: "at_square new_board s = None" "board_shape new_board"
proof -
  show "at_square new_board s = None"
  proof (cases "square_bool s")
    case True
    then have "nat (sq_row s) < 8" "nat (sq_col s) < 8" by (auto simp: square_bool_def)
    with True show ?thesis by (simp add: at_on_board new_board_def)
  qed simp
  show "board_shape new_board" by (simp add: board_shape_def new_board_def list_all_iff)
qed

lemma load_fen_text:
  assumes "board_ok b"
  shows "load_rows 0 (fen_rows b @ [fen_row b 7 0 @ rest]) new_board =
      (case load_row 7 8 rest b of (b', Inl e) \<Rightarrow> (b', Inl e) | (b', Inr _) \<Rightarrow> (b', Inr ()))"
proof -
  have rows: "fen_rows b = map (\<lambda>i. fen_row b (0 + int i) 0) [0..<7]"
    by (simp add: fen_rows_def upt_rec)
  from load_fen_rows [OF assms, of new_board 0 7 "[fen_row b 7 0 @ rest]"] obtain B
    where B: "load_rows 0 (fen_rows b @ [fen_row b 7 0 @ rest]) new_board = load_rows 7 [fen_row b 7 0 @ rest] B"
      "board_shape B" "\<And>s. at_square B s = (if 0 \<le> sq_row s \<and> sq_row s < 7 then at_square b s else None)"
    unfolding rows by auto
  from load_fen_row [OF assms B(2), of 7 0 rest] B(3) obtain B'
    where B': "load_row 7 0 (fen_row b 7 0 @ rest) B = load_row 7 8 rest B'" "board_shape B'"
      "\<And>s. at_square B' s = (if sq_row s = 7 \<and> 0 \<le> sq_col s then at_square b s else at_square B s)"
    by auto
  have "B' = b"
  proof (rule board_eqI)
    fix s assume "square_bool s"
    then show "at_square B' s = at_square b s" by (auto simp: B' B square_bool_def)
  qed (use B'(2) assms in simp_all)
  with B(1) B'(1) show ?thesis by (simp split: prod.splits sum.splits)
qed

text \<open>
  (C31) Writing and reading a board.  The part of \<open>toFEN\<close> before its first space is read by
  \<open>loadFEN\<close>, on an empty board, as exactly the board that was written.  The whole text sets the
  same pieces and then throws: \<open>loadFEN\<close> takes the space for an unknown piece.
\<close>

theorem fen_roundtrip:
  assumes "board_ok b"
  shows "loadFEN (takeWhile (\<lambda>ch. ch \<noteq> CHR '' '') (toFEN b c)) new_board = (b, Inr ())
    \<and> loadFEN (toFEN b c) new_board = (b, Inl (RuntimeError ''Unrecognized character in FEN:  ''))"
proof -
  let ?w = "if c = White then ''w'' else ''b''"
  have join_Nil: "join [] d = []" for d by (simp add: join_def)
  have join_last: "join (ps @ [p @ q]) d = join (ps @ [p]) d @ q" for ps p q d
    by (induction ps) (simp_all add: join_Cons)
  have slash: "CHR ''/'' \<notin> set p" "CHR '' '' \<notin> set p" if "p \<in> set (fen_rows b @ [fen_row b 7 0])" for p
    using that fen_row_no_slash by (auto simp: fen_rows_def)
  have "CHR '' '' \<notin> set (join ps ''/'')" if "\<forall>p \<in> set ps. CHR '' '' \<notin> set p" for ps
    using that by (induction ps) (auto simp: join_Cons join_Nil split: if_splits)
  then have "CHR '' '' \<notin> set (join (fen_rows b @ [fen_row b 7 0]) ''/'')" using slash(2) by blast
  then have head: "takeWhile (\<lambda>ch. ch \<noteq> CHR '' '') (toFEN b c) = join (fen_rows b @ [fen_row b 7 0]) ''/''"
    unfolding toFEN_rows join_last by (subst takeWhile_append2) auto
  have ne: "join (fen_rows b @ [fen_row b 7 0 @ q]) ''/'' \<noteq> []" for q
    using fen_row_ne [of 0 b 0] by (simp add: fen_rows_def join_Cons)
  have "CHR ''/'' \<notin> set p" if "p \<in> set (fen_rows b @ [fen_row b 7 0 @ '' '' @ ?w @ '' - - 0 1''])" for p
    using that slash(1) by (auto split: if_splits)
  then have "split_view (toFEN b c) ''/'' False = Some (fen_rows b @ [fen_row b 7 0 @ '' '' @ ?w @ '' - - 0 1''])"
    unfolding toFEN_rows by (intro split_view_join_single ne) auto
  moreover have "split_view (join (fen_rows b @ [fen_row b 7 0]) ''/'') ''/'' False = Some (fen_rows b @ [fen_row b 7 0])"
    using ne [of "[]"] slash(1) by (intro split_view_join_single) auto
  ultimately show ?thesis
    using load_fen_text [OF assms, of "[]"] load_fen_text [OF assms, of "'' '' @ ?w @ '' - - 0 1''"]
    unfolding head by (simp add: loadFEN_def isNumericChar_def ord_def fen_piece_def)
qed

theorem fen_roundtrip_witness:
  "board_ok (placePieces new_board)
   \<and> loadFEN (takeWhile (\<lambda>ch. ch \<noteq> CHR '' '') (toFEN (placePieces new_board) White)) new_board
       = (placePieces new_board, Inr ())
   \<and> loadFEN (toFEN (placePieces new_board) White) new_board
       = (placePieces new_board, Inl (RuntimeError ''Unrecognized character in FEN:  ''))
   \<and> toFEN (placePieces new_board) White = ''rnbqkbnr/pppppppp/8/8/8/8/PPPPPPPP/RNBQKBNR w - - 0 1''"
proof -
  have "board_ok (placePieces new_board)" by code_simp
  moreover have "toFEN (placePieces new_board) White = ''rnbqkbnr/pppppppp/8/8/8/8/PPPPPPPP/RNBQKBNR w - - 0 1''"
    by code_simp
  ultimately show ?thesis using fen_roundtrip [of "placePieces new_board" White] by simp
qed

end
