(* ===== verification/Chess_Match.thy ===== *)
theory Chess_Match
  imports Chess_Board
begin

text \<open>
  Matches of probability chess: \<open>Player\<close>, \<open>Match\<close> and its three kinds \<open>HumanMatch\<close>, \<open>AIMatch\<close>
  and \<open>NullMatch\<close>, and the computer players.

  A match is shared between the tables \<open>matchesByID\<close> and \<open>matchesByClient\<close> of the plugin and the
  function that works on it, so matches live in a heap and the tables hold addresses.  A \<open>Player &\<close>
  is the seat (host or guest) it sits on.  The state of the plugin is passed explicitly; an
  operation returns the new state with a value or an exception, or \<^const>\<open>None\<close> when it does not
  return.  \<open>rand()\<close> reads the list \<open>ch_dice\<close>, and an operation that would need more numbers than
  the list holds is one that has not returned yet.
\<close>

section \<open>Players and matches\<close>

datatype role = Host | Guest

datatype player_kind = HumanPlayer int | RandomPlayer | CCCPPlayer | CCCP2Player

record player =
  pl_color :: color
  pl_role :: role
  pl_kind :: player_kind

datatype match_kind = HumanMatch | AIMatch | NullMatch

record match =
  m_kind :: match_kind
  m_id :: string
  m_hidden :: bool
  m_noSkip :: bool
  m_host :: "player option"
  m_guest :: "player option"
  m_currentTurn :: color
  m_hostColor :: color
  m_board :: board
  m_winnerColor :: "color option"
  m_columnCount :: int
  m_columns :: "int list"
  m_started :: bool
  m_over :: bool
  m_captured :: "piece list"
  m_spectators :: "int list"

definition new_match :: "match_kind \<Rightarrow> string \<Rightarrow> bool \<Rightarrow> bool \<Rightarrow> int \<Rightarrow> color \<Rightarrow> match" where
  "new_match kind match_id hidden no_skip column_count host_color =
     \<lparr>m_kind = kind, m_id = match_id, m_hidden = hidden, m_noSkip = no_skip, m_host = None,
      m_guest = None, m_currentTurn = White, m_hostColor = host_color,
      m_board = placePieces new_board, m_winnerColor = None, m_columnCount = column_count,
      m_columns = [], m_started = False, m_over = False, m_captured = [], m_spectators = []\<rparr>"

definition AIMatch_create :: "player_kind \<Rightarrow> string \<Rightarrow> bool \<Rightarrow> bool \<Rightarrow> int \<Rightarrow> color \<Rightarrow> match" where
  "AIMatch_create ai match_id hidden no_skip column_count host_color =
     (new_match AIMatch match_id hidden no_skip column_count host_color)
       \<lparr>m_guest := Some \<lparr>pl_color = otherColor host_color, pl_role = Guest, pl_kind = ai\<rparr>\<rparr>"

definition NullMatch_new :: "string \<Rightarrow> bool \<Rightarrow> bool \<Rightarrow> int \<Rightarrow> color \<Rightarrow> match" where
  "NullMatch_new match_id hidden no_skip column_count host_color =
     (new_match NullMatch match_id hidden no_skip column_count host_color)\<lparr>m_currentTurn := host_color\<rparr>"

section \<open>The state of the plugin\<close>

text \<open>
  \<open>ch_live\<close> are the keys of \<open>server->allClients\<close>, \<open>ch_out\<close> the texts given to \<open>sendWebSocket\<close> with
  the client they went to.  The hash tables of the code have no order of their own; here they
  are kept sorted, and no statement depends on the order of their entries.
\<close>

record chess =
  ch_heap :: "match list"
  ch_byID :: "(string \<times> nat) list"
  ch_byClient :: "(int \<times> nat) list"
  ch_handlers :: "int list"
  ch_connections :: "int list"
  ch_clients :: "int list"
  ch_live :: "int list"
  ch_dice :: "nat list"
  ch_out :: "(int \<times> string) list"

type_synonym 'a chess_op = "chess \<Rightarrow> (chess \<times> 'a result) option"

definition c_ret :: "'a \<Rightarrow> 'a chess_op" where
  "c_ret x st = Some (st, Inr x)"

definition c_throw :: "exn \<Rightarrow> 'a chess_op" where
  "c_throw e st = Some (st, Inl e)"

definition c_diverge :: "'a chess_op" where
  "c_diverge st = None"

definition c_with :: "(chess \<Rightarrow> 'a chess_op) \<Rightarrow> 'a chess_op" where
  "c_with f st = f st st"

definition c_modify :: "(chess \<Rightarrow> chess) \<Rightarrow> unit chess_op" where
  "c_modify f st = Some (f st, Inr ())"

definition c_bind :: "'a chess_op \<Rightarrow> ('a \<Rightarrow> 'b chess_op) \<Rightarrow> 'b chess_op" where
  "c_bind f g st =
     (case f st of
        None \<Rightarrow> None
      | Some (st', Inl e) \<Rightarrow> Some (st', Inl e)
      | Some (st', Inr x) \<Rightarrow> g x st')"

fun seqs :: "unit chess_op list \<Rightarrow> unit chess_op" where
  "seqs [] = c_ret ()"
| "seqs (f # fs) = c_bind f (\<lambda>_. seqs fs)"

definition get_match :: "nat \<Rightarrow> chess \<Rightarrow> match" where
  "get_match a st = ch_heap st ! a"

definition upd_match :: "nat \<Rightarrow> (match \<Rightarrow> match) \<Rightarrow> chess \<Rightarrow> chess" where
  "upd_match a f st = st\<lparr>ch_heap := (ch_heap st)[a := f (ch_heap st ! a)]\<rparr>"

definition c_match :: "nat \<Rightarrow> (match \<Rightarrow> 'a chess_op) \<Rightarrow> 'a chess_op" where
  "c_match a f st = f (get_match a st) st"

section \<open>Sending\<close>

definition client_send :: "int \<Rightarrow> string \<Rightarrow> unit chess_op" where
  "client_send c message = c_modify (\<lambda>st. st\<lparr>ch_out := ch_out st @ [(c, message)]\<rparr>)"

definition plugin_send :: "int \<Rightarrow> string \<Rightarrow> unit chess_op" where
  "plugin_send c message = c_with (\<lambda>st.
     if c \<in> set (ch_live st) then client_send c message else c_throw (OutOfRange ''allClients.at''))"

definition broadcast :: "string \<Rightarrow> unit chess_op" where
  "broadcast message = c_with (\<lambda>st. seqs (map (\<lambda>c. client_send c message) (ch_clients st)))"

definition player_send :: "player \<Rightarrow> string \<Rightarrow> unit chess_op" where
  "player_send p message =
     (case pl_kind p of HumanPlayer c \<Rightarrow> plugin_send c message | _ \<Rightarrow> c_ret ())"

definition sendHost :: "nat \<Rightarrow> string \<Rightarrow> unit chess_op" where
  "sendHost a message = c_match a (\<lambda>m.
     case m_host m of Some p \<Rightarrow> player_send p message | None \<Rightarrow> c_ret ())"

definition sendGuest :: "nat \<Rightarrow> string \<Rightarrow> unit chess_op" where
  "sendGuest a message = c_match a (\<lambda>m.
     case m_guest m of Some p \<Rightarrow> player_send p message | None \<Rightarrow> c_ret ())"

definition sendBoth :: "nat \<Rightarrow> string \<Rightarrow> unit chess_op" where
  "sendBoth a message = seqs [sendHost a message, sendGuest a message]"

definition sendSpectators :: "nat \<Rightarrow> string \<Rightarrow> unit chess_op" where
  "sendSpectators a message = c_match a (\<lambda>m. seqs (map (\<lambda>c. plugin_send c message) (m_spectators m)))"

definition sendAll :: "nat \<Rightarrow> string \<Rightarrow> unit chess_op" where
  "sendAll a message = seqs [sendBoth a message, sendSpectators a message]"

fun board_letter :: "piece_type \<Rightarrow> char" where
  "board_letter Bishop = CHR ''b''"
| "board_letter King = CHR ''k''"
| "board_letter Knight = CHR ''h''"
| "board_letter Pawn = CHR ''p''"
| "board_letter Queen = CHR ''q''"
| "board_letter Rook = CHR ''r''"

definition encode_cell :: "board \<Rightarrow> int \<times> int \<Rightarrow> string" where
  "encode_cell b rc =
     (case at_rc b (fst rc) (snd rc) of
        None \<Rightarrow> ''__''
      | Some p \<Rightarrow> [board_letter (cls_getType (class_of (pc_type p))),
                   if pc_color p = White then CHR ''W'' else CHR ''B''])"

definition sendBoard :: "nat \<Rightarrow> unit chess_op" where
  "sendBoard a = c_match a (\<lambda>m.
     sendAll a ('':Board '' @ concat (map (encode_cell (m_board m)) scan)))"

definition capturedMessage :: "piece \<Rightarrow> string" where
  "capturedMessage p = '':Capture '' @ square_string (pc_square p) @ '' ''
     @ cls_name (class_of (pc_type p)) @ '' '' @ colorName (pc_color p)"

definition columnMessage :: "match \<Rightarrow> string" where
  "columnMessage m = '':Columns'' @ concat (map (\<lambda>c. '' '' @ to_string_int c) (m_columns m))"

section \<open>Dice\<close>

text \<open>One throw: a die for every six columns, reduced to a column.\<close>

fun throw_dice :: "int \<Rightarrow> int \<Rightarrow> nat list \<Rightarrow> (int \<times> nat list) option" where
  "throw_dice i column ds =
     (if i < board_width
      then case ds of [] \<Rightarrow> None | d # ds' \<Rightarrow> throw_dice (i + 6) (column + (int d mod 6 + 1)) ds'
      else Some (column, ds))"

function wrap_column :: "int \<Rightarrow> int" where
  "wrap_column column = (if board_width < column then wrap_column (column - board_width) else column)"
  by auto

termination
  by (relation "measure nat") (auto simp: board_width_def)

declare throw_dice.simps [simp del] wrap_column.simps [simp del]

lemma throw_dice_length: "throw_dice i column ds = Some (c, ds') \<Longrightarrow> length ds' \<le> length ds"
  by (induction i column ds rule: throw_dice.induct)
    (subst (asm) (2) throw_dice.simps, fastforce split: if_splits list.splits)

lemma throw_dice_shorter: "throw_dice 0 0 ds = Some (c, ds') \<Longrightarrow> length ds' < length ds"
  by (subst (asm) throw_dice.simps)
    (auto simp: board_width_def split: if_splits list.splits dest: throw_dice_length)

text \<open>The \<open>do ... while (columns.contains(column))\<close> of \<open>roll\<close>.\<close>

function fresh_column :: "int list \<Rightarrow> nat list \<Rightarrow> (int \<times> nat list) option" where
  "fresh_column columns ds =
     (case throw_dice 0 0 ds of
        None \<Rightarrow> None
      | Some (column, ds') \<Rightarrow>
          let column = wrap_column column - 1 in
          if column \<in> set columns then fresh_column columns ds' else Some (column, ds'))"
  by auto

termination
  by (relation "measure (\<lambda>(columns, ds). length ds)") (auto simp: throw_dice_shorter)

declare fresh_column.simps [simp del]

fun roll_columns :: "nat \<Rightarrow> int list \<Rightarrow> nat list \<Rightarrow> (int list \<times> nat list) option" where
  "roll_columns 0 columns ds = Some (columns, ds)"
| "roll_columns (Suc n) columns ds =
     (case fresh_column columns ds of
        None \<Rightarrow> None
      | Some (column, ds') \<Rightarrow> roll_columns n (insort_insert column columns) ds')"

definition roll :: "nat \<Rightarrow> unit chess_op" where
  "roll a = seqs
     [c_match a (\<lambda>m. c_with (\<lambda>st.
        case roll_columns (nat (m_columnCount m)) [] (ch_dice st) of
          None \<Rightarrow> c_diverge
        | Some (columns, ds) \<Rightarrow>
            c_modify (\<lambda>st. (upd_match a (\<lambda>m. m\<lparr>m_columns := columns\<rparr>) st)\<lparr>ch_dice := ds\<rparr>))),
      c_match a (\<lambda>m. sendAll a (columnMessage m))]"

definition canMove :: "match \<Rightarrow> bool" where
  "canMove m = list_ex (\<lambda>c. list_ex (\<lambda>r.
     case at_rc (m_board m) r c of
       Some p \<Rightarrow> pc_color p = m_currentTurn m \<and> canMoveTo (m_board m) p \<noteq> []
     | None \<Rightarrow> False) [0..board_height - 1]) (m_columns m)"

definition anyCanMove :: "match \<Rightarrow> bool" where
  "anyCanMove m = list_ex (\<lambda>c. list_ex (\<lambda>r.
     case at_rc (m_board m) r c of
       Some p \<Rightarrow> pc_color p = m_currentTurn m \<and> canMoveTo (m_board m) p \<noteq> []
     | None \<Rightarrow> False) [0..board_height - 1]) [0..board_width - 1]"

text \<open>\<open>do roll(); while (!canMove());\<close>  The fuel bounds the number of rolls.\<close>

fun roll_until :: "nat \<Rightarrow> nat \<Rightarrow> unit chess_op" where
  "roll_until 0 a = c_diverge"
| "roll_until (Suc n) a =
     seqs [roll a, c_match a (\<lambda>m. if \<not> canMove m then roll_until n a else c_ret ())]"

section \<open>Queries and the end of a match\<close>

definition is_client :: "player option \<Rightarrow> int \<Rightarrow> bool" where
  "is_client v c = (case v of Some p \<Rightarrow> pl_kind p = HumanPlayer c | None \<Rightarrow> False)"

fun isActive :: "match_kind \<Rightarrow> match \<Rightarrow> bool" where
  "isActive HumanMatch m = (m_host m \<noteq> None \<or> m_guest m \<noteq> None)"
| "isActive AIMatch m = (m_host m \<noteq> None)"
| "isActive NullMatch m = (m_host m \<noteq> None)"

fun hasClient :: "match_kind \<Rightarrow> match \<Rightarrow> int \<Rightarrow> bool" where
  "hasClient HumanMatch m c = (is_client (m_host m) c \<or> is_client (m_guest m) c)"
| "hasClient AIMatch m c = is_client (m_host m) c"
| "hasClient NullMatch m c = is_client (m_host m) c"

fun isReady :: "match_kind \<Rightarrow> match \<Rightarrow> bool" where
  "isReady HumanMatch m = (m_host m \<noteq> None \<and> m_guest m \<noteq> None)"
| "isReady AIMatch m = (m_host m \<noteq> None)"
| "isReady NullMatch m = (m_host m \<noteq> None)"

text \<open>The client of a human player is taken out of \<open>matchesByClient\<close>.\<close>

definition forget_player :: "player option \<Rightarrow> chess \<Rightarrow> chess" where
  "forget_player v st =
     (case v of
        Some p \<Rightarrow> (case pl_kind p of
                     HumanPlayer c \<Rightarrow> st\<lparr>ch_byClient := omap_del c (ch_byClient st)\<rparr>
                   | _ \<Rightarrow> st)
      | None \<Rightarrow> st)"

definition match_end :: "nat \<Rightarrow> role option \<Rightarrow> unit chess_op" where
  "match_end a winner = c_match a (\<lambda>m. seqs
     [(case winner of
         None \<Rightarrow> sendAll a '':End''
       | Some w \<Rightarrow> seqs
          [(if m_host m \<noteq> None \<and> w = Host then seqs [sendHost a '':Win'', sendGuest a '':Lose'']
            else if m_guest m \<noteq> None \<and> w = Guest then seqs [sendHost a '':Lose'', sendGuest a '':Win'']
            else sendAll a '':End''),
           sendSpectators a ('':Win '' @ colorName
             (if w = Host then m_hostColor m else otherColor (m_hostColor m)))]),
      c_modify (upd_match a (\<lambda>m. m\<lparr>m_over := True\<rparr>)),
      c_modify (\<lambda>st. st\<lparr>ch_byID := omap_del (m_id m) (ch_byID st)\<rparr>),
      c_modify (forget_player (m_guest m)),
      c_modify (forget_player (m_host m)),
      c_modify (\<lambda>st. st\<lparr>ch_byClient := fold omap_del (m_spectators m) (ch_byClient st)\<rparr>),
      (if \<not> m_hidden m then broadcast ('':RemoveMatch '' @ m_id m) else c_ret ())])"

definition leave_seats :: "int \<Rightarrow> match \<Rightarrow> match" where
  "leave_seats c m = m\<lparr>m_spectators := filter (\<lambda>s. s \<noteq> c) (m_spectators m),
     m_host := (if is_client (m_host m) c then None else m_host m),
     m_guest := (if is_client (m_guest m) c then None else m_guest m)\<rparr>"

definition match_disconnect :: "nat \<Rightarrow> int \<Rightarrow> unit chess_op" where
  "match_disconnect a c = seqs
     [c_modify (upd_match a (leave_seats c)),
      c_match a (\<lambda>m.
        if \<not> isActive (m_kind m) m then match_end a None
        else if \<not> m_hidden m then broadcast ('':Match '' @ m_id m @ '' open'')
        else c_ret ())]"

definition getPlayer :: "match \<Rightarrow> int \<Rightarrow> role result" where
  "getPlayer m c =
     (if is_client (m_host m) c then Inr Host
      else if is_client (m_guest m) c then Inr Guest
      else Inl (RuntimeError ''Couldn't find player for connection''))"

text \<open>\<open>currentTurn == hostColor? **host : **guest\<close>; an empty seat is undefined behaviour.\<close>

definition seat_of :: "match \<Rightarrow> color \<Rightarrow> role" where
  "seat_of m c = (if c = m_hostColor m then Host else Guest)"

fun seat_player :: "match \<Rightarrow> role \<Rightarrow> player option" where
  "seat_player m Host = m_host m"
| "seat_player m Guest = m_guest m"

definition currentPlayer :: "match \<Rightarrow> role result" where
  "currentPlayer m =
     (if seat_player m (seat_of m (m_currentTurn m)) = None
      then Inl (UndefinedBehaviour ''empty optional'') else Inr (seat_of m (m_currentTurn m)))"

definition getWhite :: "match \<Rightarrow> role" where
  "getWhite m = (if m_hostColor m = White then Host else Guest)"

definition getBlack :: "match \<Rightarrow> role" where
  "getBlack m = (if m_hostColor m = Black then Host else Guest)"

section \<open>Making a move\<close>

text \<open>\<open>checkPawns\<close>: a pawn on the last row becomes a queen.\<close>

fun promote_row :: "color \<Rightarrow> int \<Rightarrow> int list \<Rightarrow> board \<Rightarrow> board \<times> square list" where
  "promote_row c r [] b = (b, [])"
| "promote_row c r (k # ks) b =
     (case at_rc b r k of
        Some p \<Rightarrow>
          if cls_getType (class_of (pc_type p)) = Pawn \<and> pc_color p = c
          then let (b', out) = promote_row c r ks (set_piece Queen c r k (board_erase b (Some p)))
               in (b', pc_square p # out)
          else promote_row c r ks b
      | None \<Rightarrow> promote_row c r ks b)"

definition checkPawns :: "board \<Rightarrow> board \<times> square list" where
  "checkPawns b =
     (let (b1, out1) = promote_row White 0 [0..board_width - 1] b;
          (b2, out2) = promote_row Black (board_height - 1) [0..board_width - 1] b1
      in (b2, out1 @ out2))"

text \<open>The checks \<open>makeMove\<close> makes in this order, and the piece that will move.\<close>

definition move_refused :: "match \<Rightarrow> role \<Rightarrow> move \<Rightarrow> exn option" where
  "move_refused m seat mv =
     (if \<not> isReady (m_kind m) m then Some (ChessError ''Match is missing a participant.'')
      else if m_winnerColor m \<noteq> None then Some (ChessError ''Match already over.'')
      else if (case seat_player m seat of
                 Some p \<Rightarrow> (case pl_kind p of HumanPlayer c \<Rightarrow> \<not> hasClient (m_kind m) m c | _ \<Rightarrow> False)
               | None \<Rightarrow> False) then Some (ChessError ''Invalid connection.'')
      else case currentPlayer m of
        Inl e \<Rightarrow> Some e
      | Inr current \<Rightarrow>
          if seat \<noteq> current then Some (ChessError ''Invalid turn.'')
          else case at_square (m_board m) (mv_from mv) of
            None \<Rightarrow> Some (ChessError ''No source piece.'')
          | Some from_piece \<Rightarrow>
              if pc_color from_piece \<noteq> m_currentTurn m then Some (ChessError ''Not your piece.'')
              else if square_eq (mv_from mv) (mv_to mv)
              then Some (ChessError ''Move must actually move a piece.'')
              else if sq_col (mv_from mv) \<notin> set (m_columns m)
              then Some (ChessError ''Incorrect column.'')
              else if \<not> list_ex (\<lambda>s. square_eq s (mv_to mv)) (canMoveTo (m_board m) from_piece)
              then Some (ChessError ''Invalid move.'')
              else case at_square (m_board m) (mv_to mv) of
                Some to_piece \<Rightarrow>
                  if pc_color to_piece = m_currentTurn m
                  then Some (ChessError ''Can't capture one of your own pieces.'') else None
              | None \<Rightarrow> None)"

definition move_made :: "move \<Rightarrow> string" where
  "move_made mv = '':MoveMade '' @ square_string (mv_from mv) @ '' '' @ square_string (mv_to mv)"

text \<open>\<open>board.move\<close> and \<open>checkPawns\<close> on the board of the match; the value are the promotions.\<close>

definition move_piece :: "nat \<Rightarrow> move \<Rightarrow> square list chess_op" where
  "move_piece a mv = c_match a (\<lambda>m.
     let b = fst (board_move_opt (m_board m) (at_square (m_board m) (mv_from mv)) (mv_to mv));
         (b', promoted) = checkPawns b
     in c_bind (c_modify (upd_match a (\<lambda>m. m\<lparr>m_board := b'\<rparr>))) (\<lambda>_. c_ret promoted))"

definition capture_piece :: "nat \<Rightarrow> piece \<Rightarrow> unit chess_op" where
  "capture_piece a to_piece = seqs
     [sendAll a (capturedMessage to_piece),
      c_modify (upd_match a (\<lambda>m. m\<lparr>m_captured := m_captured m @ [to_piece],
        m_board := board_erase (m_board m) (Some to_piece)\<rparr>))]"

definition finish_game :: "nat \<Rightarrow> unit chess_op" where
  "finish_game a = c_match a (\<lambda>m. seqs
     [c_modify (upd_match a (\<lambda>m. m\<lparr>m_winnerColor := Some (m_currentTurn m)\<rparr>)),
      (if seat_player m (seat_of m (m_currentTurn m)) = None
       then c_throw (UndefinedBehaviour ''empty optional'')
       else match_end a (Some (seat_of m (m_currentTurn m))))])"

definition move_body :: "nat \<Rightarrow> role \<Rightarrow> move \<Rightarrow> unit chess_op \<Rightarrow> unit chess_op" where
  "move_body a seat mv after_move = c_match a (\<lambda>m.
     case move_refused m seat mv of
       Some e \<Rightarrow> c_throw e
     | None \<Rightarrow>
         (case at_square (m_board m) (mv_to mv) of
            Some to_piece \<Rightarrow>
              if cls_getType (class_of (pc_type to_piece)) = King
              then seqs [capture_piece a to_piece, c_bind (move_piece a mv) (\<lambda>_. c_ret ()),
                sendBoard a, sendAll a (move_made mv), finish_game a]
              else seqs [capture_piece a to_piece, c_bind (move_piece a mv) (\<lambda>promoted. seqs
                ([sendBoard a, sendAll a (move_made mv)]
                 @ map (\<lambda>s. sendAll a ('':Promote '' @ square_string s)) promoted)), after_move]
          | None \<Rightarrow> seqs [c_bind (move_piece a mv) (\<lambda>promoted. seqs
                ([sendBoard a, sendAll a (move_made mv)]
                 @ map (\<lambda>s. sendAll a ('':Promote '' @ square_string s)) promoted)), after_move]))"

section \<open>The computer players\<close>

definition getPossibleMoves :: "match \<Rightarrow> int list \<Rightarrow> move list" where
  "getPossibleMoves m columns = concat (map (\<lambda>c. concat (map (\<lambda>r.
     case at_rc (m_board m) r c of
       Some p \<Rightarrow> (if pc_color p = m_currentTurn m then cell_moves (m_board m) p else [])
     | None \<Rightarrow> []) [0..board_height - 1])) columns)"

definition random_chooseMove :: "nat \<Rightarrow> move chess_op" where
  "random_chooseMove a = c_match a (\<lambda>m.
     let possibilities = getPossibleMoves m (m_columns m) in
     if possibilities = [] then c_throw (RuntimeError ''RandomBot has no moves to select from.'')
     else c_with (\<lambda>st. case ch_dice st of
       [] \<Rightarrow> c_diverge
     | d # ds \<Rightarrow> c_bind (c_modify (\<lambda>st. st\<lparr>ch_dice := ds\<rparr>))
                   (\<lambda>_. c_ret (possibilities ! (d mod length possibilities)))))"

record labeled_move =
  lm_move :: move
  lm_isCheckmated :: bool
  lm_isInCheck :: bool
  lm_isSelfInCheck :: bool
  lm_captured :: "piece option"

fun label_moves :: "board \<Rightarrow> color \<Rightarrow> move list \<Rightarrow> board \<Rightarrow> labeled_move list \<times> board" where
  "label_moves old_board turn [] b = ([], b)"
| "label_moves old_board turn (mv # mvs) b =
     (let captured = at_square b (mv_to mv);
          b1 = fst (board_move_opt b (at_square b (mv_from mv)) (mv_to mv));
          (in_check, b2) = isInCheck b1 (otherColor turn);
          (checkmated, b3) = isCheckmated b2 (otherColor turn);
          (self_in_check, b4) = isInCheck b3 turn;
          (rest, b5) = label_moves old_board turn mvs (board_assign b4 old_board)
      in (\<lparr>lm_move = mv, lm_isCheckmated = checkmated, lm_isInCheck = in_check,
           lm_isSelfInCheck = self_in_check, lm_captured = captured\<rparr> # rest, b5))"

definition centerDistance :: "int \<Rightarrow> int" where
  "centerDistance c =
     (if c = 3 \<or> c = 4 then 0 else if c = 2 \<or> c = 5 then 1 else if c = 1 \<or> c = 6 then 2 else 3)"

definition moveCode :: "move \<Rightarrow> int" where
  "moveCode mv =
     (let source = sq_row (mv_from mv) * 8 + sq_col (mv_from mv);
          destination = sq_row (mv_to mv) * 8 + sq_col (mv_to mv)
      in (source * 64 + destination) * 8)"

text \<open>The preferences both players share: capture, depth, centre, code.\<close>

definition superior_rest :: "color \<Rightarrow> labeled_move \<Rightarrow> labeled_move \<Rightarrow> bool" where
  "superior_rest turn check alternative =
     (let depth =
        (if sq_row (mv_to (lm_move check)) \<noteq> sq_row (mv_to (lm_move alternative))
         then if turn = Black
              then sq_row (mv_to (lm_move check)) \<le> sq_row (mv_to (lm_move alternative))
              else sq_row (mv_to (lm_move alternative)) \<le> sq_row (mv_to (lm_move check))
         else if sq_col (mv_to (lm_move check)) \<noteq> sq_col (mv_to (lm_move alternative))
              \<and> centerDistance (sq_col (mv_to (lm_move check)))
                  \<noteq> centerDistance (sq_col (mv_to (lm_move alternative)))
         then centerDistance (sq_col (mv_to (lm_move alternative)))
                < centerDistance (sq_col (mv_to (lm_move check)))
         else moveCode (lm_move check) < moveCode (lm_move alternative))
      in case (lm_captured check, lm_captured alternative) of
        (Some p, None) \<Rightarrow> False
      | (Some p, Some q) \<Rightarrow>
          if cls_typeValue (class_of (pc_type p)) < cls_typeValue (class_of (pc_type q)) then True
          else depth
      | (None, Some q) \<Rightarrow> True
      | (None, None) \<Rightarrow> depth)"

definition cccp_checkSuperior :: "color \<Rightarrow> labeled_move \<Rightarrow> labeled_move \<Rightarrow> bool" where
  "cccp_checkSuperior turn check alternative =
     (if lm_isCheckmated check \<noteq> lm_isCheckmated alternative then lm_isCheckmated alternative
      else if lm_isInCheck check \<noteq> lm_isInCheck alternative then lm_isInCheck alternative
      else superior_rest turn check alternative)"

definition cccp2_checkSuperior :: "color \<Rightarrow> labeled_move \<Rightarrow> labeled_move \<Rightarrow> bool" where
  "cccp2_checkSuperior turn check alternative =
     (if lm_isCheckmated check \<noteq> lm_isCheckmated alternative then lm_isCheckmated alternative
      else if lm_isInCheck check \<noteq> lm_isInCheck alternative then lm_isInCheck alternative
      else if lm_isSelfInCheck check \<noteq> lm_isSelfInCheck alternative
      then \<not> lm_isSelfInCheck alternative
      else superior_rest turn check alternative)"

fun best_move :: "(labeled_move \<Rightarrow> labeled_move \<Rightarrow> bool) \<Rightarrow> labeled_move \<Rightarrow> labeled_move list \<Rightarrow> labeled_move"
where
  "best_move superior best [] = best"
| "best_move superior best (l # ls) = best_move superior (if superior best l then l else best) ls"

definition cccp_chooseMove ::
  "(color \<Rightarrow> labeled_move \<Rightarrow> labeled_move \<Rightarrow> bool) \<Rightarrow> nat \<Rightarrow> move chess_op" where
  "cccp_chooseMove superior a = c_match a (\<lambda>m.
     let legal = filter (\<lambda>mv. sq_col (mv_from mv) \<in> set (m_columns m))
                   (allMoves_color (m_board m) (m_currentTurn m));
         (labeled, b) = label_moves (m_board m) (m_currentTurn m) legal (m_board m)
     in c_bind (c_modify (upd_match a (\<lambda>m. m\<lparr>m_board := b\<rparr>))) (\<lambda>_.
        case labeled of
          [] \<Rightarrow> c_throw (RuntimeError ''No labeled moves found.'')
        | l # ls \<Rightarrow> c_ret (lm_move (best_move (superior (m_currentTurn m)) l ls))))"

text \<open>\<open>dynamic_cast<AIPlayer *>(guest->get())->chooseMove(...)\<close>.\<close>

definition guest_chooseMove :: "nat \<Rightarrow> move chess_op" where
  "guest_chooseMove a = c_match a (\<lambda>m.
     case m_guest m of
       None \<Rightarrow> c_throw (UndefinedBehaviour ''empty optional'')
     | Some p \<Rightarrow> (case pl_kind p of
         HumanPlayer c \<Rightarrow> c_throw (UndefinedBehaviour ''null pointer'')
       | RandomPlayer \<Rightarrow> random_chooseMove a
       | CCCPPlayer \<Rightarrow> cccp_chooseMove cccp_checkSuperior a
       | CCCP2Player \<Rightarrow> cccp_chooseMove cccp2_checkSuperior a))"

section \<open>After a move\<close>

definition invertTurn :: "nat \<Rightarrow> unit chess_op" where
  "invertTurn a = c_modify (upd_match a (\<lambda>m. m\<lparr>m_currentTurn := otherColor (m_currentTurn m)\<rparr>))"

definition send_turn :: "nat \<Rightarrow> unit chess_op" where
  "send_turn a = c_match a (\<lambda>m. sendAll a ('':Turn '' @ colorName (m_currentTurn m)))"

text \<open>The endless loop that skips a player who cannot move.\<close>

fun skip_loop :: "nat \<Rightarrow> nat \<Rightarrow> unit chess_op" where
  "skip_loop 0 a = c_diverge"
| "skip_loop (Suc n) a = seqs
     [invertTurn a, send_turn a, roll a,
      c_match a (\<lambda>m. if \<not> canMove m then seqs [sendAll a '':Skip'', skip_loop n a] else c_ret ())]"

text \<open>
  Every roll of a match with at least one column takes numbers from the dice, so one more
  iteration than there are numbers is enough fuel.
\<close>

definition rolls_left :: "chess \<Rightarrow> nat" where
  "rolls_left st = Suc (length (ch_dice st))"

definition next_turn :: "nat \<Rightarrow> unit chess_op" where
  "next_turn a = c_match a (\<lambda>m.
     if m_noSkip m then seqs [invertTurn a, send_turn a, c_with (\<lambda>st. roll_until (rolls_left st) a)]
     else c_with (\<lambda>st. skip_loop (rolls_left st) a))"

definition afterMove :: "(move \<Rightarrow> unit chess_op) \<Rightarrow> nat \<Rightarrow> unit chess_op" where
  "afterMove guest_move a = c_match a (\<lambda>m.
     case m_kind m of
       HumanMatch \<Rightarrow> next_turn a
     | NullMatch \<Rightarrow> seqs [send_turn a, c_with (\<lambda>st. roll_until (rolls_left st) a)]
     | AIMatch \<Rightarrow> seqs [next_turn a, c_match a (\<lambda>m.
         if m_currentTurn m \<noteq> m_hostColor m \<and> \<not> m_over m
         then c_bind (guest_chooseMove a) guest_move else c_ret ())])"

text \<open>
  \<open>makeMove\<close> and \<open>AIMatch::afterMove\<close> call each other; the fuel bounds the number of moves made
  in one call, and each of them rolls at least once.
\<close>

fun makeMove :: "nat \<Rightarrow> nat \<Rightarrow> role \<Rightarrow> move \<Rightarrow> unit chess_op" where
  "makeMove 0 a seat mv = c_diverge"
| "makeMove (Suc n) a seat mv = move_body a seat mv (afterMove (makeMove n a Guest) a)"

end
