(* ===== verification/Chess_Plugin.thy ===== *)
theory Chess_Plugin
  imports Chess_Match Plugin_Host
begin

text \<open>
  The plugin \<open>ProbabilityChess\<close>: its WebSocket protocol, creation, joining and leaving of matches,
  and the handlers for connections and closes.
\<close>

section \<open>Creating, joining and leaving\<close>

definition VALID_MATCH_CHARS :: string where
  "VALID_MATCH_CHARS = ''abcdefghijklmnopqrstuvwxyzABCDEFGHIJKLMNOPQRSTUVWXYZ0123456789_''"

definition open_word :: "match \<Rightarrow> string" where
  "open_word m = (if isReady (m_kind m) m then ''closed'' else ''open'')"

definition announce :: "nat \<Rightarrow> unit chess_op" where
  "announce a = c_match a (\<lambda>m. broadcast ('':Match '' @ m_id m @ '' '' @ open_word m))"

text \<open>
  \<open>if (!match->anyCanMove()) match->end(...getPieces(White).empty()? getBlack() : getWhite()...)\<close>
  and \<open>do match->roll(); while (!match->canMove())\<close>.
\<close>

definition start_rolling :: "nat \<Rightarrow> unit chess_op" where
  "start_rolling a = seqs
     [c_modify (upd_match a (\<lambda>m. m\<lparr>m_started := True\<rparr>)),
      c_match a (\<lambda>m.
        if \<not> anyCanMove m
        then case getPieces (m_board m) White of
               None \<Rightarrow> c_diverge
             | Some ps \<Rightarrow> match_end a (Some (if ps = [] then getBlack m else getWhite m))
        else c_ret ()),
      c_with (\<lambda>st. roll_until (rolls_left st) a)]"

definition match_of_type :: "string \<Rightarrow> string \<Rightarrow> bool \<Rightarrow> bool \<Rightarrow> int \<Rightarrow> color \<Rightarrow> match option" where
  "match_of_type type match_id hidden noskip column_count color =
     (if type = ''human'' then Some (new_match HumanMatch match_id hidden noskip column_count color)
      else if type = ''random'' then Some (AIMatch_create RandomPlayer match_id hidden noskip column_count color)
      else if type = ''cccp'' then Some (AIMatch_create CCCPPlayer match_id hidden noskip column_count color)
      else if type = ''cccp2'' then Some (AIMatch_create CCCP2Player match_id hidden noskip column_count color)
      else if type = ''null'' then Some (NullMatch_new match_id hidden noskip column_count color)
      else None)"

text \<open>\<open>emplace\<close> keeps an entry that is already there.\<close>

definition omap_emplace :: "'k::linorder \<Rightarrow> 'v \<Rightarrow> ('k \<times> 'v) list \<Rightarrow> ('k \<times> 'v) list" where
  "omap_emplace k v m = (if map_of m k = None then omap_put k v m else m)"

text \<open>The rest of \<open>createMatch\<close> once the match \<open>m\<close> is built; \<open>a\<close> is its address.\<close>

definition open_match :: "int \<Rightarrow> string \<Rightarrow> color \<Rightarrow> bool \<Rightarrow> match \<Rightarrow> nat \<Rightarrow> unit chess_op" where
  "open_match client match_id color hidden m a = seqs
     [c_modify (\<lambda>st. st\<lparr>ch_heap := ch_heap st @ [m], ch_byID := omap_emplace match_id a (ch_byID st),
        ch_byClient := omap_emplace client a (ch_byClient st)\<rparr>),
      client_send client ('':Joined '' @ match_id @ '' '' @ colorName color),
      (if \<not> hidden then announce a else c_ret ()),
      (if isReady (m_kind m) m
       then seqs [client_send client '':Start'', send_turn a, sendBoard a, start_rolling a,
              (if \<not> hidden then announce a else c_ret ())]
       else sendBoard a)]"

definition createMatch :: "int \<Rightarrow> string \<Rightarrow> int \<Rightarrow> color \<Rightarrow> bool \<Rightarrow> bool \<Rightarrow> string \<Rightarrow> unit chess_op" where
  "createMatch client match_id column_count color hidden noskip type = c_with (\<lambda>st.
     if \<not> list_all (\<lambda>ch. ch \<in> set VALID_MATCH_CHARS) match_id
     then client_send client '':Error Invalid match ID.''
     else if column_count < 1 \<or> 8 < column_count
     then client_send client '':Error Invalid column count.''
     else if map_of (ch_byClient st) client \<noteq> None
     then client_send client '':Error Already in a match.''
     else if map_of (ch_byID st) match_id \<noteq> None
     then client_send client '':Error A match with that ID already exists.''
     else case match_of_type type match_id hidden noskip column_count color of
       None \<Rightarrow> client_send client '':Error Invalid match type.''
     | Some m \<Rightarrow> open_match client match_id color hidden
         (m\<lparr>m_host := Some \<lparr>pl_color = color, pl_role = Host, pl_kind = HumanPlayer client\<rparr>\<rparr>)
         (length (ch_heap st)))"

definition take_seat :: "int \<Rightarrow> bool \<Rightarrow> match \<Rightarrow> match" where
  "take_seat client as_spectator m =
     (if as_spectator then m\<lparr>m_spectators := m_spectators m @ [client]\<rparr>
      else if m_host m = None
      then m\<lparr>m_host := Some \<lparr>pl_color = m_hostColor m, pl_role = Host, pl_kind = HumanPlayer client\<rparr>\<rparr>
      else if m_guest m = None
      then m\<lparr>m_guest := Some \<lparr>pl_color = otherColor (m_hostColor m), pl_role = Guest,
             pl_kind = HumanPlayer client\<rparr>\<rparr>
      else m)"

text \<open>The rest of \<open>joinMatch\<close> once the match is known to have room.\<close>

definition enter_match :: "int \<Rightarrow> string \<Rightarrow> bool \<Rightarrow> nat \<Rightarrow> match \<Rightarrow> unit chess_op" where
  "enter_match client match_id as_spectator a m = seqs
     [c_modify (\<lambda>st. st\<lparr>ch_byClient := omap_emplace client a (ch_byClient st)\<rparr>),
      client_send client ('':Joined '' @ match_id @ '' ''
        @ (if as_spectator then ''spectator''
           else if m_host m = None then colorName (m_hostColor m)
           else colorName (otherColor (m_hostColor m)))),
      (if as_spectator then (if m_started m then client_send client '':Start'' else c_ret ())
       else if \<not> m_started m then sendAll a '':Start'' else c_ret ()),
      c_modify (upd_match a (take_seat client as_spectator)),
      (if \<not> as_spectator then client_send client '':Start'' else c_ret ()),
      c_match a (\<lambda>m. if isReady (m_kind m) m then send_turn a else c_ret ()),
      sendBoard a,
      (if \<not> as_spectator \<and> \<not> m_started m then start_rolling a
       else c_match a (\<lambda>m. seqs (client_send client (columnMessage m)
              # map (\<lambda>p. client_send client (capturedMessage p)) (m_captured m)))),
      c_match a (\<lambda>m. if \<not> as_spectator \<and> \<not> m_hidden m then announce a else c_ret ())]"

definition joinMatch :: "int \<Rightarrow> string \<Rightarrow> bool \<Rightarrow> unit chess_op" where
  "joinMatch client match_id as_spectator = c_with (\<lambda>st.
     if map_of (ch_byClient st) client \<noteq> None
     then client_send client '':Error Already in a match.''
     else case map_of (ch_byID st) match_id of
       None \<Rightarrow> client_send client '':Error No match with that ID exists.''
     | Some a \<Rightarrow> c_match a (\<lambda>m.
         if \<not> as_spectator \<and> m_host m \<noteq> None \<and> m_guest m \<noteq> None
         then client_send client '':Error Match is full.''
         else enter_match client match_id as_spectator a m))"

definition leaveMatch :: "int \<Rightarrow> unit chess_op" where
  "leaveMatch client = c_with (\<lambda>st.
     case map_of (ch_byClient st) client of
       None \<Rightarrow> c_ret ()
     | Some a \<Rightarrow> seqs [match_disconnect a client,
         c_modify (\<lambda>st. st\<lparr>ch_byClient := omap_del client (ch_byClient st)\<rparr>)])"

section \<open>Handlers\<close>

text \<open>
  The result, the protocol written to \<open>acceptedProtocol\<close>, and the state; the message and close
  handlers of the plugin are registered for the client in \<open>ch_handlers\<close>.
\<close>

definition chess_handleConnect ::
  "int \<Rightarrow> string list \<Rightarrow> bool \<Rightarrow> chess \<Rightarrow> cancelable_result \<times> string option \<times> chess" where
  "chess_handleConnect client protocols not_disabled st =
     (if \<not> not_disabled then (Pass, None, st)
      else if ''probchess'' \<in> set protocols
      then (Approve, Some ''probchess'', st\<lparr>ch_handlers := ch_handlers st @ [client],
              ch_connections := List.insert client (ch_connections st),
              ch_clients := List.insert client (ch_clients st)\<rparr>)
      else (Pass, None, st))"

definition chess_handleClose :: "int \<Rightarrow> unit chess_op" where
  "chess_handleClose client = seqs
     [c_modify (\<lambda>st. st\<lparr>ch_connections := remove1 client (ch_connections st),
        ch_clients := remove1 client (ch_clients st)\<rparr>),
      c_with (\<lambda>st. case map_of (ch_byClient st) client of
          None \<Rightarrow> c_ret ()
        | Some a \<Rightarrow> seqs [match_disconnect a client,
            c_modify (\<lambda>st. st\<lparr>ch_byClient := omap_del client (ch_byClient st)\<rparr>)])]"

definition invalid_message :: "int \<Rightarrow> unit chess_op" where
  "invalid_message client = client_send client '':Error Invalid message.''"

definition create_words :: "int \<Rightarrow> string list \<Rightarrow> unit chess_op" where
  "create_words client words =
     createMatch client (words ! 1) (schar (words ! 2 ! 0) - 48)
       (if words ! 3 = ''black'' then Black else White) (words ! 4 = ''hidden'') (words ! 5 = ''noskip'')
       (words ! 6)"

text \<open>The digits of \<open>"01234567"\<close> read as a coordinate.\<close>

definition octal_square :: "string \<Rightarrow> bool" where
  "octal_square str \<longleftrightarrow> length str = 2 \<and> list_all (\<lambda>ch. ch \<in> set ''01234567'') str"

definition word_square :: "string \<Rightarrow> square" where
  "word_square str = sq (schar (str ! 0) - 48) (schar (str ! 1) - 48)"

text \<open>\<open>try { makeMove(...) } catch (ChessError &err)\<close>; other exceptions pass.\<close>

definition catch_chess :: "int \<Rightarrow> unit chess_op \<Rightarrow> unit chess_op" where
  "catch_chess client f st =
     (case f st of
        Some (st', Inl (ChessError what)) \<Rightarrow> client_send client ('':Error '' @ what) st'
      | other \<Rightarrow> other)"

definition move_words :: "int \<Rightarrow> string list \<Rightarrow> unit chess_op" where
  "move_words client words = c_with (\<lambda>st.
     case map_of (ch_byClient st) client of
       None \<Rightarrow> client_send client '':Error Not in a match.''
     | Some a \<Rightarrow> catch_chess client (c_match a (\<lambda>m.
         case getPlayer m client of
           Inl e \<Rightarrow> c_throw e
         | Inr seat \<Rightarrow> makeMove (rolls_left st) a seat
             \<lparr>mv_from = word_square (words ! 1), mv_to = word_square (words ! 2)\<rparr>)))"

definition list_matches :: "int \<Rightarrow> unit chess_op" where
  "list_matches client = c_with (\<lambda>st. seqs (client_send client '':ClearMatches'' #
     map (\<lambda>(match_id, a). let m = get_match a st in
       if \<not> m_hidden m then client_send client ('':Match '' @ match_id @ '' '' @ open_word m) else c_ret ())
       (ch_byID st)))"

definition send_fen :: "int \<Rightarrow> unit chess_op" where
  "send_fen client = c_with (\<lambda>st.
     case map_of (ch_byClient st) client of
       None \<Rightarrow> client_send client '':Error Not in a match.''
     | Some a \<Rightarrow> c_match a (\<lambda>m. client_send client ('':FEN '' @ toFEN (m_board m) (m_currentTurn m))))"

definition chess_words :: "int \<Rightarrow> string list \<Rightarrow> unit chess_op" where
  "chess_words client words =
     (if hd words = ''Create'' then
        if length words \<noteq> 7 \<or> words ! 1 = [] \<or> length (words ! 2) \<noteq> 1 then invalid_message client
        else create_words client words
      else if hd words = ''Join'' then
        if length words \<noteq> 2 \<or> words ! 1 = [] then invalid_message client
        else joinMatch client (words ! 1) False
      else if hd words = ''Spectate'' then
        if length words \<noteq> 2 \<or> words ! 1 = [] then invalid_message client
        else joinMatch client (words ! 1) True
      else if hd words = ''CreateOrJoin'' then
        if length words \<noteq> 7 \<or> words ! 1 = [] \<or> length (words ! 2) \<noteq> 1 then invalid_message client
        else c_with (\<lambda>st. if map_of (ch_byID st) (words ! 1) \<noteq> None
               then joinMatch client (words ! 1) False else create_words client words)
      else if hd words = ''Move'' then
        if length words \<noteq> 3 then invalid_message client
        else if \<not> octal_square (words ! 1) \<or> \<not> octal_square (words ! 2) then invalid_message client
        else move_words client words
      else if hd words = ''GetMatches'' then list_matches client
      else if hd words = ''FEN'' then send_fen client
      else if hd words = ''LeaveMatch'' then leaveMatch client
      else client_send client '':Error Unknown message type'')"

definition chess_message :: "int \<Rightarrow> string \<Rightarrow> unit chess_op" where
  "chess_message client message =
     (if message = [] \<or> hd message \<noteq> CHR '':'' then invalid_message client
      else case split_view (substr 1 None message) '' '' True of
        None \<Rightarrow> c_throw (UndefinedBehaviour ''split does not return'')
      | Some words \<Rightarrow>
          if words = [] then c_throw (UndefinedBehaviour ''words[0] of an empty vector'')
          else chess_words client words)"

definition chess_handleMessage :: "int \<Rightarrow> string \<Rightarrow> bool \<Rightarrow> cancelable_result chess_op" where
  "chess_handleMessage client message not_disabled =
     (if \<not> not_disabled then c_ret Pass
      else c_bind (chess_message client message) (\<lambda>_. c_ret Approve))"

end
