(* ===== verification/Chess_Invariant.thy ===== *)
theory Chess_Invariant
  imports Chess_Plugin
begin

text \<open>
  The invariant of the plugin: the two tables and the heap of matches agree, every board is
  well formed, and every client a match may write to is connected.  A small logic of assertions
  before and after an operation carries it through the code.
\<close>

section \<open>Assertions\<close>

definition holds ::
  "(chess \<Rightarrow> bool) \<Rightarrow> 'a chess_op \<Rightarrow> ('a \<Rightarrow> chess \<Rightarrow> bool) \<Rightarrow> (exn \<Rightarrow> chess \<Rightarrow> bool) \<Rightarrow> bool" where
  "holds P f Q E \<longleftrightarrow> (\<forall>st st' r. P st \<longrightarrow> f st = Some (st', r) \<longrightarrow>
     (case r of Inl e \<Rightarrow> E e st' | Inr x \<Rightarrow> Q x st'))"

named_theorems holds_intros \<open>rules for assertions\<close>

lemma holdsD: "holds P f Q E \<Longrightarrow> P st \<Longrightarrow> f st = Some (st', r) \<Longrightarrow>
    (case r of Inl e \<Rightarrow> E e st' | Inr x \<Rightarrow> Q x st')"
  by (auto simp: holds_def)

lemma holds_ret: "(\<And>st. P st \<Longrightarrow> Q x st) \<Longrightarrow> holds P (c_ret x) Q E"
  by (simp add: holds_def c_ret_def)

lemma holds_throw: "(\<And>st. P st \<Longrightarrow> E e st) \<Longrightarrow> holds P (c_throw e) Q E"
  by (simp add: holds_def c_throw_def)

lemma holds_diverge [holds_intros]: "holds P c_diverge Q E"
  by (simp add: holds_def c_diverge_def)

lemma holds_modify: "(\<And>st. P st \<Longrightarrow> Q () (f st)) \<Longrightarrow> holds P (c_modify f) Q E"
  by (simp add: holds_def c_modify_def)

lemma holds_with: "(\<And>st0. holds (\<lambda>st. P st \<and> st = st0) (f st0) Q E) \<Longrightarrow> holds P (c_with f) Q E"
  by (auto simp: holds_def c_with_def)

lemma holds_match:
  "(\<And>m. holds (\<lambda>st. P st \<and> get_match a st = m) (f m) Q E) \<Longrightarrow> holds P (c_match a f) Q E"
  by (auto simp: holds_def c_match_def)

lemma holds_bind:
  assumes "holds P f R E" "\<And>x. holds (R x) (g x) Q E"
  shows "holds P (c_bind f g) Q E"
  unfolding holds_def
proof (intro allI impI)
  fix st st' r assume st: "P st" and run: "c_bind f g st = Some (st', r)"
  show "case r of Inl e \<Rightarrow> E e st' | Inr x \<Rightarrow> Q x st'"
  proof (cases "f st")
    case None
    with run show ?thesis by (simp add: c_bind_def)
  next
    case (Some a)
    obtain s1 r1 where a: "a = (s1, r1)" by force
    with holdsD [OF assms(1) st] Some have "case r1 of Inl e \<Rightarrow> E e s1 | Inr x \<Rightarrow> R x s1" by simp
    with run Some a show ?thesis
      using holdsD [OF assms(2)] by (cases r1) (fastforce simp: c_bind_def)+
  qed
qed

lemma holds_seqs_Nil: "(\<And>st. P st \<Longrightarrow> Q () st) \<Longrightarrow> holds P (seqs []) Q E"
  by (simp add: holds_ret)

lemma holds_seqs_Cons:
  "holds P f (\<lambda>_. R) E \<Longrightarrow> holds R (seqs fs) Q E \<Longrightarrow> holds P (seqs (f # fs)) Q E"
  by (simp add: holds_bind)

lemma holds_pre: "holds P' f Q E \<Longrightarrow> (\<And>st. P st \<Longrightarrow> P' st) \<Longrightarrow> holds P f Q E"
  by (auto simp: holds_def)

lemma holds_post:
  "holds P f Q' E' \<Longrightarrow> (\<And>x st. Q' x st \<Longrightarrow> Q x st) \<Longrightarrow> (\<And>e st. E' e st \<Longrightarrow> E e st) \<Longrightarrow> holds P f Q E"
  by (fastforce simp: holds_def split: sum.splits)

lemma holds_if:
  "(c \<Longrightarrow> holds P f Q E) \<Longrightarrow> (\<not> c \<Longrightarrow> holds P g Q E) \<Longrightarrow> holds P (if c then f else g) Q E"
  by simp

lemma holds_seqs_map:
  "(\<And>x. x \<in> set xs \<Longrightarrow> holds P (g x) (\<lambda>_. P) E) \<Longrightarrow> holds P (seqs (map g xs)) (\<lambda>_. P) E"
  by (induction xs) (auto intro: holds_ret holds_bind)

lemma holds_seqs_append:
  assumes "holds P (seqs fs) (\<lambda>_. R) E" "holds R (seqs gs) Q E"
  shows "holds P (seqs (fs @ gs)) Q E"
proof -
  have "seqs (fs @ gs) = c_bind (seqs fs) (\<lambda>_. seqs gs)"
    by (induction fs) (auto simp: c_bind_def c_ret_def fun_eq_iff split: option.splits sum.splits)
  with assms show ?thesis by (simp add: holds_bind)
qed

lemma holds_with_const:
  "(\<And>st0. P st0 \<Longrightarrow> holds P (f st0) Q E) \<Longrightarrow> holds P (c_with f) Q E"
  by (auto simp: holds_def c_with_def)

section \<open>The invariant\<close>

definition members :: "match \<Rightarrow> int set" where
  "members m = {c. is_client (m_host m) c} \<union> {c. is_client (m_guest m) c} \<union> set (m_spectators m)"

text \<open>A match on its own: board, columns, and the seats of its kind.\<close>

definition is_ai :: "player_kind \<Rightarrow> bool" where
  "is_ai k \<longleftrightarrow> (case k of HumanPlayer _ \<Rightarrow> False | _ \<Rightarrow> True)"

definition columns_ok :: "match \<Rightarrow> bool" where
  "columns_ok m \<longleftrightarrow> 1 \<le> m_columnCount m \<and> m_columnCount m \<le> 8 \<and> sorted (m_columns m)
     \<and> distinct (m_columns m) \<and> set (m_columns m) \<subseteq> {0..7}
     \<and> (m_columns m = [] \<or> int (length (m_columns m)) = m_columnCount m)"

definition seats_ok :: "match \<Rightarrow> bool" where
  "seats_ok m \<longleftrightarrow>
     (m_kind m = AIMatch \<longrightarrow> (case m_guest m of Some p \<Rightarrow> is_ai (pl_kind p) | None \<Rightarrow> False))
   \<and> (m_kind m = NullMatch \<longrightarrow> m_currentTurn m = m_hostColor m)
   \<and> (case m_host m of Some p \<Rightarrow> \<not> is_ai (pl_kind p) | None \<Rightarrow> True)"

definition match_ok :: "match \<Rightarrow> bool" where
  "match_ok m \<longleftrightarrow> board_ok (m_board m) \<and> columns_ok m \<and> seats_ok m
     \<and> (\<not> m_started m \<longrightarrow> m_board m = placePieces new_board \<and> m_columns m = [])"

text \<open>
  All matches and tables.  \<open>D\<close> are clients on their way in or out, whose entry in
  \<open>matchesByClient\<close> is not yet, or no longer, matched by a seat; \<open>A\<close> are matches about to end.
\<close>

definition chess_inv :: "int set \<Rightarrow> nat set \<Rightarrow> chess \<Rightarrow> bool" where
  "chess_inv D A st \<longleftrightarrow>
     omap_ok (ch_byID st) \<and> omap_ok (ch_byClient st) \<and> set (ch_clients st) \<subseteq> set (ch_live st)
   \<and> distinct (ch_clients st)
   \<and> (\<forall>k a. map_of (ch_byID st) k = Some a \<longrightarrow>
        a < length (ch_heap st) \<and> m_id (ch_heap st ! a) = k \<and> \<not> m_over (ch_heap st ! a))
   \<and> (\<forall>a < length (ch_heap st). match_ok (ch_heap st ! a) \<and>
        (\<not> m_over (ch_heap st ! a) \<longrightarrow>
           map_of (ch_byID st) (m_id (ch_heap st ! a)) = Some a
         \<and> members (ch_heap st ! a) \<subseteq> set (ch_live st) - D
         \<and> (a \<notin> A \<longrightarrow> isActive (m_kind (ch_heap st ! a)) (ch_heap st ! a)
              \<and> m_winnerColor (ch_heap st ! a) = None)))
   \<and> (\<forall>c a. c \<notin> D \<longrightarrow> (map_of (ch_byClient st) c = Some a \<longleftrightarrow>
        a < length (ch_heap st) \<and> \<not> m_over (ch_heap st ! a) \<and> c \<in> members (ch_heap st ! a)))"

definition inv_at :: "int set \<Rightarrow> nat set \<Rightarrow> nat \<Rightarrow> (match \<Rightarrow> bool) \<Rightarrow> chess \<Rightarrow> bool" where
  "inv_at D A a \<phi> st \<longleftrightarrow> chess_inv D A st \<and> a < length (ch_heap st) \<and> \<not> m_over (get_match a st) \<and> \<phi> (get_match a st)"

lemma inv_out [simp]: "chess_inv D A (st\<lparr>ch_out := out\<rparr>) = chess_inv D A st"
  by (simp add: chess_inv_def)

lemma get_match_out [simp]: "get_match a (st\<lparr>ch_out := out\<rparr>) = get_match a st"
  by (simp add: get_match_def)

lemma inv_at_out [simp]: "inv_at D A a \<phi> (st\<lparr>ch_out := out\<rparr>) = inv_at D A a \<phi> st"
  by (simp add: inv_at_def)

lemma inv_dice [simp]: "chess_inv D A (st\<lparr>ch_dice := ds\<rparr>) = chess_inv D A st"
  by (simp add: chess_inv_def)

lemma get_match_dice [simp]: "get_match a (st\<lparr>ch_dice := ds\<rparr>) = get_match a st"
  by (simp add: get_match_def)

lemma inv_at_dice [simp]: "inv_at D A a \<phi> (st\<lparr>ch_dice := ds\<rparr>) = inv_at D A a \<phi> st"
  by (simp add: inv_at_def)

lemma inv_match_ok: "chess_inv D A st \<Longrightarrow> a < length (ch_heap st) \<Longrightarrow> match_ok (get_match a st)"
  by (simp add: chess_inv_def get_match_def)

lemma inv_members_live:
  "chess_inv D A st \<Longrightarrow> a < length (ch_heap st) \<Longrightarrow> \<not> m_over (get_match a st) \<Longrightarrow>
    members (get_match a st) \<subseteq> set (ch_live st) - D"
  by (simp add: chess_inv_def get_match_def)

lemma inv_atD:
  assumes "inv_at D A a \<phi> st"
  shows "chess_inv D A st" "a < length (ch_heap st)" "\<not> m_over (get_match a st)" "\<phi> (get_match a st)"
    "match_ok (get_match a st)" "members (get_match a st) \<subseteq> set (ch_live st) - D"
proof -
  show basic: "chess_inv D A st" "a < length (ch_heap st)" "\<not> m_over (get_match a st)" "\<phi> (get_match a st)"
    using assms by (simp_all add: inv_at_def)
  show "match_ok (get_match a st)" using inv_match_ok [OF basic(1,2)] .
  show "members (get_match a st) \<subseteq> set (ch_live st) - D" using inv_members_live [OF basic(1-3)] .
qed

lemma inv_atI:
  "chess_inv D A st \<Longrightarrow> a < length (ch_heap st) \<Longrightarrow> \<not> m_over (get_match a st) \<Longrightarrow> \<phi> (get_match a st) \<Longrightarrow>
    inv_at D A a \<phi> st"
  by (simp add: inv_at_def)

section \<open>Sending never fails\<close>

text \<open>An assertion that does not mention the output and under which the members are connected.\<close>

definition sendable :: "nat \<Rightarrow> (chess \<Rightarrow> bool) \<Rightarrow> bool" where
  "sendable a P \<longleftrightarrow> (\<forall>st out. P st \<longrightarrow> P (st\<lparr>ch_out := out\<rparr>))
     \<and> (\<forall>st. P st \<longrightarrow> members (get_match a st) \<subseteq> set (ch_live st))"

lemma sendable_inv_at [simp]: "sendable a (inv_at D A a \<phi>)"
  using inv_atD(6) by (fastforce simp: sendable_def)

lemma sendable_match [simp]: "sendable a P \<Longrightarrow> sendable a (\<lambda>st. P st \<and> get_match a st = m)"
  unfolding sendable_def by auto

definition out_free :: "(chess \<Rightarrow> bool) \<Rightarrow> bool" where
  "out_free P \<longleftrightarrow> (\<forall>st out. P st \<longrightarrow> P (st\<lparr>ch_out := out\<rparr>))"

lemma out_free_inv [simp]: "out_free (chess_inv D A)" "out_free (inv_at D A a \<phi>)"
  by (simp_all add: out_free_def)

lemma out_free_match [simp]: "out_free P \<Longrightarrow> out_free (\<lambda>st. P st \<and> get_match a st = m)"
  by (simp add: out_free_def)

lemma sendable_out_free: "sendable a P \<Longrightarrow> out_free P"
  by (simp add: sendable_def out_free_def)

lemma holds_client_send: "out_free P \<Longrightarrow> holds P (client_send c msg) (\<lambda>_. P) E"
  by (simp add: client_send_def holds_modify out_free_def)

lemma holds_broadcast: "out_free P \<Longrightarrow> holds P (broadcast msg) (\<lambda>_. P) E"
  unfolding broadcast_def by (intro holds_with_const holds_seqs_map holds_client_send)

lemma holds_plugin_send:
  "out_free P \<Longrightarrow> (\<And>st. P st \<Longrightarrow> c \<in> set (ch_live st)) \<Longrightarrow> holds P (plugin_send c msg) (\<lambda>_. P) E"
  unfolding plugin_send_def by (intro holds_with_const) (simp add: holds_client_send)

lemma holds_player_send:
  assumes "out_free P" "\<And>st. P st \<Longrightarrow> {c. is_client (Some p) c} \<subseteq> set (ch_live st)"
  shows "holds P (player_send p msg) (\<lambda>_. P) E"
proof (cases "pl_kind p")
  case (HumanPlayer c)
  with assms have "holds P (plugin_send c msg) (\<lambda>_. P) E"
    by (intro holds_plugin_send) (auto simp: is_client_def)
  with HumanPlayer show ?thesis by (simp add: player_send_def)
qed (simp_all add: player_send_def holds_ret)

lemma holds_match_const:
  assumes "\<And>m. holds (\<lambda>st. P st \<and> get_match a st = m) (f m) (\<lambda>_ st. P st \<and> get_match a st = m) E"
  shows "holds P (c_match a f) (\<lambda>_. P) E"
  by (intro holds_match holds_post [OF assms]) auto

lemma holds_sends:
  assumes "sendable a P"
  shows "holds P (sendHost a msg) (\<lambda>_. P) E" "holds P (sendGuest a msg) (\<lambda>_. P) E"
    "holds P (sendBoth a msg) (\<lambda>_. P) E" "holds P (sendSpectators a msg) (\<lambda>_. P) E"
    "holds P (sendAll a msg) (\<lambda>_. P) E"
proof -
  have live: "members (get_match a st) \<subseteq> set (ch_live st)" if "P st" for st
    using that assms by (simp add: sendable_def)
  have free: "out_free (\<lambda>st. P st \<and> get_match a st = m)" for m
    using sendable_out_free [OF assms] by simp
  show host: "holds P (sendHost a msg) (\<lambda>_. P) E" for msg
    unfolding sendHost_def
  proof (rule holds_match_const)
    fix m
    show "holds (\<lambda>st. P st \<and> get_match a st = m)
        (case m_host m of None \<Rightarrow> c_ret () | Some p \<Rightarrow> player_send p msg) (\<lambda>_ st. P st \<and> get_match a st = m) E"
    proof (cases "m_host m")
      case (Some p)
      then have "holds (\<lambda>st. P st \<and> get_match a st = m) (player_send p msg) (\<lambda>_ st. P st \<and> get_match a st = m) E"
        using live by (intro holds_player_send free) (fastforce simp: members_def)
      with Some show ?thesis by simp
    qed (simp add: holds_ret)
  qed
  show guest: "holds P (sendGuest a msg) (\<lambda>_. P) E" for msg
    unfolding sendGuest_def
  proof (rule holds_match_const)
    fix m
    show "holds (\<lambda>st. P st \<and> get_match a st = m)
        (case m_guest m of None \<Rightarrow> c_ret () | Some p \<Rightarrow> player_send p msg) (\<lambda>_ st. P st \<and> get_match a st = m) E"
    proof (cases "m_guest m")
      case (Some p)
      then have "holds (\<lambda>st. P st \<and> get_match a st = m) (player_send p msg) (\<lambda>_ st. P st \<and> get_match a st = m) E"
        using live by (intro holds_player_send free) (fastforce simp: members_def)
      with Some show ?thesis by simp
    qed (simp add: holds_ret)
  qed
  show both: "holds P (sendBoth a msg) (\<lambda>_. P) E" for msg
    unfolding sendBoth_def by (intro holds_seqs_Cons [OF host] holds_seqs_Cons [OF guest] holds_seqs_Nil)
  show spect: "holds P (sendSpectators a msg) (\<lambda>_. P) E" for msg
    unfolding sendSpectators_def
    by (intro holds_match_const holds_seqs_map holds_plugin_send free)
      (use live in \<open>fastforce simp: members_def\<close>)
  show "holds P (sendAll a msg) (\<lambda>_. P) E"
    unfolding sendAll_def by (intro holds_seqs_Cons [OF both] holds_seqs_Cons [OF spect] holds_seqs_Nil)
qed

lemma holds_sendBoard: "sendable a P \<Longrightarrow> holds P (sendBoard a) (\<lambda>_. P) E"
  unfolding sendBoard_def by (intro holds_match_const holds_sends) simp

lemma holds_send_turn: "sendable a P \<Longrightarrow> holds P (send_turn a) (\<lambda>_. P) E"
  unfolding send_turn_def by (intro holds_match_const holds_sends) simp

lemma holds_announce: "out_free P \<Longrightarrow> holds P (announce a) (\<lambda>_. P) E"
  unfolding announce_def by (intro holds_match_const holds_broadcast) simp

section \<open>Steps that keep the seats\<close>

definition links :: "match \<Rightarrow> string \<times> bool \<times> match_kind \<times> player option \<times> player option \<times> int list" where
  "links m = (m_id m, m_over m, m_kind m, m_host m, m_guest m, m_spectators m)"

lemma links_eqD:
  assumes "links m = links m'"
  shows "m_id m = m_id m'" "m_over m = m_over m'" "m_kind m = m_kind m'" "m_host m = m_host m'"
    "m_guest m = m_guest m'" "m_spectators m = m_spectators m'" "members m = members m'"
    "isActive k m = isActive k m'" "isReady k m = isReady k m'"
  using assms by (cases k; simp add: links_def members_def)+

lemma inv_mono: "chess_inv D A st \<Longrightarrow> A \<subseteq> A' \<Longrightarrow> chess_inv D A' st"
  by (auto simp: chess_inv_def)

lemma get_upd [simp]: "a < length (ch_heap st) \<Longrightarrow> get_match a (upd_match a f st) = f (get_match a st)"
  by (simp add: get_match_def upd_match_def)

lemma upd_fields [simp]:
  "length (ch_heap (upd_match a f st)) = length (ch_heap st)"
  "ch_byID (upd_match a f st) = ch_byID st" "ch_byClient (upd_match a f st) = ch_byClient st"
  "ch_live (upd_match a f st) = ch_live st" "ch_clients (upd_match a f st) = ch_clients st"
  "ch_dice (upd_match a f st) = ch_dice st" "ch_out (upd_match a f st) = ch_out st"
  by (simp_all add: upd_match_def)

lemma upd_inv:
  assumes "chess_inv D A st" "a < length (ch_heap st)"
    and f: "links (f (get_match a st)) = links (get_match a st)" "match_ok (f (get_match a st))"
      "a \<in> A \<or> m_winnerColor (f (get_match a st)) = m_winnerColor (get_match a st)"
  shows "chess_inv D A (upd_match a f st)"
proof -
  let ?h = "ch_heap st" and ?h' = "ch_heap (upd_match a f st)"
  have nth: "?h' ! b = (if b = a then f (get_match a st) else ?h ! b)" if "b < length ?h" for b
    using that by (simp add: upd_match_def get_match_def)
  have link: "links (?h' ! b) = links (?h ! b)" if "b < length ?h" for b
    using that f(1) by (simp add: nth get_match_def)
  note same = links_eqD [OF link]
  have ok: "match_ok (?h' ! b)" if "b < length ?h" for b
    using that f(2) assms(1) by (simp add: nth chess_inv_def)
  have win: "m_winnerColor (?h' ! b) = m_winnerColor (?h ! b)" if "b < length ?h" "b \<notin> A" for b
    using that f(3) by (auto simp: nth get_match_def)
  show ?thesis
    unfolding chess_inv_def upd_fields
    by (intro conjI allI impI) (use assms(1) in \<open>auto simp: chess_inv_def same ok win\<close>)
qed

lemma upd_inv_at:
  assumes "inv_at D A a \<phi> st"
    and "\<And>m. match_ok m \<Longrightarrow> \<phi> m \<Longrightarrow> links (f m) = links m \<and> match_ok (f m) \<and> \<psi> (f m)
      \<and> (a \<in> A \<or> m_winnerColor (f m) = m_winnerColor m)"
  shows "inv_at D A a \<psi> (upd_match a f st)"
proof -
  note m = inv_atD [OF assms(1)]
  note fm = assms(2) [OF m(5,4)]
  have "\<not> m_over (f (get_match a st))" using fm m(3) links_eqD(2) by blast
  with m fm upd_inv [of D A st a f] show ?thesis by (intro inv_atI) auto
qed

lemma holds_upd:
  assumes "\<And>m. match_ok m \<Longrightarrow> \<phi> m \<Longrightarrow> links (f m) = links m \<and> match_ok (f m) \<and> \<psi> (f m)
      \<and> (a \<in> A \<or> m_winnerColor (f m) = m_winnerColor m)"
  shows "holds (inv_at D A a \<phi>) (c_modify (upd_match a f)) (\<lambda>_. inv_at D A a \<psi>) E"
  by (intro holds_modify upd_inv_at [where \<phi> = \<phi>]) (use assms in auto)

text \<open>Reading the match adds what is known of it to the assertion.\<close>

lemma holds_match_at:
  assumes "\<And>m. match_ok m \<Longrightarrow> \<phi> m \<Longrightarrow> \<not> m_over m \<Longrightarrow> holds (inv_at D A a (\<lambda>m'. m' = m)) (f m) Q E"
  shows "holds (inv_at D A a \<phi>) (c_match a f) Q E"
proof (rule holds_match)
  fix m
  show "holds (\<lambda>st. inv_at D A a \<phi> st \<and> get_match a st = m) (f m) Q E"
  proof (cases "match_ok m \<and> \<phi> m \<and> \<not> m_over m")
    case True
    then show ?thesis by (intro holds_pre [OF assms]) (auto simp: inv_at_def)
  next
    case False
    then show ?thesis using inv_atD by (fastforce simp: holds_def)
  qed
qed

lemma holds_at_weaken:
  "holds (inv_at D A a \<psi>) f Q E \<Longrightarrow> (\<And>m. match_ok m \<Longrightarrow> \<phi> m \<Longrightarrow> \<psi> m) \<Longrightarrow> holds (inv_at D A a \<phi>) f Q E"
  by (rule holds_pre, assumption) (auto simp: inv_at_def inv_match_ok)

section \<open>Rolling the dice\<close>

lemma throw_dice_two:
  "throw_dice 0 0 ds = (case ds of d # e # ds' \<Rightarrow> Some (int d mod 6 + 1 + (int e mod 6 + 1), ds') | _ \<Rightarrow> None)"
proof (cases ds)
  case (Cons d ds1)
  then show ?thesis
    by (cases ds1) (simp_all add: throw_dice.simps [of 0 0] throw_dice.simps [of 6] throw_dice.simps [of 12]
      board_width_def)
qed (simp add: throw_dice.simps board_width_def)

definition die_column :: "nat \<Rightarrow> nat \<Rightarrow> int" where
  "die_column d e = (int d mod 6 + int e mod 6 + 1) mod 8"

lemma wrap_two: "wrap_column (int d mod 6 + 1 + (int e mod 6 + 1)) - 1 = die_column d e"
proof -
  let ?s = "int d mod 6 + int e mod 6 + 1"
  have "0 \<le> int d mod 6" "0 \<le> int e mod 6" by simp_all
  then have "1 \<le> ?s" "?s \<le> 11" by (use pos_mod_bound [of 6 "int d"] pos_mod_bound [of 6 "int e"] in linarith)+
  moreover have "wrap_column (?s + 1) = (if 8 < ?s + 1 then ?s + 1 - 8 else ?s + 1)"
    using \<open>?s \<le> 11\<close> by (subst wrap_column.simps) (simp add: board_width_def wrap_column.simps)
  moreover have "x mod 8 = (if x < 8 then x else x - 8)" if "1 \<le> x" "x \<le> 11" for x :: int
  proof (cases "x < 8")
    case False
    have "x mod 8 = (x - 8) mod 8" by simp
    also have "\<dots> = x - 8" using False that by (intro mod_pos_pos_trivial) auto
    finally show ?thesis using False by simp
  qed (use that in \<open>simp add: mod_pos_pos_trivial\<close>)
  ultimately have "wrap_column (?s + 1) - 1 = ?s mod 8" by auto
  then show ?thesis by (simp add: die_column_def algebra_simps)
qed

lemma wrap_two_sum: "wrap_column (2 + (int d mod 6 + int e mod 6)) - 1 = die_column d e"
  using wrap_two [of d e] by (simp add: algebra_simps)

lemma die_column_range: "0 \<le> die_column d e" "die_column d e \<le> 7"
  using pos_mod_bound [of 8] by (simp_all add: die_column_def zle_diff1_eq [symmetric])

lemma fresh_column_unfold:
  "fresh_column columns ds = (case ds of
     d # e # ds' \<Rightarrow> (if die_column d e \<in> set columns then fresh_column columns ds' else Some (die_column d e, ds'))
   | _ \<Rightarrow> None)"
  by (subst fresh_column.simps) (auto simp: throw_dice_two wrap_two_sum Let_def split: list.splits)

lemma fresh_column_ok:
  "fresh_column columns ds = Some (c, ds') \<Longrightarrow> c \<notin> set columns \<and> 0 \<le> c \<and> c \<le> 7 \<and> length ds' < length ds"
proof (induction ds arbitrary: rule: length_induct)
  case (1 ds)
  show ?case
  proof (cases "\<exists>d e ds1. ds = d # e # ds1")
    case False
    then have "fresh_column columns ds = None" by (subst fresh_column_unfold) (auto split: list.splits)
    with 1(2) show ?thesis by simp
  next
    case True
    then obtain d e ds1 where ds: "ds = d # e # ds1" by blast
    with 1(2) have "(if die_column d e \<in> set columns then fresh_column columns ds1
        else Some (die_column d e, ds1)) = Some (c, ds')" by (subst (asm) fresh_column_unfold) simp
    with 1(1) [rule_format, of ds1] ds show ?thesis by (auto simp: die_column_range split: if_splits)
  qed
qed

lemma roll_columns_ok:
  assumes "roll_columns n columns ds = Some (columns', ds')" "sorted columns" "distinct columns" "set columns \<subseteq> {0..7}"
  shows "sorted columns' \<and> distinct columns' \<and> set columns' \<subseteq> {0..7}
    \<and> length columns' = length columns + n \<and> (0 < n \<longrightarrow> length ds' < length ds) \<and> length ds' \<le> length ds"
  using assms
proof (induction n arbitrary: columns ds)
  case (Suc n)
  then obtain c ds1 where c: "fresh_column columns ds = Some (c, ds1)"
    "roll_columns n (insort_insert c columns) ds1 = Some (columns', ds')"
    by (auto split: option.splits)
  note fresh = fresh_column_ok [OF c(1)]
  with Suc.prems have "sorted (insort_insert c columns)" "distinct (insort_insert c columns)"
    "set (insort_insert c columns) \<subseteq> {0..7}" "length (insort_insert c columns) = Suc (length columns)"
    by (auto simp: sorted_insort_insert distinct_insort_insert insort_insert_key_def set_insort_key sorted_insort distinct_insort)
  from Suc.IH [OF c(2) this(1-3)] this(4) fresh show ?case by auto
qed simp

text \<open>Facts about a match that rolling does not touch, and passing the turn neither.\<close>

definition rolling :: "(match \<Rightarrow> bool) \<Rightarrow> bool" where
  "rolling \<phi> \<longleftrightarrow> (\<forall>m cs. \<phi> m \<longrightarrow> m_started m \<and> \<phi> (m\<lparr>m_columns := cs\<rparr>))"

definition lasting :: "(match \<Rightarrow> bool) \<Rightarrow> bool" where
  "lasting \<phi> \<longleftrightarrow> (\<forall>m cs t. \<phi> m \<longrightarrow> m_started m \<and> \<phi> (m\<lparr>m_columns := cs\<rparr>)
     \<and> (m_kind m \<noteq> NullMatch \<longrightarrow> \<phi> (m\<lparr>m_currentTurn := t\<rparr>)))"

lemma lasting_rolling: "lasting \<phi> \<Longrightarrow> rolling \<phi>"
  by (simp add: lasting_def rolling_def)

lemma match_ok_roll:
  assumes "match_ok m" "m_started m" "roll_columns (nat (m_columnCount m)) [] ds = Some (cs, ds')"
  shows "match_ok (m\<lparr>m_columns := cs\<rparr>)"
proof -
  from assms(1) have count: "1 \<le> m_columnCount m" "m_columnCount m \<le> 8" by (auto simp: match_ok_def columns_ok_def)
  from roll_columns_ok [OF assms(3)] have "sorted cs \<and> distinct cs \<and> set cs \<subseteq> {0..7} \<and> length cs = nat (m_columnCount m)"
    by simp
  with count assms(1,2) show ?thesis by (auto simp: match_ok_def columns_ok_def seats_ok_def split: option.splits)
qed

lemma holds_roll:
  assumes "rolling \<phi>"
  shows "holds (inv_at D A a \<phi>) (roll a) (\<lambda>_. inv_at D A a \<phi>) E"
  unfolding roll_def
proof (rule holds_seqs_Cons [OF _ holds_seqs_Cons [OF holds_match_const [OF holds_sends(5)] holds_seqs_Nil]])
  show "holds (inv_at D A a \<phi>) (c_match a (\<lambda>m. c_with (\<lambda>st.
        case roll_columns (nat (m_columnCount m)) [] (ch_dice st) of
          None \<Rightarrow> c_diverge
        | Some (columns, ds) \<Rightarrow>
            c_modify (\<lambda>st. (upd_match a (\<lambda>m. m\<lparr>m_columns := columns\<rparr>) st)\<lparr>ch_dice := ds\<rparr>))))
      (\<lambda>_. inv_at D A a \<phi>) E"
  proof (intro holds_match_at holds_with)
    fix m st0
    assume m: "match_ok m" "\<phi> m"
    show "holds (\<lambda>st. inv_at D A a (\<lambda>m'. m' = m) st \<and> st = st0)
      (case roll_columns (nat (m_columnCount m)) [] (ch_dice st0) of
          None \<Rightarrow> c_diverge
        | Some (columns, ds) \<Rightarrow>
            c_modify (\<lambda>st. (upd_match a (\<lambda>m. m\<lparr>m_columns := columns\<rparr>) st)\<lparr>ch_dice := ds\<rparr>))
      (\<lambda>_. inv_at D A a \<phi>) E"
    proof (cases "roll_columns (nat (m_columnCount m)) [] (ch_dice st0)")
      case (Some r)
      obtain cs ds where r: "r = (cs, ds)" by force
      have "match_ok (m\<lparr>m_columns := cs\<rparr>)" "\<phi> (m\<lparr>m_columns := cs\<rparr>)"
        using match_ok_roll m Some r assms by (auto simp: rolling_def)
      with Some r show ?thesis
        by (auto intro!: holds_modify upd_inv_at [where \<phi> = "\<lambda>m'. m' = m"] simp: links_def)
    qed (simp add: holds_diverge)
  qed
qed simp_all

lemma holds_roll_until:
  assumes "rolling \<phi>"
  shows "holds (inv_at D A a \<phi>) (roll_until n a) (\<lambda>_. inv_at D A a (\<lambda>m. \<phi> m \<and> canMove m)) E"
proof (induction n)
  case 0
  then show ?case by (simp add: holds_diverge)
next
  case (Suc n)
  show ?case
    unfolding roll_until.simps
  proof (rule holds_seqs_Cons [OF holds_roll [OF assms]], rule holds_seqs_Cons [OF _ holds_seqs_Nil])
    show "holds (inv_at D A a \<phi>) (c_match a (\<lambda>m. if \<not> canMove m then roll_until n a else c_ret ()))
      (\<lambda>_. inv_at D A a (\<lambda>m. \<phi> m \<and> canMove m)) E"
    proof (rule holds_match_at)
      fix m assume "\<phi> m"
      then show "holds (inv_at D A a (\<lambda>m'. m' = m)) (if \<not> canMove m then roll_until n a else c_ret ())
        (\<lambda>_. inv_at D A a (\<lambda>m. \<phi> m \<and> canMove m)) E"
        by (intro holds_if holds_at_weaken [OF Suc] holds_ret) (auto simp: inv_at_def)
    qed
  qed simp
qed

lemma holds_invertTurn:
  assumes "lasting \<phi>" "\<And>m. \<phi> m \<Longrightarrow> m_kind m \<noteq> NullMatch"
  shows "holds (inv_at D A a \<phi>) (invertTurn a) (\<lambda>_. inv_at D A a \<phi>) E"
  unfolding invertTurn_def
  by (rule holds_upd)
    (use assms in \<open>auto simp: links_def lasting_def match_ok_def columns_ok_def seats_ok_def split: option.splits\<close>)

lemma holds_skip_loop:
  assumes "lasting \<phi>" "\<And>m. \<phi> m \<Longrightarrow> m_kind m \<noteq> NullMatch"
  shows "holds (inv_at D A a \<phi>) (skip_loop n a) (\<lambda>_. inv_at D A a (\<lambda>m. \<phi> m \<and> canMove m)) E"
proof (induction n)
  case 0
  then show ?case by (simp add: holds_diverge)
next
  case (Suc n)
  show ?case
    unfolding skip_loop.simps
  proof (rule holds_seqs_Cons [OF holds_invertTurn [OF assms]], assumption,
      rule holds_seqs_Cons [OF holds_send_turn], simp, rule holds_seqs_Cons [OF holds_roll [OF lasting_rolling [OF assms(1)]]],
      rule holds_seqs_Cons [OF _ holds_seqs_Nil])
    show "holds (inv_at D A a \<phi>)
      (c_match a (\<lambda>m. if \<not> canMove m then seqs [sendAll a '':Skip'', skip_loop n a] else c_ret ()))
      (\<lambda>_. inv_at D A a (\<lambda>m. \<phi> m \<and> canMove m)) E"
    proof (rule holds_match_at)
      fix m assume m: "\<phi> m"
      have "holds (inv_at D A a (\<lambda>m'. m' = m)) (seqs [sendAll a '':Skip'', skip_loop n a])
        (\<lambda>_. inv_at D A a (\<lambda>m. \<phi> m \<and> canMove m)) E"
        by (rule holds_seqs_Cons [OF holds_sends(5)], simp, rule holds_seqs_Cons [OF holds_at_weaken [OF Suc]],
          simp add: m, rule holds_seqs_Nil)
      with m show "holds (inv_at D A a (\<lambda>m'. m' = m))
        (if \<not> canMove m then seqs [sendAll a '':Skip'', skip_loop n a] else c_ret ())
        (\<lambda>_. inv_at D A a (\<lambda>m. \<phi> m \<and> canMove m)) E"
        by (intro holds_if holds_ret) (auto simp: inv_at_def)
    qed
  qed simp
qed

lemma holds_next_turn:
  assumes "lasting \<phi>" "\<And>m. \<phi> m \<Longrightarrow> m_kind m \<noteq> NullMatch"
  shows "holds (inv_at D A a \<phi>) (next_turn a) (\<lambda>_. inv_at D A a (\<lambda>m. \<phi> m \<and> canMove m)) E"
proof -
  have "holds (inv_at D A a \<phi>) (seqs [invertTurn a, send_turn a, c_with (\<lambda>st. roll_until (rolls_left st) a)])
      (\<lambda>_. inv_at D A a (\<lambda>m. \<phi> m \<and> canMove m)) E"
    by (rule holds_seqs_Cons [OF holds_invertTurn [OF assms]], assumption,
      rule holds_seqs_Cons [OF holds_send_turn], simp,
      rule holds_seqs_Cons [OF holds_with_const [OF holds_roll_until [OF lasting_rolling [OF assms(1)]]]], rule holds_seqs_Nil)
  moreover have "holds (inv_at D A a \<phi>) (c_with (\<lambda>st. skip_loop (rolls_left st) a))
      (\<lambda>_. inv_at D A a (\<lambda>m. \<phi> m \<and> canMove m)) E"
    by (intro holds_with_const holds_skip_loop assms)
  ultimately show ?thesis
    unfolding next_turn_def
    by (intro holds_match_at) (auto intro: holds_if holds_at_weaken)
qed

section \<open>The end of a match\<close>

lemma map_of_fold_del:
  "omap_ok m \<Longrightarrow> omap_ok (fold omap_del ks m) \<and> map_of (fold omap_del ks m) k = (if k \<in> set ks then None else map_of m k)"
  by (induction ks arbitrary: m) (auto simp: omap.ok_del omap.get_del)

lemma forget_player_fields [simp]:
  "ch_heap (forget_player v st) = ch_heap st" "ch_byID (forget_player v st) = ch_byID st"
  "ch_live (forget_player v st) = ch_live st" "ch_clients (forget_player v st) = ch_clients st"
  "ch_dice (forget_player v st) = ch_dice st"
  by (simp_all add: forget_player_def split: option.splits player_kind.splits)

lemma forget_player_byClient:
  assumes "omap_ok (ch_byClient st)"
  shows "omap_ok (ch_byClient (forget_player v st))"
    "map_of (ch_byClient (forget_player v st)) c = (if is_client v c then None else map_of (ch_byClient st) c)"
  using assms by (simp_all add: forget_player_def is_client_def omap.ok_del omap.get_del
    split: option.splits player_kind.splits)

text \<open>The tables after the five updates \<open>Match::end\<close> makes.\<close>

definition end_tables :: "nat \<Rightarrow> match \<Rightarrow> chess \<Rightarrow> chess" where
  "end_tables a m st =
     (let st = upd_match a (\<lambda>m. m\<lparr>m_over := True\<rparr>) st;
          st = st\<lparr>ch_byID := omap_del (m_id m) (ch_byID st)\<rparr>;
          st = forget_player (m_host m) (forget_player (m_guest m) st)
      in st\<lparr>ch_byClient := fold omap_del (m_spectators m) (ch_byClient st)\<rparr>)"

lemma end_tables_fields:
  assumes "chess_inv D A st" "m = get_match a st"
  shows "ch_heap (end_tables a m st) = (ch_heap st)[a := m\<lparr>m_over := True\<rparr>]"
    "ch_byID (end_tables a m st) = omap_del (m_id m) (ch_byID st)"
    "ch_live (end_tables a m st) = ch_live st" "ch_clients (end_tables a m st) = ch_clients st"
    "omap_ok (ch_byClient (end_tables a m st))"
    "map_of (ch_byClient (end_tables a m st)) c = (if c \<in> members m then None else map_of (ch_byClient st) c)"
proof -
  let ?st = "(upd_match a (\<lambda>m. m\<lparr>m_over := True\<rparr>) st)\<lparr>ch_byID := omap_del (m_id m) (ch_byID st)\<rparr>"
  have ok: "omap_ok (ch_byClient ?st)" using assms(1) by (simp add: chess_inv_def)
  note guest = forget_player_byClient [OF ok, of "m_guest m"]
  note host = forget_player_byClient [OF guest(1), of "m_host m"]
  note spect = map_of_fold_del [OF host(1), of "m_spectators m" c]
  show "omap_ok (ch_byClient (end_tables a m st))"
    "map_of (ch_byClient (end_tables a m st)) c = (if c \<in> members m then None else map_of (ch_byClient st) c)"
    using spect by (auto simp: end_tables_def Let_def host(2) guest(2) members_def)
qed (use assms(2) in \<open>simp_all add: end_tables_def Let_def upd_match_def get_match_def\<close>)

lemma end_tables_inv:
  assumes st: "inv_at D {a} a (\<lambda>m'. m' = m) st"
  shows "chess_inv D {} (end_tables a m st)"
proof -
  note at = inv_atD [OF st]
  have m: "m = get_match a st" "m = ch_heap st ! a" using at(4) by (simp_all add: get_match_def)
  note fields = end_tables_fields [OF at(1) m(1)]
  note inv = at(1) [unfolded chess_inv_def]
  have len: "a < length (ch_heap st)" by (rule at(2))
  have nth: "(ch_heap st)[a := m\<lparr>m_over := True\<rparr>] ! b = (if b = a then m\<lparr>m_over := True\<rparr> else ch_heap st ! b)"
    if "b < length (ch_heap st)" for b using that by simp
  have okID: "omap_ok (ch_byID st)" using inv by blast
  have idm: "map_of (ch_byID st) (m_id m) = Some a" using inv len at(3) m by (auto simp: get_match_def)
  have other: "m_id (ch_heap st ! b) \<noteq> m_id m" if "b < length (ch_heap st)" "b \<noteq> a" "\<not> m_over (ch_heap st ! b)" for b
    using inv that idm by (metis option.inject)
  have alone: "b = a" if "c \<in> members m" "b < length (ch_heap st)" "\<not> m_over (ch_heap st ! b)" "c \<in> members (ch_heap st ! b)"
      for b c
  proof -
    have "c \<notin> D" using that(1) at(6) m(1) by blast
    then show ?thesis using inv that len at(3) m by (metis get_match_def option.inject)
  qed
  have "match_ok (m\<lparr>m_over := True\<rparr>)"
    using at(5) m by (simp add: match_ok_def columns_ok_def seats_ok_def split: option.splits)
  then show ?thesis
    unfolding chess_inv_def fields
  proof (intro conjI, goal_cases)
    case 5
    show ?case
    proof (intro allI impI)
      fix k b assume "map_of (omap_del (m_id m) (ch_byID st)) k = Some b"
      then have k: "k \<noteq> m_id m" "map_of (ch_byID st) k = Some b" by (auto simp: omap.get_del [OF okID] split: if_splits)
      with inv have b: "b < length (ch_heap st)" "m_id (ch_heap st ! b) = k" "\<not> m_over (ch_heap st ! b)" by blast+
      with k(1) m(2) have "b \<noteq> a" by blast
      with b show "b < length ((ch_heap st)[a := m\<lparr>m_over := True\<rparr>])
          \<and> m_id ((ch_heap st)[a := m\<lparr>m_over := True\<rparr>] ! b) = k
          \<and> \<not> m_over ((ch_heap st)[a := m\<lparr>m_over := True\<rparr>] ! b)" by simp
    qed
  next
    case 6
    then show ?case
      using inv other by (auto simp: omap.get_del [OF okID] nth)
  next
    case 7
    show ?case
    proof (intro allI impI)
      fix c b assume c: "c \<notin> D"
      then have "map_of (ch_byClient st) c = Some b \<longleftrightarrow>
          b < length (ch_heap st) \<and> \<not> m_over (ch_heap st ! b) \<and> c \<in> members (ch_heap st ! b)"
        using inv by blast
      then show "(if c \<in> members m then None else map_of (ch_byClient st) c) = Some b \<longleftrightarrow>
          b < length ((ch_heap st)[a := m\<lparr>m_over := True\<rparr>])
          \<and> \<not> m_over ((ch_heap st)[a := m\<lparr>m_over := True\<rparr>] ! b)
          \<and> c \<in> members ((ch_heap st)[a := m\<lparr>m_over := True\<rparr>] ! b)"
        using alone [of c b] m(2) len by (cases "b = a") auto
    qed
  qed (use inv omap.ok_del fields(5) in auto)
qed

lemma holds_match_end_of:
  fixes m :: match
  shows "holds (inv_at D {a} a (\<lambda>m'. m' = m)) (match_end a winner)
    (\<lambda>_ st. chess_inv D {} st \<and> get_match a st = m\<lparr>m_over := True\<rparr>) E"
  unfolding match_end_def
proof (rule holds_match_at)
  fix m' :: match assume m': "m' = m"
  let ?R = "\<lambda>st. chess_inv D {} st \<and> get_match a st = m\<lparr>m_over := True\<rparr>"
  let ?P = "inv_at D {a} a (\<lambda>m'. m' = m)"
  have tables: "seqs [c_modify (upd_match a (\<lambda>m. m\<lparr>m_over := True\<rparr>)),
      c_modify (\<lambda>st. st\<lparr>ch_byID := omap_del (m_id m) (ch_byID st)\<rparr>),
      c_modify (forget_player (m_guest m)),
      c_modify (forget_player (m_host m)),
      c_modify (\<lambda>st. st\<lparr>ch_byClient := fold omap_del (m_spectators m) (ch_byClient st)\<rparr>)]
    = c_modify (end_tables a m)"
    by (simp add: fun_eq_iff c_bind_def c_modify_def c_ret_def end_tables_def Let_def)
  have msg: "holds ?P (case winner of
         None \<Rightarrow> sendAll a '':End''
       | Some w \<Rightarrow> seqs
          [(if m_host m \<noteq> None \<and> w = Host then seqs [sendHost a '':Win'', sendGuest a '':Lose'']
            else if m_guest m \<noteq> None \<and> w = Guest then seqs [sendHost a '':Lose'', sendGuest a '':Win'']
            else sendAll a '':End''),
           sendSpectators a ('':Win '' @ colorName
             (if w = Host then m_hostColor m else otherColor (m_hostColor m)))]) (\<lambda>_. ?P) E"
  proof (cases winner)
    case (Some w)
    have pair: "holds ?P (seqs [sendHost a x, sendGuest a y]) (\<lambda>_. ?P) E" for x y
      by (rule holds_seqs_Cons [OF holds_sends(1) holds_seqs_Cons [OF holds_sends(2) holds_seqs_Nil]]) simp_all
    have "holds ?P (if m_host m \<noteq> None \<and> w = Host then seqs [sendHost a '':Win'', sendGuest a '':Lose'']
            else if m_guest m \<noteq> None \<and> w = Guest then seqs [sendHost a '':Lose'', sendGuest a '':Win'']
            else sendAll a '':End'') (\<lambda>_. ?P) E"
      by (intro holds_if pair holds_sends(5)) simp
    then show ?thesis
      using holds_seqs_Cons [OF _ holds_seqs_Cons [OF holds_sends(4) holds_seqs_Nil]] Some by simp
  qed (simp add: holds_sends(5))
  have last: "holds ?R (seqs [if \<not> m_hidden m then broadcast ('':RemoveMatch '' @ m_id m) else c_ret ()])
      (\<lambda>_. ?R) E"
    by (rule holds_seqs_Cons [OF holds_if [OF holds_broadcast holds_ret] holds_seqs_Nil]) simp_all
  have mid: "holds ?P (seqs [c_modify (upd_match a (\<lambda>m. m\<lparr>m_over := True\<rparr>)),
      c_modify (\<lambda>st. st\<lparr>ch_byID := omap_del (m_id m) (ch_byID st)\<rparr>),
      c_modify (forget_player (m_guest m)),
      c_modify (forget_player (m_host m)),
      c_modify (\<lambda>st. st\<lparr>ch_byClient := fold omap_del (m_spectators m) (ch_byClient st)\<rparr>)])
    (\<lambda>_. ?R) E"
    unfolding tables
  proof (rule holds_modify)
    fix st assume st: "?P st"
    have "get_match a (end_tables a m st) = m\<lparr>m_over := True\<rparr>"
      using end_tables_fields(1) [OF inv_atD(1) [OF st], of m a] inv_atD [OF st] by (simp add: get_match_def)
    with end_tables_inv [OF st] show "?R (end_tables a m st)" by blast
  qed
  show "holds (inv_at D {a} a (\<lambda>m''. m'' = m')) (seqs
     [(case winner of
         None \<Rightarrow> sendAll a '':End''
       | Some w \<Rightarrow> seqs
          [(if m_host m' \<noteq> None \<and> w = Host then seqs [sendHost a '':Win'', sendGuest a '':Lose'']
            else if m_guest m' \<noteq> None \<and> w = Guest then seqs [sendHost a '':Lose'', sendGuest a '':Win'']
            else sendAll a '':End''),
           sendSpectators a ('':Win '' @ colorName
             (if w = Host then m_hostColor m' else otherColor (m_hostColor m')))]),
      c_modify (upd_match a (\<lambda>m. m\<lparr>m_over := True\<rparr>)),
      c_modify (\<lambda>st. st\<lparr>ch_byID := omap_del (m_id m') (ch_byID st)\<rparr>),
      c_modify (forget_player (m_guest m')),
      c_modify (forget_player (m_host m')),
      c_modify (\<lambda>st. st\<lparr>ch_byClient := fold omap_del (m_spectators m') (ch_byClient st)\<rparr>),
      (if \<not> m_hidden m' then broadcast ('':RemoveMatch '' @ m_id m') else c_ret ())])
     (\<lambda>_. ?R) E"
    unfolding m' by (rule holds_seqs_Cons [OF msg]) (use holds_seqs_append [OF mid last] in simp)
qed

lemma holds_match_end:
  "holds (inv_at D {a} a \<phi>) (match_end a winner) (\<lambda>_. chess_inv D {}) E"
  unfolding holds_def
proof (intro allI impI)
  fix st st' r assume "inv_at D {a} a \<phi> st" and run: "match_end a winner st = Some (st', r)"
  then have "inv_at D {a} a (\<lambda>m'. m' = get_match a st) st" by (simp add: inv_at_def)
  from holdsD [OF holds_match_end_of [where E = E] this run]
  show "case r of Inl e \<Rightarrow> E e st' | Inr x \<Rightarrow> chess_inv D {} st'" by (auto split: sum.splits)
qed

end
