(* ===== verification/Chess_Moves.thy ===== *)
theory Chess_Moves
  imports Chess_Invariant
begin

text \<open>
  Moves keep the invariant.  The computer players are used through an interface: whatever they
  choose is a move \<open>makeMove\<close> accepts, so a computer's reply never throws.
\<close>

section \<open>The board after a move\<close>

lemma promote_row_ok:
  "board_ok b \<Longrightarrow> \<forall>k \<in> set ks. square_bool (sq r k) \<Longrightarrow> board_ok (fst (promote_row c r ks b))"
proof (induction ks arbitrary: b)
  case (Cons k ks)
  show ?case
  proof (cases "at_rc b r k")
    case (Some p)
    then have p: "pc_square p = sq r k" using board_ok_square [OF Cons.prems(1)] by (simp add: at_rc_square)
    have "board_ok (set_piece Queen c r k (board_erase b (Some p)))"
      using Cons.prems p by (auto simp: set_piece_def board_erase_def intro!: board_ok_put)
    with Cons have "board_ok (fst (promote_row c r ks (set_piece Queen c r k (board_erase b (Some p)))))"
      "board_ok (fst (promote_row c r ks b))" by auto
    with Some show ?thesis by (simp add: case_prod_beta Let_def)
  qed (use Cons in simp)
qed simp

lemma checkPawns_ok: "board_ok b \<Longrightarrow> board_ok (fst (checkPawns b))"
proof -
  assume b: "board_ok b"
  have row: "\<forall>k \<in> set [0..board_width - 1]. square_bool (sq 0 k) \<and> square_bool (sq (board_height - 1) k)"
    by (auto simp: square_bool_def board_width_def board_height_def)
  have "board_ok (fst (promote_row White 0 [0..board_width - 1] b))"
    using row b by (intro promote_row_ok) auto
  then have "board_ok (fst (promote_row Black (board_height - 1) [0..board_width - 1]
      (fst (promote_row White 0 [0..board_width - 1] b))))"
    by (rule promote_row_ok) (use row in auto)
  then show ?thesis by (simp add: checkPawns_def case_prod_beta Let_def)
qed

lemma board_move_ok:
  assumes "board_ok b" "at_square b s = Some p" "square_bool t" "s \<noteq> t"
  shows "board_ok (fst (board_move b p t))"
proof -
  have p: "pc_square p = s" using board_ok_square assms(1,2) by blast
  have "board_ok (put_at t (Some (p\<lparr>pc_square := t\<rparr>)) b)" using assms by (intro board_ok_put) auto
  then show ?thesis using at_SomeD [OF assms(2)] p
    by (auto simp: board_move_def Let_def intro!: board_ok_put)
qed

lemma board_move_at:
  assumes "board_ok b" "at_square b s = Some p" "square_bool t" "s \<noteq> t"
  shows "at_square (fst (board_move b p t)) x =
    (if x = s then None else if x = t then Some (p\<lparr>pc_square := t\<rparr>) else at_square b x)"
  using assms board_ok_square [OF assms(1,2)] at_SomeD [OF assms(2)]
  by (auto simp: board_move_def Let_def at_put)

lemma board_erase_ok: "board_ok b \<Longrightarrow> at_square b s = Some p \<Longrightarrow> board_ok (board_erase b (Some p))"
  using board_ok_square at_SomeD by (auto simp: board_erase_def intro!: board_ok_put)

lemma board_erase_at:
  "board_ok b \<Longrightarrow> at_square b s = Some p \<Longrightarrow> at_square (board_erase b (Some p)) x = (if x = s then None else at_square b x)"
  using board_ok_square at_SomeD by (auto simp: board_erase_def at_put)

section \<open>What an accepted move looks like\<close>

lemma pattern_irrefl: "\<not> pattern b t c s s"
  by (cases t) (auto simp: d_row_def d_col_def dist_def forward_def)

lemma move_acceptedD:
  assumes "match_ok m" "move_refused m seat mv = None"
  obtains p where "at_square (m_board m) (mv_from mv) = Some p" "pc_color p = m_currentTurn m"
    "may_move (m_board m) p (mv_to mv)" "mv_from mv \<noteq> mv_to mv" "square_bool (mv_to mv)"
    "sq_col (mv_from mv) \<in> set (m_columns m)" "m_started m" "isReady (m_kind m) m"
    "seat = seat_of m (m_currentTurn m)" "seat_player m seat \<noteq> None" "m_winnerColor m = None"
proof -
  have b: "board_ok (m_board m)" using assms(1) by (simp add: match_ok_def)
  obtain p where p: "at_square (m_board m) (mv_from mv) = Some p" "pc_color p = m_currentTurn m"
    "mv_from mv \<noteq> mv_to mv" "sq_col (mv_from mv) \<in> set (m_columns m)" "isReady (m_kind m) m"
    "list_ex (\<lambda>s. square_eq s (mv_to mv)) (canMoveTo (m_board m) p)" "m_winnerColor m = None"
    "seat = seat_of m (m_currentTurn m)" "seat_player m seat \<noteq> None"
    using assms(2)
    by (auto simp: move_refused_def currentPlayer_def square_eq_iff split: if_splits option.splits sum.splits)
  have sqp: "pc_square p = mv_from mv" using board_ok_square [OF b p(1)] .
  have "mv_to mv \<in> set (canMoveTo (m_board m) p)" using p(6) by (auto simp: list_ex_iff square_eq_iff)
  then have may: "may_move (m_board m) p (mv_to mv)"
    using canMoveTo_may_move [of p "m_board m"] at_SomeD [OF p(1)] sqp by auto
  have "m_started m" using assms(1) p(4) by (auto simp: match_ok_def)
  with p may show thesis by (intro that [of p]) (auto simp: may_move_def)
qed

lemma isReady_seat:
  assumes "match_ok m" "isReady (m_kind m) m"
  shows "seat_player m (seat_of m (m_currentTurn m)) \<noteq> None"
  using assms by (cases "m_kind m")
    (auto simp: seat_of_def match_ok_def seats_ok_def split: option.splits)

lemma move_refused_chess:
  assumes "match_ok m" "move_refused m seat mv = Some e"
  shows "\<exists>what. e = ChessError what"
proof (cases "isReady (m_kind m) m")
  case True
  from isReady_seat [OF assms(1) this] assms(2) show ?thesis
    by (auto simp: move_refused_def currentPlayer_def split: if_splits option.splits sum.splits)
qed (use assms in \<open>auto simp: move_refused_def\<close>)

section \<open>Steps of a move\<close>

lemma match_ok_board: "match_ok m \<Longrightarrow> m_started m \<Longrightarrow> board_ok b \<Longrightarrow> match_ok (m\<lparr>m_board := b\<rparr>)"
  by (simp add: match_ok_def columns_ok_def seats_ok_def split: option.splits)

lemma match_ok_captured: "match_ok (m\<lparr>m_captured := ps\<rparr>) = match_ok m"
  by (simp add: match_ok_def columns_ok_def seats_ok_def)

definition movable :: "move \<Rightarrow> match \<Rightarrow> bool" where
  "movable mv m \<longleftrightarrow> m_started m \<and> isReady (m_kind m) m \<and> mv_from mv \<noteq> mv_to mv \<and> square_bool (mv_to mv)
     \<and> at_square (m_board m) (mv_from mv) \<noteq> None"

definition playing :: "match \<Rightarrow> bool" where
  "playing m \<longleftrightarrow> m_started m \<and> isReady (m_kind m) m"

lemma isReady_update [simp]:
  "isReady k (m\<lparr>m_board := b\<rparr>) = isReady k m" "isReady k (m\<lparr>m_captured := ps\<rparr>) = isReady k m"
  "isReady k (m\<lparr>m_columns := cs\<rparr>) = isReady k m" "isReady k (m\<lparr>m_currentTurn := c\<rparr>) = isReady k m"
  "isReady k (m\<lparr>m_winnerColor := w\<rparr>) = isReady k m" "isReady k (m\<lparr>m_started := s\<rparr>) = isReady k m"
  by (cases k; simp)+

lemma lasting_playing [simp]: "lasting playing"
  by (simp add: lasting_def playing_def)

lemma holds_capture:
  assumes "at_square (m_board m) (mv_to mv) = Some to_piece"
  shows "holds (inv_at D A a (\<lambda>m'. m' = m \<and> movable mv m)) (capture_piece a to_piece)
    (\<lambda>_. inv_at D A a (movable mv)) E"
  unfolding capture_piece_def
proof (rule holds_seqs_Cons [OF holds_sends(5) holds_seqs_Cons [OF holds_upd holds_seqs_Nil]], simp)
  fix m' assume ok: "match_ok m'" and m': "m' = m \<and> movable mv m"
  have b: "board_ok (m_board m)" using ok m' by (simp add: match_ok_def)
  let ?m = "m'\<lparr>m_captured := m_captured m' @ [to_piece], m_board := board_erase (m_board m') (Some to_piece)\<rparr>"
  have "match_ok ?m"
    using match_ok_board [OF _ _ board_erase_ok [OF b assms], of "m\<lparr>m_captured := m_captured m' @ [to_piece]\<rparr>"] ok m'
    by (simp add: match_ok_captured movable_def)
  then show "links ?m = links m' \<and> match_ok ?m \<and> movable mv ?m
      \<and> (a \<in> A \<or> m_winnerColor ?m = m_winnerColor m')"
    using m' board_erase_at [OF b assms] by (auto simp: links_def movable_def)
qed

lemma holds_move_piece:
  "holds (inv_at D A a (movable mv)) (move_piece a mv) (\<lambda>_. inv_at D A a playing) E"
  unfolding move_piece_def
proof (rule holds_match_at)
  fix m assume m: "match_ok m" "movable mv m"
  let ?b = "fst (board_move_opt (m_board m) (at_square (m_board m) (mv_from mv)) (mv_to mv))"
  obtain p where p: "at_square (m_board m) (mv_from mv) = Some p" using m(2) by (auto simp: movable_def)
  have "board_ok ?b"
    using board_move_ok [OF _ p, of "mv_to mv"] m p by (simp add: board_move_opt_def match_ok_def movable_def)
  then have ok: "board_ok (fst (checkPawns ?b))" by (rule checkPawns_ok)
  have "match_ok (m\<lparr>m_board := fst (checkPawns ?b)\<rparr>)"
    using m ok by (intro match_ok_board) (auto simp: movable_def)
  moreover have "playing (m\<lparr>m_board := fst (checkPawns ?b)\<rparr>)" using m by (simp add: playing_def movable_def)
  ultimately have "holds (inv_at D A a (\<lambda>m'. m' = m))
      (c_modify (upd_match a (\<lambda>m. m\<lparr>m_board := fst (checkPawns ?b)\<rparr>))) (\<lambda>_. inv_at D A a playing) E"
    by (intro holds_upd) (auto simp: links_def)
  then show "holds (inv_at D A a (\<lambda>m'. m' = m))
     (let b = ?b; (b', promoted) = checkPawns b
      in c_bind (c_modify (upd_match a (\<lambda>m. m\<lparr>m_board := b'\<rparr>))) (\<lambda>_. c_ret promoted))
     (\<lambda>_. inv_at D A a playing) E"
    by (auto simp: Let_def split: prod.splits intro!: holds_bind holds_ret)
qed

lemma holds_finish_game: "holds (inv_at D {} a playing) (finish_game a) (\<lambda>_. chess_inv D {}) E"
  unfolding finish_game_def
proof (rule holds_match_at)
  fix m assume m: "match_ok m" "playing m"
  have seat: "seat_player m (seat_of m (m_currentTurn m)) \<noteq> None"
    using isReady_seat m by (simp add: playing_def)
  have "holds (inv_at D {a} a (\<lambda>m'. m' = m)) (c_modify (upd_match a (\<lambda>m. m\<lparr>m_winnerColor := Some (m_currentTurn m)\<rparr>)))
      (\<lambda>_. inv_at D {a} a (\<lambda>_. True)) E"
    by (rule holds_upd) (auto simp: links_def match_ok_def columns_ok_def seats_ok_def)
  then have "holds (inv_at D {} a (\<lambda>m'. m' = m)) (c_modify (upd_match a (\<lambda>m. m\<lparr>m_winnerColor := Some (m_currentTurn m)\<rparr>)))
      (\<lambda>_. inv_at D {a} a (\<lambda>_. True)) E"
    by (rule holds_pre) (auto simp: inv_at_def intro: inv_mono)
  with seat show "holds (inv_at D {} a (\<lambda>m'. m' = m)) (seqs
     [c_modify (upd_match a (\<lambda>m. m\<lparr>m_winnerColor := Some (m_currentTurn m)\<rparr>)),
      (if seat_player m (seat_of m (m_currentTurn m)) = None
       then c_throw (UndefinedBehaviour ''empty optional'')
       else match_end a (Some (seat_of m (m_currentTurn m))))]) (\<lambda>_. chess_inv D {}) E"
    by (auto intro!: holds_bind holds_match_end holds_ret)
qed

lemma holds_moved:
  "holds (inv_at D A a (movable mv)) (c_bind (move_piece a mv) (\<lambda>promoted. seqs
      ([sendBoard a, sendAll a (move_made mv)] @ map (\<lambda>s. sendAll a ('':Promote '' @ square_string s)) promoted)))
    (\<lambda>_. inv_at D A a playing) E"
  by (rule holds_bind [OF holds_move_piece], rule holds_seqs_append,
      rule holds_seqs_Cons [OF holds_sendBoard holds_seqs_Cons [OF holds_sends(5) holds_seqs_Nil]],
      simp, simp, assumption, rule holds_seqs_map, rule holds_sends(5), simp)

text \<open>An accepted move, with whatever happens after it.\<close>

lemma holds_move_body:
  assumes "holds (inv_at {} {} a playing) later (\<lambda>_. chess_inv {} {}) E"
  shows "holds (inv_at {} {} a (\<lambda>m. move_refused m seat mv = None)) (move_body a seat mv later)
    (\<lambda>_. chess_inv {} {}) E"
  unfolding move_body_def
proof (rule holds_match_at)
  fix m assume m: "match_ok m" "move_refused m seat mv = None"
  have mov: "movable mv m" by (rule move_acceptedD [OF m]) (auto simp: movable_def)
  let ?moved = "c_bind (move_piece a mv) (\<lambda>promoted. seqs
      ([sendBoard a, sendAll a (move_made mv)] @ map (\<lambda>s. sendAll a ('':Promote '' @ square_string s)) promoted))"
  have plain: "holds (inv_at {} {} a (movable mv)) (seqs [?moved, later]) (\<lambda>_. chess_inv {} {}) E"
    by (rule holds_seqs_Cons [OF holds_moved holds_seqs_Cons [OF assms holds_seqs_Nil]])
  have king: "holds (inv_at {} {} a (movable mv)) (seqs [c_bind (move_piece a mv) (\<lambda>_. c_ret ()),
      sendBoard a, sendAll a (move_made mv), finish_game a]) (\<lambda>_. chess_inv {} {}) E"
    by (rule holds_seqs_Cons [OF holds_bind [OF holds_move_piece holds_ret]], assumption,
      rule holds_seqs_Cons [OF holds_sendBoard], simp, rule holds_seqs_Cons [OF holds_sends(5)], simp,
      rule holds_seqs_Cons [OF holds_finish_game holds_seqs_Nil])
  have cap: "holds (inv_at {} {} a (\<lambda>m'. m' = m)) (capture_piece a q) (\<lambda>_. inv_at {} {} a (movable mv)) E"
    if "at_square (m_board m) (mv_to mv) = Some q" for q
    by (rule holds_at_weaken [OF holds_capture [OF that]]) (use mov in auto)
  show "holds (inv_at {} {} a (\<lambda>m'. m' = m)) (case move_refused m seat mv of
       Some e \<Rightarrow> c_throw e
     | None \<Rightarrow>
         (case at_square (m_board m) (mv_to mv) of
            Some to_piece \<Rightarrow>
              if cls_getType (class_of (pc_type to_piece)) = King
              then seqs [capture_piece a to_piece, c_bind (move_piece a mv) (\<lambda>_. c_ret ()),
                sendBoard a, sendAll a (move_made mv), finish_game a]
              else seqs [capture_piece a to_piece, ?moved, later]
          | None \<Rightarrow> seqs [?moved, later])) (\<lambda>_. chess_inv {} {}) E"
  proof (cases "at_square (m_board m) (mv_to mv)")
    case None
    with m(2) show ?thesis using holds_at_weaken [OF plain, of "\<lambda>m'. m' = m"] mov by auto
  next
    case (Some q)
    then show ?thesis
      using m(2) holds_seqs_Cons [OF cap [OF Some] king] holds_seqs_Cons [OF cap [OF Some] plain] by simp
  qed
qed

end
