(* ===== verification/Chess_Players.thy ===== *)
theory Chess_Players
  imports Chess_Moves
begin

text \<open>
  The computer players: each chooses a move the match accepts and leaves the match as it was,
  and hence \<open>makeMove\<close> keeps the invariant for every kind of match.
\<close>

section \<open>What a choice must be\<close>

definition legal_choice :: "match \<Rightarrow> move \<Rightarrow> bool" where
  "legal_choice m mv \<longleftrightarrow> (case at_square (m_board m) (mv_from mv) of
       None \<Rightarrow> False
     | Some p \<Rightarrow> pc_color p = m_currentTurn m \<and> sq_col (mv_from mv) \<in> set (m_columns m)
         \<and> mv_to mv \<in> set (canMoveTo (m_board m) p))"

lemma inv_at_open:
  assumes "inv_at D A a \<phi> st" "a \<notin> A"
  shows "m_winnerColor (get_match a st) = None"
  using assms by (auto simp: inv_at_def chess_inv_def get_match_def)

lemma legal_choice_accepted:
  assumes "match_ok m" "legal_choice m mv" "m_kind m = AIMatch" "isReady AIMatch m"
    "m_currentTurn m \<noteq> m_hostColor m" "m_winnerColor m = None"
  shows "move_refused m Guest mv = None"
proof -
  obtain p where p: "at_square (m_board m) (mv_from mv) = Some p" "pc_color p = m_currentTurn m"
    "sq_col (mv_from mv) \<in> set (m_columns m)" "mv_to mv \<in> set (canMoveTo (m_board m) p)"
    using assms(2) by (auto simp: legal_choice_def split: option.splits)
  have b: "board_ok (m_board m)" using assms(1) by (simp add: match_ok_def)
  have sqp: "pc_square p = mv_from mv" "square_bool (pc_square p)"
    using board_ok_square [OF b p(1)] at_SomeD [OF p(1)] by auto
  then have may: "may_move (m_board m) p (mv_to mv)" using canMoveTo_may_move p(4) by blast
  then have ne: "mv_from mv \<noteq> mv_to mv" using pattern_irrefl sqp(1) by (metis may_move_def)
  obtain g where g: "m_guest m = Some g" "is_ai (pl_kind g)"
    using assms(1,3) by (auto simp: match_ok_def seats_ok_def split: option.splits)
  have own: "\<not> own_piece (m_board m) (m_currentTurn m) (mv_to mv)" using may p(2) by (simp add: may_move_def)
  show ?thesis
    unfolding move_refused_def
    using assms(3-6) p g ne own
    by (auto simp: currentPlayer_def seat_of_def square_eq_iff list_ex_iff own_piece_def is_ai_def
        split: option.splits player_kind.splits)
qed

text \<open>
  The interface \<open>AIMatch::afterMove\<close> relies on: in a position where the player to move can move,
  the choice returns, without an exception and without a change of the match, a legal move.
\<close>

locale move_chooser =
  fixes pick :: "nat \<Rightarrow> move chess_op"
  assumes chosen: "match_ok m \<Longrightarrow> canMove m \<Longrightarrow>
    holds (inv_at {} {} a (\<lambda>m'. m' = m)) (pick a)
      (\<lambda>mv. inv_at {} {} a (\<lambda>m'. m' = m \<and> legal_choice m mv)) E"
begin

lemma choice_accepted:
  assumes "match_ok m" "canMove m" "m_kind m = AIMatch" "isReady AIMatch m"
    "m_currentTurn m \<noteq> m_hostColor m"
  shows "holds (inv_at {} {} a (\<lambda>m'. m' = m)) (pick a)
    (\<lambda>mv. inv_at {} {} a (\<lambda>m. move_refused m Guest mv = None)) E"
proof (rule holds_post [OF chosen [OF assms(1,2)]])
  fix mv st assume st: "inv_at {} {} a (\<lambda>m'. m' = m \<and> legal_choice m mv) st"
  with legal_choice_accepted [OF assms(1) _ assms(3,4,5), of mv] inv_at_open [OF st]
  show "inv_at {} {} a (\<lambda>m. move_refused m Guest mv = None) st" by (auto simp: inv_at_def)
qed

end

section \<open>Lists of moves\<close>

lemma cell_moves_legal:
  assumes "board_ok (m_board m)" "at_rc (m_board m) r c = Some p" "pc_color p = m_currentTurn m"
    "mv \<in> set (cell_moves (m_board m) p)"
  shows "mv_from mv = sq r c" "mv_to mv \<in> set (canMoveTo (m_board m) p)"
    "at_square (m_board m) (mv_from mv) = Some p"
  using assms board_ok_square by (auto simp: cell_moves_def at_rc_square)

lemma at_rc_rows: "at_rc b r c = Some p \<Longrightarrow> r \<in> set [0..board_height - 1]"
  using at_SomeD [of b "sq r c" p] by (auto simp: at_rc_square square_bool_def board_height_def)

lemma getPossibleMoves_mem:
  "mv \<in> set (getPossibleMoves m cs) \<longleftrightarrow> (\<exists>c \<in> set cs. \<exists>r p. at_rc (m_board m) r c = Some p
     \<and> pc_color p = m_currentTurn m \<and> mv \<in> set (cell_moves (m_board m) p))"
proof -
  have cell: "mv \<in> set (case at_rc (m_board m) r c of
       Some p \<Rightarrow> (if pc_color p = m_currentTurn m then cell_moves (m_board m) p else [])
     | None \<Rightarrow> []) \<longleftrightarrow> (\<exists>p. at_rc (m_board m) r c = Some p \<and> pc_color p = m_currentTurn m
       \<and> mv \<in> set (cell_moves (m_board m) p))" for r c
    by (cases "at_rc (m_board m) r c") auto
  show ?thesis
    unfolding getPossibleMoves_def set_concat set_map UN_iff image_iff
    using at_rc_rows cell by (auto simp del: set_upto) blast+
qed

lemma getPossibleMoves_legal:
  assumes "match_ok m" "mv \<in> set (getPossibleMoves m (m_columns m))"
  shows "legal_choice m mv"
proof -
  obtain r c p where rc: "c \<in> set (m_columns m)" "at_rc (m_board m) r c = Some p" "pc_color p = m_currentTurn m"
    "mv \<in> set (cell_moves (m_board m) p)"
    using assms(2) by (auto simp: getPossibleMoves_mem)
  note cell_moves_legal [OF _ rc(2-4)]
  with assms(1) rc show ?thesis by (auto simp: legal_choice_def match_ok_def)
qed

lemma case_option_ex: "(case v of None \<Rightarrow> False | Some p \<Rightarrow> P p) \<longleftrightarrow> (\<exists>p. v = Some p \<and> P p)"
  by (cases v) auto

lemma canMove_iff:
  "canMove m \<longleftrightarrow> (\<exists>c \<in> set (m_columns m). \<exists>r p. at_rc (m_board m) r c = Some p
     \<and> pc_color p = m_currentTurn m \<and> canMoveTo (m_board m) p \<noteq> [])"
  unfolding canMove_def list_ex_iff
proof (intro bex_cong refl)
  fix c
  show "(\<exists>r \<in> set [0..board_height - 1]. case at_rc (m_board m) r c of None \<Rightarrow> False
       | Some p \<Rightarrow> pc_color p = m_currentTurn m \<and> canMoveTo (m_board m) p \<noteq> [])
    \<longleftrightarrow> (\<exists>r p. at_rc (m_board m) r c = Some p \<and> pc_color p = m_currentTurn m \<and> canMoveTo (m_board m) p \<noteq> [])"
    unfolding case_option_ex using at_rc_rows by blast
qed

lemma getPossibleMoves_ne:
  assumes "canMove m"
  shows "getPossibleMoves m (m_columns m) \<noteq> []"
proof -
  obtain c r p where p: "c \<in> set (m_columns m)" "at_rc (m_board m) r c = Some p" "pc_color p = m_currentTurn m"
    "canMoveTo (m_board m) p \<noteq> []" using assms by (auto simp: canMove_iff)
  then obtain t where "t \<in> set (canMoveTo (m_board m) p)" by fastforce
  then have "\<lparr>mv_from = pc_square p, mv_to = t\<rparr> \<in> set (getPossibleMoves m (m_columns m))"
    using p by (auto simp: getPossibleMoves_mem cell_moves_def)
  then show ?thesis by auto
qed

lemma moves_search_mem:
  "mv \<in> set (moves_search b wanted xs) \<longleftrightarrow>
     (\<exists>(r, k) \<in> set xs. \<exists>p. at_rc b r k = Some p \<and> wanted p \<and> mv \<in> set (cell_moves b p))"
  by (induction xs) (auto split: option.splits)

definition labeled_candidates :: "match \<Rightarrow> move list" where
  "labeled_candidates m = filter (\<lambda>mv. sq_col (mv_from mv) \<in> set (m_columns m))
     (allMoves_color (m_board m) (m_currentTurn m))"

lemma labeled_candidates_legal:
  assumes "match_ok m" "mv \<in> set (labeled_candidates m)"
  shows "legal_choice m mv"
proof -
  obtain r c p where rc: "at_rc (m_board m) r c = Some p" "pc_color p = m_currentTurn m"
    "mv \<in> set (cell_moves (m_board m) p)" "sq_col (mv_from mv) \<in> set (m_columns m)"
    using assms(2) by (auto simp: labeled_candidates_def allMoves_color_def moves_search_mem)
  note cell_moves_legal [OF _ rc(1-3)]
  with assms(1) rc show ?thesis by (auto simp: legal_choice_def match_ok_def)
qed

lemma labeled_candidates_ne:
  assumes "match_ok m" "canMove m"
  shows "labeled_candidates m \<noteq> []"
proof -
  obtain c r p where p: "c \<in> set (m_columns m)" "at_rc (m_board m) r c = Some p" "pc_color p = m_currentTurn m"
    "canMoveTo (m_board m) p \<noteq> []" using assms(2) by (auto simp: canMove_iff)
  then obtain t where t: "t \<in> set (canMoveTo (m_board m) p)" by fastforce
  have "(r, c) \<in> set scan" using at_SomeD [of "m_board m" "sq r c" p] p(2) by (simp add: at_rc_square set_scan)
  moreover have "pc_square p = sq r c"
    using board_ok_square assms(1) p(2) by (auto simp: at_rc_square match_ok_def)
  ultimately have "\<lparr>mv_from = sq r c, mv_to = t\<rparr> \<in> set (labeled_candidates m)"
    using p t by (force simp: labeled_candidates_def allMoves_color_def moves_search_mem cell_moves_def)
  then show ?thesis by auto
qed

section \<open>Trying moves on the board\<close>

lemma isInCheck_board: "board_ok b \<Longrightarrow> snd (isInCheck b c) = b"
  using findKing_Some isAttacked_correct(1) by (fastforce simp: isInCheck_def split: option.splits)

lemma checkmate_loop_ok:
  assumes "board_ok old" "at_square old s0 = Some king" "pc_square king = s0"
    "\<forall>s \<in> set squares. square_bool s \<and> s \<noteq> s0"
  shows "board_ok (snd (checkmate_loop c old s0 king squares old))"
  using assms
proof (induction squares)
  case (Cons s squares)
  obtain b1 k1 where mv: "board_move old king s = (b1, k1)" by force
  have b1: "board_ok b1" using board_move_ok [OF Cons.prems(1,2), of s] mv Cons.prems(4) by auto
  have k1: "k1 = king\<lparr>pc_square := s\<rparr>" using mv by (simp add: board_move_def Let_def)
  obtain att b2 where att: "isAttacked b1 c (pc_square k1) = (att, b2)" by force
  have b2: "b2 = b1" using isAttacked_correct(1) [OF b1, of s c] att k1 Cons.prems(4) by simp
  have king_back: "k1\<lparr>pc_square := s0\<rparr> = king" using k1 Cons.prems(3) by simp
  have restore: "board_assign b1 old = old"
    using b1 Cons.prems(1) by (intro board_assign_other) auto
  show ?case using Cons b1 by (simp add: mv att b2 king_back restore)
qed simp

lemma isCheckmated_ok: "board_ok b \<Longrightarrow> board_ok (snd (isCheckmated b c))"
proof (cases "findKing b c")
  case (Some king)
  assume b: "board_ok b"
  note king = findKing_Some [OF b Some]
  obtain att b1 where att: "isAttacked b c (pc_square king) = (att, b1)" by force
  have b1: "b1 = b" using isAttacked_correct(1) [OF b king(4), of c] att by simp
  have "square_bool s \<and> s \<noteq> pc_square king" if "s \<in> set (canMoveTo b king)" for s
  proof -
    have "may_move b king s" using that canMoveTo_may_move [OF king(4)] by auto
    then show ?thesis using pattern_irrefl by (auto simp: may_move_def)
  qed
  then have "board_ok (snd (checkmate_loop c b (pc_square king) king (canMoveTo b king) b))"
    by (intro checkmate_loop_ok b king(1)) auto
  with b show ?thesis by (simp add: isCheckmated_def Some att b1)
qed (simp add: isCheckmated_def)

lemma label_moves_ok:
  assumes "board_ok b" "\<forall>mv \<in> set mvs. \<exists>p. at_square b (mv_from mv) = Some p \<and> square_bool (mv_to mv) \<and> mv_from mv \<noteq> mv_to mv"
  shows "map lm_move (fst (label_moves b turn mvs b)) = mvs \<and> snd (label_moves b turn mvs b) = b"
  using assms(2)
proof (induction mvs)
  case (Cons mv mvs)
  then obtain p where p: "at_square b (mv_from mv) = Some p" "square_bool (mv_to mv)" "mv_from mv \<noteq> mv_to mv" by auto
  let ?b1 = "fst (board_move_opt b (at_square b (mv_from mv)) (mv_to mv))"
  have b1: "board_ok ?b1" using board_move_ok [OF assms(1) p] p(1) by (simp add: board_move_opt_def)
  then have "board_ok (snd (isCheckmated ?b1 (otherColor turn)))" by (rule isCheckmated_ok)
  then have "board_assign (snd (isInCheck (snd (isCheckmated ?b1 (otherColor turn))) turn)) b = b"
    using assms(1) by (simp add: isInCheck_board board_assign_other)
  with Cons isInCheck_board [OF b1] show ?case by (simp add: case_prod_beta Let_def)
qed simp

lemma best_move_mem: "best_move superior l ls \<in> set (l # ls)"
  by (induction ls arbitrary: l) auto

section \<open>The three players\<close>

lemma random_chosen:
  assumes "match_ok m" "canMove m"
  shows "holds (inv_at {} {} a (\<lambda>m'. m' = m)) (random_chooseMove a)
      (\<lambda>mv. inv_at {} {} a (\<lambda>m'. m' = m \<and> legal_choice m mv)) E"
  unfolding random_chooseMove_def
proof (rule holds_match_at)
  fix m' assume m': "m' = m"
  let ?ps = "getPossibleMoves m (m_columns m)"
  have ne: "?ps \<noteq> []" using getPossibleMoves_ne [OF assms(2)] .
  have legal: "legal_choice m (?ps ! (d mod length ?ps))" for d
    using ne by (intro getPossibleMoves_legal assms) auto
  have "holds (\<lambda>st. inv_at {} {} a (\<lambda>m'. m' = m) st \<and> st = st0) (case ch_dice st0 of
       [] \<Rightarrow> c_diverge
     | d # ds \<Rightarrow> c_bind (c_modify (\<lambda>st. st\<lparr>ch_dice := ds\<rparr>)) (\<lambda>_. c_ret (?ps ! (d mod length ?ps))))
     (\<lambda>mv. inv_at {} {} a (\<lambda>m'. m' = m \<and> legal_choice m mv)) E" for st0
    using legal by (cases "ch_dice st0")
      (auto simp: holds_def c_diverge_def c_bind_def c_modify_def c_ret_def inv_at_def)
  then show "holds (inv_at {} {} a (\<lambda>m''. m'' = m'))
     (let possibilities = getPossibleMoves m' (m_columns m') in
      if possibilities = [] then c_throw (RuntimeError ''RandomBot has no moves to select from.'')
      else c_with (\<lambda>st. case ch_dice st of
        [] \<Rightarrow> c_diverge
      | d # ds \<Rightarrow> c_bind (c_modify (\<lambda>st. st\<lparr>ch_dice := ds\<rparr>))
                    (\<lambda>_. c_ret (possibilities ! (d mod length possibilities)))))
     (\<lambda>mv. inv_at {} {} a (\<lambda>m'. m' = m \<and> legal_choice m mv)) E"
    using ne m' by (auto simp: Let_def intro!: holds_with)
qed

lemma cccp_chosen:
  assumes "match_ok m" "canMove m"
  shows "holds (inv_at {} {} a (\<lambda>m'. m' = m)) (cccp_chooseMove superior a)
      (\<lambda>mv. inv_at {} {} a (\<lambda>m'. m' = m \<and> legal_choice m mv)) E"
  unfolding cccp_chooseMove_def
proof (rule holds_match_at)
  fix m' assume m': "m' = m"
  have legal: "legal_choice m mv" if "mv \<in> set (labeled_candidates m)" for mv
    using labeled_candidates_legal [OF assms(1) that] .
  have "\<forall>mv \<in> set (labeled_candidates m). \<exists>p. at_square (m_board m) (mv_from mv) = Some p
      \<and> square_bool (mv_to mv) \<and> mv_from mv \<noteq> mv_to mv"
  proof
    fix mv assume "mv \<in> set (labeled_candidates m)"
    then obtain p where p: "at_square (m_board m) (mv_from mv) = Some p" "mv_to mv \<in> set (canMoveTo (m_board m) p)"
      using legal by (fastforce simp: legal_choice_def split: option.splits)
    have "pc_square p = mv_from mv" using board_ok_square assms(1) p(1) by (auto simp: match_ok_def)
    then have "may_move (m_board m) p (mv_to mv)" "mv_from mv \<noteq> mv_to mv"
      using canMoveTo_may_move [of p] at_SomeD [OF p(1)] p(2) pattern_irrefl
      by (auto simp: may_move_def)
    with p show "\<exists>p. at_square (m_board m) (mv_from mv) = Some p \<and> square_bool (mv_to mv) \<and> mv_from mv \<noteq> mv_to mv"
      by (auto simp: may_move_def)
  qed
  then have labels: "map lm_move (fst (label_moves (m_board m) (m_currentTurn m) (labeled_candidates m) (m_board m))) = labeled_candidates m"
    "snd (label_moves (m_board m) (m_currentTurn m) (labeled_candidates m) (m_board m)) = m_board m"
    using label_moves_ok [of "m_board m" "labeled_candidates m" "m_currentTurn m"] assms(1) by (auto simp: match_ok_def)
  obtain l ls where l: "fst (label_moves (m_board m) (m_currentTurn m) (labeled_candidates m) (m_board m)) = l # ls"
    using labels(1) labeled_candidates_ne [OF assms] by (cases "fst (label_moves (m_board m) (m_currentTurn m) (labeled_candidates m) (m_board m))") auto
  have "lm_move (best_move (superior (m_currentTurn m)) l ls) \<in> set (labeled_candidates m)"
    using best_move_mem [of "superior (m_currentTurn m)" l ls] labels(1) l by (metis imageI list.set_map)
  then have ok: "legal_choice m (lm_move (best_move (superior (m_currentTurn m)) l ls))" by (rule legal)
  have "holds (inv_at {} {} a (\<lambda>m'. m' = m)) (c_modify (upd_match a (\<lambda>m'. m'\<lparr>m_board := m_board m\<rparr>)))
      (\<lambda>_. inv_at {} {} a (\<lambda>m'. m' = m)) E"
    using assms(1) by (intro holds_upd) (auto simp: links_def)
  with labels l ok m' show "holds (inv_at {} {} a (\<lambda>m''. m'' = m'))
     (let legal = filter (\<lambda>mv. sq_col (mv_from mv) \<in> set (m_columns m'))
                   (allMoves_color (m_board m') (m_currentTurn m'));
         (labeled, b) = label_moves (m_board m') (m_currentTurn m') legal (m_board m')
      in c_bind (c_modify (upd_match a (\<lambda>m. m\<lparr>m_board := b\<rparr>))) (\<lambda>_.
        case labeled of
          [] \<Rightarrow> c_throw (RuntimeError ''No labeled moves found.'')
        | l # ls \<Rightarrow> c_ret (lm_move (best_move (superior (m_currentTurn m')) l ls))))
     (\<lambda>mv. inv_at {} {} a (\<lambda>m'. m' = m \<and> legal_choice m mv)) E"
    by (auto simp: Let_def labeled_candidates_def [symmetric] case_prod_beta inv_at_def
      intro!: holds_bind holds_ret)
qed

interpretation random_player: move_chooser random_chooseMove
  by unfold_locales (rule random_chosen)

interpretation cccp_player: move_chooser "cccp_chooseMove cccp_checkSuperior"
  by unfold_locales (rule cccp_chosen)

interpretation cccp2_player: move_chooser "cccp_chooseMove cccp2_checkSuperior"
  by unfold_locales (rule cccp_chosen)

end
