(* ===== verification/Chess_Reachable.thy ===== *)
theory Chess_Reachable
  imports Chess_Players
begin

text \<open>
  The operations of the plugin keep the invariant, from the first connection on, whatever the
  clients send and whatever the dice show.
\<close>

section \<open>Making moves\<close>

lemma holds_guest_choice:
  assumes "match_ok m" "canMove m" "m_kind m = AIMatch" "isReady AIMatch m" "m_currentTurn m \<noteq> m_hostColor m"
  shows "holds (inv_at {} {} a (\<lambda>m'. m' = m)) (guest_chooseMove a)
    (\<lambda>mv. inv_at {} {} a (\<lambda>m. move_refused m Guest mv = None)) E"
  unfolding guest_chooseMove_def
proof (rule holds_match_at)
  fix m' assume m': "m' = m"
  obtain g where g: "m_guest m = Some g" "is_ai (pl_kind g)"
    using assms(1,3) by (auto simp: match_ok_def seats_ok_def split: option.splits)
  note choices = random_player.choice_accepted [OF assms] cccp_player.choice_accepted [OF assms]
    cccp2_player.choice_accepted [OF assms]
  show "holds (inv_at {} {} a (\<lambda>m''. m'' = m')) (case m_guest m' of
       None \<Rightarrow> c_throw (UndefinedBehaviour ''empty optional'')
     | Some p \<Rightarrow> (case pl_kind p of
         HumanPlayer c \<Rightarrow> c_throw (UndefinedBehaviour ''null pointer'')
       | RandomPlayer \<Rightarrow> random_chooseMove a
       | CCCPPlayer \<Rightarrow> cccp_chooseMove cccp_checkSuperior a
       | CCCP2Player \<Rightarrow> cccp_chooseMove cccp2_checkSuperior a))
     (\<lambda>mv. inv_at {} {} a (\<lambda>m. move_refused m Guest mv = None)) E"
    using g choices m' by (cases "pl_kind g") (simp_all add: is_ai_def)
qed

lemma holds_afterMove:
  assumes "\<And>mv. holds (inv_at {} {} a (\<lambda>m. move_refused m Guest mv = None)) (guest_move mv) (\<lambda>_. chess_inv {} {}) E"
  shows "holds (inv_at {} {} a playing) (afterMove guest_move a) (\<lambda>_. chess_inv {} {}) E"
  unfolding afterMove_def
proof (rule holds_match_at)
  fix m assume m: "playing m"
  let ?\<phi> = "\<lambda>m'. playing m' \<and> m_kind m' = m_kind m"
  have last: "lasting ?\<phi>" by (auto simp: lasting_def playing_def)
  have pre: "holds (inv_at {} {} a (\<lambda>m'. m' = m)) f Q E" if "holds (inv_at {} {} a ?\<phi>) f Q E" for f Q
    using m by (intro holds_at_weaken [OF that]) auto
  have drop: "holds P f (\<lambda>_. chess_inv {} {}) E" if "holds P f (\<lambda>_. inv_at {} {} a \<psi>) E" for P f \<psi>
    by (rule holds_post [OF that]) (auto simp: inv_at_def)
  have turn: "holds (inv_at {} {} a ?\<phi>) (next_turn a) (\<lambda>_. inv_at {} {} a (\<lambda>m'. ?\<phi> m' \<and> canMove m')) E"
    if "m_kind m \<noteq> NullMatch" using that by (intro holds_next_turn last) auto
  have null: "holds (inv_at {} {} a ?\<phi>) (seqs [send_turn a, c_with (\<lambda>st. roll_until (rolls_left st) a)])
      (\<lambda>_. inv_at {} {} a (\<lambda>m'. ?\<phi> m' \<and> canMove m')) E"
    by (rule holds_seqs_Cons [OF holds_send_turn], simp,
      rule holds_seqs_Cons [OF holds_with_const [OF holds_roll_until [OF lasting_rolling [OF last]]] holds_seqs_Nil])
  have reply: "holds (inv_at {} {} a (\<lambda>m'. ?\<phi> m' \<and> canMove m')) (c_match a (\<lambda>m.
         if m_currentTurn m \<noteq> m_hostColor m \<and> \<not> m_over m
         then c_bind (guest_chooseMove a) guest_move else c_ret ())) (\<lambda>_. chess_inv {} {}) E"
    if "m_kind m = AIMatch"
  proof (rule holds_match_at)
    fix m' assume m': "match_ok m'" "?\<phi> m' \<and> canMove m'"
    have "holds (inv_at {} {} a (\<lambda>m''. m'' = m')) (c_bind (guest_chooseMove a) guest_move) (\<lambda>_. chess_inv {} {}) E"
      if "m_currentTurn m' \<noteq> m_hostColor m'"
      using m' that \<open>m_kind m = AIMatch\<close>
      by (intro holds_bind [OF holds_guest_choice assms]) (auto simp: playing_def)
    then show "holds (inv_at {} {} a (\<lambda>m''. m'' = m')) (if m_currentTurn m' \<noteq> m_hostColor m' \<and> \<not> m_over m'
         then c_bind (guest_chooseMove a) guest_move else c_ret ()) (\<lambda>_. chess_inv {} {}) E"
      by (auto intro!: holds_ret simp: inv_at_def)
  qed
  show "holds (inv_at {} {} a (\<lambda>m'. m' = m)) (case m_kind m of
       HumanMatch \<Rightarrow> next_turn a
     | AIMatch \<Rightarrow> seqs [next_turn a, c_match a (\<lambda>m.
         if m_currentTurn m \<noteq> m_hostColor m \<and> \<not> m_over m
         then c_bind (guest_chooseMove a) guest_move else c_ret ())]
     | NullMatch \<Rightarrow> seqs [send_turn a, c_with (\<lambda>st. roll_until (rolls_left st) a)]) (\<lambda>_. chess_inv {} {}) E"
  proof (cases "m_kind m")
    case HumanMatch
    then show ?thesis using pre [OF drop [OF turn]] by simp
  next
    case AIMatch
    then show ?thesis using pre [OF holds_seqs_Cons [OF turn holds_seqs_Cons [OF reply holds_seqs_Nil]]] by simp
  next
    case NullMatch
    then show ?thesis using pre [OF drop [OF null]] by simp
  qed
qed

lemma holds_makeMove_accepted:
  "holds (inv_at {} {} a (\<lambda>m. move_refused m seat mv = None)) (makeMove n a seat mv) (\<lambda>_. chess_inv {} {}) E"
proof (induction n arbitrary: seat mv)
  case (Suc n)
  then show ?case by (simp add: holds_move_body holds_afterMove)
qed (simp add: holds_diverge)

lemma holds_makeMove:
  "holds (inv_at {} {} a (\<lambda>_. True)) (makeMove n a seat mv) (\<lambda>_. chess_inv {} {})
     (\<lambda>e st. chess_inv {} {} st \<and> (\<exists>what. e = ChessError what))"
  (is "holds ?P ?f ?Q ?E")
  unfolding holds_def
proof (intro allI impI)
  fix st st' r assume st: "?P st" and run: "makeMove n a seat mv st = Some (st', r)"
  show "case r of Inl e \<Rightarrow> ?E e st' | Inr x \<Rightarrow> ?Q x st'"
  proof (cases "move_refused (get_match a st) seat mv")
    case None
    then have "inv_at {} {} a (\<lambda>m. move_refused m seat mv = None) st" using st by (simp add: inv_at_def)
    from holdsD [OF holds_makeMove_accepted this run] show ?thesis .
  next
    case (Some e)
    from run obtain k where n: "n = Suc k" by (cases n) (auto simp: c_diverge_def)
    have "st' = st" "r = Inl e" using run Some by (simp_all add: n move_body_def c_match_def c_throw_def)
    with move_refused_chess [OF inv_atD(5) [OF st] Some] st show ?thesis by (simp add: inv_at_def)
  qed
qed

section \<open>Starting a match\<close>

lemma start_position_moves:
  assumes "m_board m = placePieces new_board"
  shows "anyCanMove m"
proof -
  have "list_ex (\<lambda>c. list_ex (\<lambda>r. case at_rc (placePieces new_board) r c of
       Some p \<Rightarrow> pc_color p = t \<and> canMoveTo (placePieces new_board) p \<noteq> []
     | None \<Rightarrow> False) [0..board_height - 1]) [0..board_width - 1]" for t
  proof (cases t)
    case Black
    then show ?thesis by (simp only:) code_simp
  next
    case White
    then show ?thesis by (simp only:) code_simp
  qed
  then show ?thesis unfolding anyCanMove_def assms .
qed

lemma start_board_ok: "board_ok (placePieces new_board)"
  by code_simp

lemma holds_start_rolling:
  "holds (inv_at D {} a (\<lambda>m. \<not> m_started m)) (start_rolling a) (\<lambda>_. inv_at D {} a m_started) E"
proof -
  have last: "lasting m_started" by (simp add: lasting_def)
  let ?\<phi> = "\<lambda>m. m_started m \<and> m_board m = placePieces new_board"
  have "holds (inv_at D {} a (\<lambda>m. \<not> m_started m)) (c_modify (upd_match a (\<lambda>m. m\<lparr>m_started := True\<rparr>)))
      (\<lambda>_. inv_at D {} a ?\<phi>) E"
    by (rule holds_upd) (auto simp: links_def match_ok_def columns_ok_def seats_ok_def)
  moreover have "holds (inv_at D {} a ?\<phi>) (c_match a (\<lambda>m.
        if \<not> anyCanMove m
        then case getPieces (m_board m) White of
               None \<Rightarrow> c_diverge
             | Some ps \<Rightarrow> match_end a (Some (if ps = [] then getBlack m else getWhite m))
        else c_ret ())) (\<lambda>_. inv_at D {} a m_started) E"
    by (rule holds_match_at) (auto simp: start_position_moves inv_at_def intro!: holds_ret)
  moreover have "holds (inv_at D {} a m_started) (c_with (\<lambda>st. roll_until (rolls_left st) a)) (\<lambda>_. inv_at D {} a m_started) E"
    by (rule holds_post [OF holds_with_const [OF holds_roll_until [OF lasting_rolling [OF last]]]]) (auto simp: inv_at_def)
  ultimately show ?thesis
    unfolding start_rolling_def by (blast intro: holds_seqs_Cons holds_seqs_Nil)
qed

section \<open>Creating a match\<close>

lemma map_of_emplace:
  "map_of (omap_emplace k v m) k' = (if k' = k \<and> map_of m k = None then Some v else map_of m k')"
  by (auto simp: omap_emplace_def map_of_omap_put)

lemma omap_ok_emplace: "omap_ok m \<Longrightarrow> omap_ok (omap_emplace k v m)"
  by (simp add: omap_emplace_def omap_ok_put)

definition with_match :: "string \<Rightarrow> int \<Rightarrow> match \<Rightarrow> chess \<Rightarrow> chess" where
  "with_match match_id client m st = st\<lparr>ch_heap := ch_heap st @ [m],
     ch_byID := omap_emplace match_id (length (ch_heap st)) (ch_byID st),
     ch_byClient := omap_emplace client (length (ch_heap st)) (ch_byClient st)\<rparr>"

lemma with_match_inv:
  assumes inv: "chess_inv {} {} st" and client: "client \<in> set (ch_live st)" "map_of (ch_byClient st) client = None"
    and fresh: "map_of (ch_byID st) match_id = None"
    and m: "match_ok m" "m_id m = match_id" "\<not> m_over m" "members m = {client}" "isActive (m_kind m) m"
      "m_winnerColor m = None"
  shows "inv_at {} {} (length (ch_heap st)) (\<lambda>m'. m' = m) (with_match match_id client m st)"
proof -
  let ?n = "length (ch_heap st)"
  note i = inv [unfolded chess_inv_def]
  have nth: "(ch_heap st @ [m]) ! b = (if b = ?n then m else ch_heap st ! b)" if "b < Suc ?n" for b
    using that by (auto simp: nth_append)
  have less: "b < Suc ?n \<longleftrightarrow> b = ?n \<or> b < ?n" for b by auto
  have alone: "client \<notin> members (ch_heap st ! b)" if "b < ?n" "\<not> m_over (ch_heap st ! b)" for b
    using i client(2) that by (metis empty_iff option.distinct(1))
  have "chess_inv {} {} (with_match match_id client m st)"
    unfolding chess_inv_def
  proof (intro conjI, goal_cases)
    case 5
    show ?case
      using i fresh m by (auto simp: with_match_def map_of_emplace nth_append less split: if_splits)
  next
    case 6
    have "m_id (ch_heap st ! b) \<noteq> match_id" if "b < ?n" "\<not> m_over (ch_heap st ! b)" for b
      using i fresh that by (metis option.distinct(1))
    then show ?case
      using i fresh m client(1) by (auto simp: with_match_def map_of_emplace nth_append less)
  next
    case 7
    show ?case
    proof (intro allI impI)
      fix c b
      have "map_of (ch_byClient st) c = Some b \<longleftrightarrow>
          b < ?n \<and> \<not> m_over (ch_heap st ! b) \<and> c \<in> members (ch_heap st ! b)" using i by blast
      then show "map_of (ch_byClient (with_match match_id client m st)) c = Some b \<longleftrightarrow>
          b < length (ch_heap (with_match match_id client m st))
          \<and> \<not> m_over (ch_heap (with_match match_id client m st) ! b)
          \<and> c \<in> members (ch_heap (with_match match_id client m st) ! b)"
        using alone [of b] m(3,4) client(2)
        by (auto simp: with_match_def map_of_emplace nth_append less)
    qed
  qed (use i in \<open>simp_all add: with_match_def omap_ok_emplace\<close>)
  then show ?thesis using m(3) by (simp add: inv_at_def get_match_def with_match_def)
qed

lemma match_of_type_ok:
  fixes client :: int
  assumes "match_of_type type match_id hidden noskip count color = Some m" "1 \<le> count" "count \<le> 8"
  defines "m' \<equiv> m\<lparr>m_host := Some \<lparr>pl_color = color, pl_role = Host, pl_kind = HumanPlayer client\<rparr>\<rparr>"
  shows "match_ok m'" "m_id m' = match_id" "\<not> m_over m'" "members m' = {client}"
    "isActive (m_kind m') m'" "m_winnerColor m' = None" "\<not> m_started m'" "m_kind m' = m_kind m"
  using assms start_board_ok
  by (auto simp: match_of_type_def new_match_def AIMatch_create_def NullMatch_new_def match_ok_def
      columns_ok_def seats_ok_def is_ai_def members_def is_client_def split: if_splits)

lemma holds_open_match:
  assumes free: "map_of (ch_byClient st0) client = None" "map_of (ch_byID st0) match_id = None"
    and ok: "match_ok m" "m_id m = match_id" "\<not> m_over m" "members m = {client}"
      "isActive (m_kind m) m" "m_winnerColor m = None" "\<not> m_started m"
    and a: "a = length (ch_heap st0)"
  shows "holds (\<lambda>st. (chess_inv {} {} st \<and> client \<in> set (ch_live st)) \<and> st = st0)
     (open_match client match_id color hidden m a) (\<lambda>_. chess_inv {} {}) E"
proof -
  let ?P = "\<lambda>st. (chess_inv {} {} st \<and> client \<in> set (ch_live st)) \<and> st = st0"
  let ?Q = "inv_at {} {} a (\<lambda>m'. m' = m)"
  have 1: "holds ?P (c_modify (\<lambda>st. st\<lparr>ch_heap := ch_heap st @ [m], ch_byID := omap_emplace match_id a (ch_byID st),
           ch_byClient := omap_emplace client a (ch_byClient st)\<rparr>)) (\<lambda>_. ?Q) E"
    using with_match_inv [OF _ _ free ok(1-6)] a
    by (intro holds_modify) (auto simp: with_match_def)
  have ann: "holds P (if \<not> hidden then announce a else c_ret ()) (\<lambda>_. P) E" if "out_free P" for P
    using that by (intro holds_if holds_announce holds_ret)
  have 2: "holds ?Q (seqs [client_send client '':Start'', send_turn a, sendBoard a, start_rolling a,
                 (if \<not> hidden then announce a else c_ret ())]) (\<lambda>_. chess_inv {} {}) E"
    by (rule holds_seqs_Cons [OF holds_client_send], simp, rule holds_seqs_Cons [OF holds_send_turn], simp,
      rule holds_seqs_Cons [OF holds_sendBoard], simp,
      rule holds_seqs_Cons [OF holds_at_weaken [OF holds_start_rolling]], use ok in simp,
      rule holds_seqs_Cons [OF ann], simp, rule holds_seqs_Nil, simp add: inv_at_def)
  have 3: "holds ?Q (sendBoard a) (\<lambda>_. chess_inv {} {}) E"
    by (rule holds_post [OF holds_sendBoard]) (auto simp: inv_at_def)
  show ?thesis
    unfolding open_match_def
    by (rule holds_seqs_Cons [OF 1], rule holds_seqs_Cons [OF holds_client_send], simp,
      rule holds_seqs_Cons [OF ann], simp, rule holds_seqs_Cons [OF holds_if [OF 2 3] holds_seqs_Nil])
qed

lemma holds_createMatch:
  "holds (\<lambda>st. chess_inv {} {} st \<and> client \<in> set (ch_live st))
     (createMatch client match_id count color hidden noskip type) (\<lambda>_. chess_inv {} {}) E"
  unfolding createMatch_def
proof (rule holds_with)
  fix st0
  let ?P = "\<lambda>st. (chess_inv {} {} st \<and> client \<in> set (ch_live st)) \<and> st = st0"
  have send: "holds ?P (client_send client msg) (\<lambda>_. chess_inv {} {}) E" for msg
    by (rule holds_pre [OF holds_client_send]) auto
  show "holds ?P (if \<not> list_all (\<lambda>ch. ch \<in> set VALID_MATCH_CHARS) match_id
     then client_send client '':Error Invalid match ID.''
     else if count < 1 \<or> 8 < count
     then client_send client '':Error Invalid column count.''
     else if map_of (ch_byClient st0) client \<noteq> None
     then client_send client '':Error Already in a match.''
     else if map_of (ch_byID st0) match_id \<noteq> None
     then client_send client '':Error A match with that ID already exists.''
     else case match_of_type type match_id hidden noskip count color of
       None \<Rightarrow> client_send client '':Error Invalid match type.''
     | Some m \<Rightarrow> open_match client match_id color hidden
         (m\<lparr>m_host := Some \<lparr>pl_color = color, pl_role = Host, pl_kind = HumanPlayer client\<rparr>\<rparr>)
         (length (ch_heap st0))) (\<lambda>_. chess_inv {} {}) E"
  proof (cases "match_of_type type match_id hidden noskip count color")
    case None
    show ?thesis unfolding None option.case by (intro holds_if send)
  next
    case (Some m)
    note ok = match_of_type_ok [OF Some, of client]
    show ?thesis
      unfolding Some option.case
      by (intro holds_if send holds_open_match ok) (auto simp: ok(8))
  qed
qed

section \<open>Joining a match\<close>

text \<open>A client that has its table entry and no seat yet.\<close>

definition joining :: "int \<Rightarrow> nat \<Rightarrow> match \<Rightarrow> chess \<Rightarrow> bool" where
  "joining c a m st \<longleftrightarrow> inv_at {c} {} a (\<lambda>m'. m' = m) st \<and> map_of (ch_byClient st) c = Some a \<and> c \<in> set (ch_live st)"

lemma sendable_joining [simp]: "sendable a (joining c a m)" "out_free (joining c a m)"
  using inv_atD(6) by (fastforce simp: sendable_def out_free_def joining_def)+

lemma emplace_joining:
  assumes st: "inv_at {} {} a (\<lambda>m'. m' = m) st" and c: "c \<in> set (ch_live st)" "map_of (ch_byClient st) c = None"
  shows "joining c a m (st\<lparr>ch_byClient := omap_emplace c a (ch_byClient st)\<rparr>)"
proof -
  note i = inv_atD(1) [OF st, unfolded chess_inv_def]
  have alone: "c \<notin> members (ch_heap st ! b)" if "b < length (ch_heap st)" "\<not> m_over (ch_heap st ! b)" for b
    using i c(2) that by (metis empty_iff option.distinct(1))
  have "chess_inv {c} {} (st\<lparr>ch_byClient := omap_emplace c a (ch_byClient st)\<rparr>)"
    unfolding chess_inv_def using i alone
    by (auto simp: omap_ok_emplace map_of_emplace c(2))
  then show ?thesis
    using st c by (auto simp: joining_def inv_at_def get_match_def map_of_emplace)
qed

definition has_room :: "bool \<Rightarrow> match \<Rightarrow> bool" where
  "has_room as_spectator m \<longleftrightarrow> as_spectator \<or> m_host m = None \<or> m_guest m = None"

lemma take_seat_ok:
  assumes "match_ok m" "has_room as_spectator m" "isActive (m_kind m) m"
  shows "match_ok (take_seat c as_spectator m)" "members (take_seat c as_spectator m) = insert c (members m)"
    "isActive (m_kind m) (take_seat c as_spectator m)"
    "m_id (take_seat c as_spectator m) = m_id m" "m_over (take_seat c as_spectator m) = m_over m"
    "m_kind (take_seat c as_spectator m) = m_kind m" "m_started (take_seat c as_spectator m) = m_started m"
    "m_winnerColor (take_seat c as_spectator m) = m_winnerColor m"
proof -
  show "isActive (m_kind m) (take_seat c as_spectator m)"
    using assms(3) by (cases "m_kind m") (auto simp: take_seat_def)
  show "members (take_seat c as_spectator m) = insert c (members m)"
    using assms(2) by (auto simp: take_seat_def has_room_def members_def is_client_def)
  show "match_ok (take_seat c as_spectator m)"
    using assms by (auto simp: take_seat_def has_room_def match_ok_def columns_ok_def seats_ok_def is_ai_def
        split: option.splits)
qed (simp_all add: take_seat_def)

lemma take_seat_inv:
  assumes st: "joining c a m st" and room: "has_room as_spectator m"
  shows "inv_at {} {} a (\<lambda>m'. m_started m' = m_started m) (upd_match a (take_seat c as_spectator) st)"
proof -
  have at: "inv_at {c} {} a (\<lambda>m'. m' = m) st" and c: "map_of (ch_byClient st) c = Some a" "c \<in> set (ch_live st)"
    using st by (auto simp: joining_def)
  note m = inv_atD [OF at]
  note i = m(1) [unfolded chess_inv_def]
  have ma: "ch_heap st ! a = m" using m(4) by (simp add: get_match_def)
  have act: "isActive (m_kind m) m" using i m(2,3) ma by (auto simp: get_match_def)
  have ok: "match_ok m" using m(4,5) by simp
  note seat = take_seat_ok [OF ok room act, of c]
  have nth: "ch_heap (upd_match a (take_seat c as_spectator) st) ! b =
      (if b = a then take_seat c as_spectator m else ch_heap st ! b)" if "b < length (ch_heap st)" for b
    using that ma by (simp add: upd_match_def)
  have "chess_inv {} {} (upd_match a (take_seat c as_spectator) st)"
    unfolding chess_inv_def upd_fields
  proof (intro conjI, goal_cases)
    case 5
    show ?case using i seat ma by (auto simp: nth)
  next
    case 6
    show ?case
    proof (intro allI impI)
      fix b assume b: "b < length (ch_heap st)"
      show "match_ok (ch_heap (upd_match a (take_seat c as_spectator) st) ! b)
        \<and> (\<not> m_over (ch_heap (upd_match a (take_seat c as_spectator) st) ! b) \<longrightarrow>
           map_of (ch_byID st) (m_id (ch_heap (upd_match a (take_seat c as_spectator) st) ! b)) = Some b
         \<and> members (ch_heap (upd_match a (take_seat c as_spectator) st) ! b) \<subseteq> set (ch_live st) - {}
         \<and> (b \<notin> {} \<longrightarrow> isActive (m_kind (ch_heap (upd_match a (take_seat c as_spectator) st) ! b))
                (ch_heap (upd_match a (take_seat c as_spectator) st) ! b)
              \<and> m_winnerColor (ch_heap (upd_match a (take_seat c as_spectator) st) ! b) = None))"
      proof (cases "b = a")
        case True
        then have eq: "ch_heap (upd_match a (take_seat c as_spectator) st) ! b = take_seat c as_spectator m"
          using nth [OF b] by simp
        have "map_of (ch_byID st) (m_id m) = Some a \<and> members m \<subseteq> set (ch_live st) - {c} \<and> m_winnerColor m = None"
          using i m(2,3) ma by (auto simp: get_match_def)
        then show ?thesis unfolding eq seat(2,4-6,8) using seat(1,3) c(2) True by auto
      next
        case False
        then have eq: "ch_heap (upd_match a (take_seat c as_spectator) st) ! b = ch_heap st ! b" using nth [OF b] by simp
        show ?thesis unfolding eq using i b by blast
      qed
    qed
  next
    case 7
    show ?case
    proof (intro allI impI)
      fix d b
      show "map_of (ch_byClient st) d = Some b \<longleftrightarrow> b < length (ch_heap st)
          \<and> \<not> m_over (ch_heap (upd_match a (take_seat c as_spectator) st) ! b)
          \<and> d \<in> members (ch_heap (upd_match a (take_seat c as_spectator) st) ! b)"
      proof (cases "d = c")
        case True
        have out: "c \<notin> members (ch_heap st ! b)" if "b < length (ch_heap st)" "\<not> m_over (ch_heap st ! b)"
          using i that by blast
        have "\<not> m_over m" using m(3,4) by simp
        then show ?thesis
          using out True c(1) m(2) seat(2,5) by (cases "b < length (ch_heap st)"; cases "b = a") (auto simp: nth)
      next
        case False
        then have "map_of (ch_byClient st) d = Some b \<longleftrightarrow>
            b < length (ch_heap st) \<and> \<not> m_over (ch_heap st ! b) \<and> d \<in> members (ch_heap st ! b)"
          using i by blast
        then show ?thesis
          using False seat(2,5) ma by (cases "b < length (ch_heap st)"; cases "b = a") (simp_all add: nth)
      qed
    qed
  qed (use i in auto)
  then show ?thesis using m seat by (simp add: inv_at_def)
qed

lemma holds_enter_match:
  assumes "has_room as_spectator m"
  shows "holds (\<lambda>st. inv_at {} {} a (\<lambda>m'. m' = m) st \<and> c \<in> set (ch_live st) \<and> map_of (ch_byClient st) c = None)
    (enter_match c match_id as_spectator a m) (\<lambda>_. chess_inv {} {}) E"
proof -
  let ?J = "joining c a m" and ?R = "inv_at {} {} a (\<lambda>m'. m_started m' = m_started m)"
  have 1: "holds (\<lambda>st. inv_at {} {} a (\<lambda>m'. m' = m) st \<and> c \<in> set (ch_live st) \<and> map_of (ch_byClient st) c = None)
      (c_modify (\<lambda>st. st\<lparr>ch_byClient := omap_emplace c a (ch_byClient st)\<rparr>)) (\<lambda>_. ?J) E"
    by (rule holds_modify) (auto intro: emplace_joining)
  have 2: "holds ?J (if as_spectator then (if m_started m then client_send c '':Start'' else c_ret ())
       else if \<not> m_started m then sendAll a '':Start'' else c_ret ()) (\<lambda>_. ?J) E"
    by (intro holds_if holds_client_send holds_sends(5) holds_ret) simp_all
  have 3: "holds ?J (c_modify (upd_match a (take_seat c as_spectator))) (\<lambda>_. ?R) E"
    using take_seat_inv [OF _ assms] by (intro holds_modify) blast
  have 4: "holds ?R (if \<not> as_spectator then client_send c '':Start'' else c_ret ()) (\<lambda>_. ?R) E"
    by (intro holds_if holds_client_send holds_ret) simp_all
  have 5: "holds ?R (c_match a (\<lambda>m. if isReady (m_kind m) m then send_turn a else c_ret ())) (\<lambda>_. ?R) E"
    by (intro holds_match_const holds_if holds_send_turn holds_ret) simp_all
  have open_inv: "holds P f (\<lambda>_. inv_at {} {} a (\<lambda>_. True)) E" if "holds P f (\<lambda>_. inv_at {} {} a \<psi>) E" for P f \<psi>
    by (rule holds_post [OF that]) (auto simp: inv_at_def)
  have start: "holds ?R (start_rolling a) (\<lambda>_. inv_at {} {} a (\<lambda>_. True)) E" if "\<not> m_started m"
    by (rule holds_at_weaken [OF open_inv [OF holds_start_rolling]]) (use that in simp)
  have catch: "holds ?R (c_match a (\<lambda>m. seqs (client_send c (columnMessage m)
              # map (\<lambda>p. client_send c (capturedMessage p)) (m_captured m)))) (\<lambda>_. inv_at {} {} a (\<lambda>_. True)) E"
    by (rule open_inv, rule holds_match_const, rule holds_seqs_Cons [OF holds_client_send], simp,
      rule holds_seqs_map [OF holds_client_send], simp)
  have 6: "holds ?R (if \<not> as_spectator \<and> \<not> m_started m then start_rolling a
       else c_match a (\<lambda>m. seqs (client_send c (columnMessage m)
              # map (\<lambda>p. client_send c (capturedMessage p)) (m_captured m)))) (\<lambda>_. inv_at {} {} a (\<lambda>_. True)) E"
    using start catch by (intro holds_if) auto
  have 7: "holds (inv_at {} {} a (\<lambda>_. True)) (c_match a (\<lambda>m. if \<not> as_spectator \<and> \<not> m_hidden m then announce a else c_ret ()))
      (\<lambda>_. inv_at {} {} a (\<lambda>_. True)) E"
    by (intro holds_match_const holds_if holds_announce holds_ret) simp_all
  show ?thesis
    unfolding enter_match_def
    by (rule holds_seqs_Cons [OF 1], rule holds_seqs_Cons [OF holds_client_send], simp, rule holds_seqs_Cons [OF 2],
      rule holds_seqs_Cons [OF 3], rule holds_seqs_Cons [OF 4], rule holds_seqs_Cons [OF 5],
      rule holds_seqs_Cons [OF holds_sendBoard], simp, rule holds_seqs_Cons [OF 6], rule holds_seqs_Cons [OF 7],
      rule holds_seqs_Nil, simp add: inv_at_def)
qed

lemma holds_joinMatch:
  "holds (\<lambda>st. chess_inv {} {} st \<and> client \<in> set (ch_live st))
     (joinMatch client match_id as_spectator) (\<lambda>_. chess_inv {} {}) E"
  unfolding joinMatch_def
proof (rule holds_with)
  fix st0
  let ?P = "\<lambda>st. (chess_inv {} {} st \<and> client \<in> set (ch_live st)) \<and> st = st0"
  have send: "holds ?P (client_send client msg) (\<lambda>_. chess_inv {} {}) E" for msg
    by (rule holds_pre [OF holds_client_send]) auto
  have enter: "holds (\<lambda>st. ?P st \<and> get_match a st = m)
      (if \<not> as_spectator \<and> m_host m \<noteq> None \<and> m_guest m \<noteq> None
         then client_send client '':Error Match is full.'' else enter_match client match_id as_spectator a m)
      (\<lambda>_. chess_inv {} {}) E"
    if free: "map_of (ch_byClient st0) client = None" and a: "map_of (ch_byID st0) match_id = Some a" for a m
  proof (rule holds_if)
    show "holds (\<lambda>st. ?P st \<and> get_match a st = m) (client_send client '':Error Match is full.'') (\<lambda>_. chess_inv {} {}) E"
      by (rule holds_pre [OF holds_client_send]) auto
    assume "\<not> (\<not> as_spectator \<and> m_host m \<noteq> None \<and> m_guest m \<noteq> None)"
    then have room: "has_room as_spectator m" by (auto simp: has_room_def)
    show "holds (\<lambda>st. ?P st \<and> get_match a st = m) (enter_match client match_id as_spectator a m) (\<lambda>_. chess_inv {} {}) E"
    proof (rule holds_pre [OF holds_enter_match [OF room]])
      fix st assume st: "?P st \<and> get_match a st = m"
      with a have "a < length (ch_heap st) \<and> \<not> m_over (get_match a st)" by (auto simp: chess_inv_def get_match_def)
      with st free show "inv_at {} {} a (\<lambda>m'. m' = m) st \<and> client \<in> set (ch_live st) \<and> map_of (ch_byClient st) client = None"
        by (auto simp: inv_at_def)
    qed
  qed
  show "holds ?P (if map_of (ch_byClient st0) client \<noteq> None
     then client_send client '':Error Already in a match.''
     else case map_of (ch_byID st0) match_id of
       None \<Rightarrow> client_send client '':Error No match with that ID exists.''
     | Some a \<Rightarrow> c_match a (\<lambda>m.
         if \<not> as_spectator \<and> m_host m \<noteq> None \<and> m_guest m \<noteq> None
         then client_send client '':Error Match is full.''
         else enter_match client match_id as_spectator a m)) (\<lambda>_. chess_inv {} {}) E"
    using send enter by (cases "map_of (ch_byID st0) match_id") (auto intro!: holds_match)
qed

end
