(* ===== verification/Chess_Safety.thy ===== *)
theory Chess_Safety
  imports Chess_Reachable
begin

text \<open>
  Leaving and closing keep the invariant too, and so every state the plugin can reach has it.
\<close>

section \<open>Leaving a match\<close>

lemma is_client_left: "is_client (if is_client v c then None else v) d \<longleftrightarrow> is_client v d \<and> d \<noteq> c"
  by (auto simp: is_client_def split: option.splits)

lemma leave_seats_ok:
  assumes "match_ok m"
  shows "match_ok (leave_seats c m)" "members (leave_seats c m) = members m - {c}"
    "m_id (leave_seats c m) = m_id m" "m_over (leave_seats c m) = m_over m"
    "m_winnerColor (leave_seats c m) = m_winnerColor m"
proof -
  show "members (leave_seats c m) = members m - {c}"
    by (auto simp: leave_seats_def members_def is_client_left)
  have "is_client (m_guest m) c \<Longrightarrow> m_kind m \<noteq> AIMatch"
    using assms by (auto simp: match_ok_def seats_ok_def is_client_def is_ai_def split: option.splits)
  then show "match_ok (leave_seats c m)"
    using assms by (auto simp: leave_seats_def match_ok_def columns_ok_def seats_ok_def split: option.splits)
qed (simp_all add: leave_seats_def)

lemma leave_seats_inv:
  assumes inv: "chess_inv {} {} st" and c: "map_of (ch_byClient st) c = Some a"
  shows "inv_at {c} {a} a (\<lambda>m. m_winnerColor m = None) (upd_match a (leave_seats c) st)"
proof -
  note i = inv [unfolded chess_inv_def]
  let ?m = "ch_heap st ! a" and ?h = "ch_heap (upd_match a (leave_seats c) st)"
  have a: "a < length (ch_heap st)" "\<not> m_over ?m" "c \<in> members ?m" using i c by blast+
  have win: "m_winnerColor ?m = None" using i a by blast
  have ok: "match_ok ?m" using i a by blast
  note left = leave_seats_ok [OF ok, of c]
  have nth: "?h ! b = (if b = a then leave_seats c ?m else ch_heap st ! b)" if "b < length (ch_heap st)" for b
    using that by (simp add: upd_match_def)
  have other: "c \<notin> members (ch_heap st ! b)" if "b < length (ch_heap st)" "\<not> m_over (ch_heap st ! b)" "b \<noteq> a" for b
    using i c that by (metis empty_iff option.inject)
  have "chess_inv {c} {a} (upd_match a (leave_seats c) st)"
    unfolding chess_inv_def upd_fields
  proof (intro conjI, goal_cases)
    case 5
    show ?case using i left by (auto simp: nth)
  next
    case 6
    show ?case
    proof (intro allI impI)
      fix b assume b: "b < length (ch_heap st)"
      have old: "map_of (ch_byID st) (m_id (ch_heap st ! b)) = Some b \<and> members (ch_heap st ! b) \<subseteq> set (ch_live st)
          \<and> isActive (m_kind (ch_heap st ! b)) (ch_heap st ! b) \<and> m_winnerColor (ch_heap st ! b) = None"
        if "\<not> m_over (ch_heap st ! b)" using i b that by blast
      have okb: "match_ok (ch_heap st ! b)" using i b by blast
      show "match_ok (?h ! b) \<and> (\<not> m_over (?h ! b) \<longrightarrow>
          map_of (ch_byID st) (m_id (?h ! b)) = Some b \<and> members (?h ! b) \<subseteq> set (ch_live st) - {c}
          \<and> (b \<notin> {a} \<longrightarrow> isActive (m_kind (?h ! b)) (?h ! b) \<and> m_winnerColor (?h ! b) = None))"
      proof (cases "b = a")
        case True
        then have eq: "?h ! b = leave_seats c ?m" using nth [OF b] by simp
        show ?thesis unfolding eq left using True old left(1) by auto
      next
        case False
        then have eq: "?h ! b = ch_heap st ! b" using nth [OF b] by simp
        show ?thesis unfolding eq using False old okb other [OF b] by auto
      qed
    qed
  next
    case 7
    show ?case
    proof (intro allI impI)
      fix d b assume "d \<notin> {c}"
      moreover have "map_of (ch_byClient st) d = Some b \<longleftrightarrow>
          b < length (ch_heap st) \<and> \<not> m_over (ch_heap st ! b) \<and> d \<in> members (ch_heap st ! b)" using i by blast
      ultimately show "map_of (ch_byClient st) d = Some b \<longleftrightarrow>
          b < length (ch_heap st) \<and> \<not> m_over (?h ! b) \<and> d \<in> members (?h ! b)"
        using left(2,4) by (cases "b < length (ch_heap st)"; cases "b = a") (simp_all add: nth)
    qed
  qed (use i in auto)
  then show ?thesis using a left win by (simp add: inv_at_def get_match_def [of a st])
qed

lemma inv_activate:
  assumes "inv_at D {a} a (\<lambda>m'. m' = m) st" "isActive (m_kind m) m" "m_winnerColor m = None"
  shows "chess_inv D {} st"
  using assms by (auto simp: inv_at_def chess_inv_def get_match_def)

lemma holds_disconnect:
  "holds (\<lambda>st. chess_inv {} {} st \<and> map_of (ch_byClient st) c = Some a) (match_disconnect a c) (\<lambda>_. chess_inv {c} {}) E"
proof -
  let ?Q = "inv_at {c} {a} a (\<lambda>m. m_winnerColor m = None)"
  have 1: "holds (\<lambda>st. chess_inv {} {} st \<and> map_of (ch_byClient st) c = Some a)
      (c_modify (upd_match a (leave_seats c))) (\<lambda>_. ?Q) E"
    by (rule holds_modify) (auto intro: leave_seats_inv)
  have 2: "holds ?Q (c_match a (\<lambda>m.
        if \<not> isActive (m_kind m) m then match_end a None
        else if \<not> m_hidden m then broadcast ('':Match '' @ m_id m @ '' open'')
        else c_ret ())) (\<lambda>_. chess_inv {c} {}) E"
  proof (rule holds_match_at)
    fix m :: match assume m: "m_winnerColor m = None"
    show "holds (inv_at {c} {a} a (\<lambda>m'. m' = m))
       (if \<not> isActive (m_kind m) m then match_end a None
        else if \<not> m_hidden m then broadcast ('':Match '' @ m_id m @ '' open'')
        else c_ret ()) (\<lambda>_. chess_inv {c} {}) E"
    proof (rule holds_if [OF holds_match_end])
      assume act: "\<not> \<not> isActive (m_kind m) m"
      have pre: "holds (inv_at {c} {a} a (\<lambda>m'. m' = m)) f (\<lambda>_. chess_inv {c} {}) E"
        if "holds (chess_inv {c} {}) f (\<lambda>_. chess_inv {c} {}) E" for f
        by (rule holds_pre [OF that]) (use act m inv_activate in blast)
      show "holds (inv_at {c} {a} a (\<lambda>m'. m' = m))
         (if \<not> m_hidden m then broadcast ('':Match '' @ m_id m @ '' open'') else c_ret ()) (\<lambda>_. chess_inv {c} {}) E"
        by (rule pre) (intro holds_if holds_broadcast holds_ret, simp_all)
    qed
  qed
  show ?thesis
    unfolding match_disconnect_def by (rule holds_seqs_Cons [OF 1 holds_seqs_Cons [OF 2 holds_seqs_Nil]])
qed

lemma inv_forget:
  assumes "chess_inv {c} {} st"
  shows "chess_inv {} {} (st\<lparr>ch_byClient := omap_del c (ch_byClient st)\<rparr>)"
proof -
  note i = assms [unfolded chess_inv_def]
  have ok: "omap_ok (ch_byClient st)" using i by blast
  have none: "c \<notin> members (ch_heap st ! b)" if "b < length (ch_heap st)" "\<not> m_over (ch_heap st ! b)" for b
    using i that by blast
  show ?thesis
    unfolding chess_inv_def using i none
    by (auto simp: omap.ok_del [OF ok] omap.get_del [OF ok])
qed

lemma holds_leave_tail:
  "holds (\<lambda>st. chess_inv {} {} st \<and> map_of (ch_byClient st) c = Some a)
    (seqs [match_disconnect a c, c_modify (\<lambda>st. st\<lparr>ch_byClient := omap_del c (ch_byClient st)\<rparr>)])
    (\<lambda>_ st. chess_inv {} {} st \<and> map_of (ch_byClient st) c = None) E"
proof -
  have "holds (chess_inv {c} {}) (c_modify (\<lambda>st. st\<lparr>ch_byClient := omap_del c (ch_byClient st)\<rparr>))
      (\<lambda>_ st. chess_inv {} {} st \<and> map_of (ch_byClient st) c = None) E"
  proof (rule holds_modify)
    fix st assume st: "chess_inv {c} {} st"
    then have "omap_ok (ch_byClient st)" by (simp add: chess_inv_def)
    with inv_forget [OF st] show "chess_inv {} {} (st\<lparr>ch_byClient := omap_del c (ch_byClient st)\<rparr>)
      \<and> map_of (ch_byClient (st\<lparr>ch_byClient := omap_del c (ch_byClient st)\<rparr>)) c = None"
      by (simp add: omap.get_del)
  qed
  then show ?thesis by (intro holds_seqs_Cons [OF holds_disconnect] holds_seqs_Cons [OF _ holds_seqs_Nil])
qed

lemma holds_leave_case:
  "holds (chess_inv {} {}) (c_with (\<lambda>st. case map_of (ch_byClient st) client of
          None \<Rightarrow> c_ret ()
        | Some a \<Rightarrow> seqs [match_disconnect a client,
            c_modify (\<lambda>st. st\<lparr>ch_byClient := omap_del client (ch_byClient st)\<rparr>)]))
     (\<lambda>_ st. chess_inv {} {} st \<and> map_of (ch_byClient st) client = None) E"
proof (rule holds_with)
  fix st0
  show "holds (\<lambda>st. chess_inv {} {} st \<and> st = st0) (case map_of (ch_byClient st0) client of
          None \<Rightarrow> c_ret ()
        | Some a \<Rightarrow> seqs [match_disconnect a client,
            c_modify (\<lambda>st. st\<lparr>ch_byClient := omap_del client (ch_byClient st)\<rparr>)])
     (\<lambda>_ st. chess_inv {} {} st \<and> map_of (ch_byClient st) client = None) E"
  proof (cases "map_of (ch_byClient st0) client")
    case (Some a)
    then show ?thesis using holds_pre [OF holds_leave_tail [of client a]] by fastforce
  qed (auto intro!: holds_ret)
qed

lemma holds_leaveMatch: "holds (chess_inv {} {}) (leaveMatch client) (\<lambda>_. chess_inv {} {}) E"
  unfolding leaveMatch_def by (rule holds_post [OF holds_leave_case]) auto

lemma holds_handleClose:
  "holds (chess_inv {} {}) (chess_handleClose client)
     (\<lambda>_ st. chess_inv {} {} st \<and> map_of (ch_byClient st) client = None) E"
  unfolding chess_handleClose_def
  by (rule holds_seqs_Cons [OF holds_modify [where Q = "\<lambda>_. chess_inv {} {}"] holds_seqs_Cons [OF holds_leave_case holds_seqs_Nil]])
    (auto simp: chess_inv_def dest: notin_set_remove1 in_set_remove1 [THEN iffD1] set_remove1_subset [THEN subsetD])

section \<open>Messages\<close>

text \<open>The two exceptions a message can end in.\<close>

definition message_exn :: "exn \<Rightarrow> bool" where
  "message_exn e \<longleftrightarrow> e = RuntimeError ''Couldn't find player for connection''
     \<or> e = UndefinedBehaviour ''words[0] of an empty vector''"

lemma holds_move_words:
  "holds (chess_inv {} {}) (move_words client words) (\<lambda>_. chess_inv {} {})
     (\<lambda>e st. chess_inv {} {} st \<and> message_exn e)"
  (is "holds _ _ ?Q ?E")
  unfolding move_words_def
proof (rule holds_with)
  fix st0
  let ?P = "\<lambda>st. chess_inv {} {} st \<and> st = st0"
  let ?mv = "\<lparr>mv_from = word_square (words ! 1), mv_to = word_square (words ! 2)\<rparr>"
  let ?attempt = "\<lambda>a. c_match a (\<lambda>m. case getPlayer m client of Inl e \<Rightarrow> c_throw e
       | Inr seat \<Rightarrow> makeMove (rolls_left st0) a seat ?mv)"
  have attempt: "holds ?P (?attempt a) ?Q (\<lambda>e st. chess_inv {} {} st \<and> (message_exn e \<or> (\<exists>what. e = ChessError what)))"
    if a: "map_of (ch_byClient st0) client = Some a" for a
  proof (rule holds_match)
    fix m
    have at: "inv_at {} {} a (\<lambda>_. True) st" if "?P st" for st
      using that a by (auto simp: inv_at_def chess_inv_def get_match_def)
    have move: "holds (\<lambda>st. ?P st \<and> get_match a st = m) (makeMove (rolls_left st0) a seat ?mv) ?Q
       (\<lambda>e st. chess_inv {} {} st \<and> (message_exn e \<or> (\<exists>what. e = ChessError what)))" for seat
      by (rule holds_pre [OF holds_post [OF holds_makeMove]]) (use at in auto)
    show "holds (\<lambda>st. ?P st \<and> get_match a st = m) (case getPlayer m client of Inl e \<Rightarrow> c_throw e
       | Inr seat \<Rightarrow> makeMove (rolls_left st0) a seat ?mv) ?Q
       (\<lambda>e st. chess_inv {} {} st \<and> (message_exn e \<or> (\<exists>what. e = ChessError what)))"
    proof (cases "getPlayer m client")
      case (Inl e)
      then have "message_exn e" by (auto simp: getPlayer_def message_exn_def split: if_splits)
      with Inl show ?thesis by (auto intro!: holds_throw)
    qed (use move in simp)
  qed
  have caught: "holds ?P (catch_chess client (?attempt a)) ?Q ?E" if "map_of (ch_byClient st0) client = Some a" for a
    unfolding holds_def
  proof (intro allI impI)
    fix st st' r assume st: "?P st" and run: "catch_chess client (?attempt a) st = Some (st', r)"
    then obtain s1 r1 where r1: "?attempt a st = Some (s1, r1)"
      by (auto simp: catch_chess_def split: option.splits prod.splits sum.splits)
    from holdsD [OF attempt [OF that] st r1] run r1
    show "case r of Inl e \<Rightarrow> ?E e st' | Inr x \<Rightarrow> ?Q x st'"
      by (auto simp: catch_chess_def client_send_def c_modify_def message_exn_def split: sum.splits exn.splits)
  qed
  show "holds ?P (case map_of (ch_byClient st0) client of
       None \<Rightarrow> client_send client '':Error Not in a match.''
     | Some a \<Rightarrow> catch_chess client (?attempt a)) ?Q ?E"
  proof (cases "map_of (ch_byClient st0) client")
    case None
    then show ?thesis using holds_pre [OF holds_client_send [of "chess_inv {} {}"]] by fastforce
  qed (use caught in simp)
qed

lemma holds_message:
  "holds (\<lambda>st. chess_inv {} {} st \<and> client \<in> set (ch_live st)) (chess_message client message) (\<lambda>_. chess_inv {} {})
     (\<lambda>e st. chess_inv {} {} st \<and> message_exn e)"
  (is "holds ?P _ ?Q ?E")
proof -
  have send: "holds ?P (client_send client msg) ?Q ?E" for msg
    by (rule holds_pre [OF holds_client_send]) auto
  have inv_send: "holds (chess_inv {} {}) (client_send client msg) ?Q ?E" for msg
    by (rule holds_client_send) simp
  have weak: "holds ?P f ?Q ?E" if "holds (chess_inv {} {}) f ?Q ?E" for f
    by (rule holds_pre [OF that]) simp
  have matches: "holds (chess_inv {} {}) (list_matches client) ?Q ?E"
    unfolding list_matches_def
    by (rule holds_with_const, rule holds_seqs_Cons [OF inv_send], rule holds_seqs_map)
      (auto intro!: holds_if inv_send holds_ret simp: Let_def split: prod.splits)
  have fen: "holds (chess_inv {} {}) (send_fen client) ?Q ?E"
    unfolding send_fen_def
    by (rule holds_with_const) (auto intro!: holds_match_const holds_client_send split: option.splits)
  have create: "holds ?P (create_words client words) ?Q ?E" for words
    unfolding create_words_def by (rule holds_createMatch)
  have either: "holds ?P (c_with (\<lambda>st. if map_of (ch_byID st) (words ! 1) \<noteq> None
               then joinMatch client (words ! 1) False else create_words client words)) ?Q ?E" for words
    by (rule holds_with_const) (intro holds_if holds_joinMatch create)
  have words: "holds ?P (chess_words client words) ?Q ?E" for words
    unfolding chess_words_def invalid_message_def
    by (intro holds_if send create either holds_joinMatch weak [OF holds_move_words] weak [OF matches]
      weak [OF fen] weak [OF holds_leaveMatch])
  obtain ws where ws: "split_view (substr 1 None message) '' '' True = Some ws"
    using split_view_correct [of "'' ''" "substr 1 None message"] by auto
  show ?thesis
    unfolding chess_message_def invalid_message_def ws option.case
    by (intro holds_if send words holds_throw) (auto simp: message_exn_def)
qed

section \<open>Reachable states\<close>

text \<open>An operation that leaves the connections and the dice alone.\<close>

definition frame :: "'a chess_op \<Rightarrow> bool" where
  "frame f \<longleftrightarrow> (\<forall>st st' r. f st = Some (st', r) \<longrightarrow> ch_clients st' = ch_clients st \<and> ch_live st' = ch_live st
     \<and> ch_dice st' = ch_dice st)"

named_theorems frame_intros \<open>rules for operations that leave the connections alone\<close>

lemma frame_ret [frame_intros]: "frame (c_ret x)"
  by (simp add: frame_def c_ret_def)

lemma frame_throw [frame_intros]: "frame (c_throw e)"
  by (simp add: frame_def c_throw_def)

lemma frame_modify:
  "(\<And>st. ch_clients (f st) = ch_clients st \<and> ch_live (f st) = ch_live st \<and> ch_dice (f st) = ch_dice st) \<Longrightarrow>
    frame (c_modify f)"
  by (auto simp: frame_def c_modify_def)

lemma frame_with [frame_intros]: "(\<And>st. frame (f st)) \<Longrightarrow> frame (c_with f)"
  by (auto simp: frame_def c_with_def)

lemma frame_match [frame_intros]: "(\<And>m. frame (f m)) \<Longrightarrow> frame (c_match a f)"
  by (auto simp: frame_def c_match_def)

lemma frame_bind [frame_intros]: "frame f \<Longrightarrow> (\<And>x. frame (g x)) \<Longrightarrow> frame (c_bind f g)"
  unfolding frame_def c_bind_def by (fastforce split: option.splits prod.splits sum.splits)

lemma frame_seqs [frame_intros]: "list_all frame fs \<Longrightarrow> frame (seqs fs)"
  by (induction fs) (auto intro: frame_ret frame_bind)

lemma frame_if [frame_intros]: "frame f \<Longrightarrow> frame g \<Longrightarrow> frame (if c then f else g)"
  by simp

lemma frame_client_send [frame_intros]: "frame (client_send c msg)"
  unfolding client_send_def by (rule frame_modify) simp

lemma frame_plugin_send [frame_intros]: "frame (plugin_send c msg)"
  unfolding plugin_send_def by (intro frame_intros)

lemma frame_player_send [frame_intros]: "frame (player_send p msg)"
  by (simp add: player_send_def frame_intros split: player_kind.splits)

lemma frame_sends [frame_intros]:
  "frame (sendHost a msg)" "frame (sendGuest a msg)" "frame (sendSpectators a msg)"
  unfolding sendHost_def sendGuest_def sendSpectators_def
  by (auto intro!: frame_intros simp: list_all_iff split: option.splits)

lemma frame_sendAll [frame_intros]: "frame (sendAll a msg)"
  unfolding sendAll_def sendBoth_def by (auto intro!: frame_intros simp: list_all_iff)

lemma frame_broadcast [frame_intros]: "frame (broadcast msg)"
  unfolding broadcast_def by (auto intro!: frame_intros simp: list_all_iff)

lemma frame_match_end [frame_intros]: "frame (match_end a winner)"
  unfolding match_end_def by (auto intro!: frame_intros frame_modify split: option.splits)

lemma frame_disconnect: "frame (match_disconnect a c)"
  unfolding match_disconnect_def by (auto intro!: frame_intros frame_modify)

lemma handleClose_clients:
  assumes "chess_handleClose client st = Some (st', r)"
  shows "ch_clients st' = remove1 client (ch_clients st)" "ch_live st' = ch_live st"
proof -
  let ?st = "st\<lparr>ch_connections := remove1 client (ch_connections st), ch_clients := remove1 client (ch_clients st)\<rparr>"
  have "frame (c_with (\<lambda>st. case map_of (ch_byClient st) client of
          None \<Rightarrow> c_ret ()
        | Some a \<Rightarrow> seqs [match_disconnect a client,
            c_modify (\<lambda>st. st\<lparr>ch_byClient := omap_del client (ch_byClient st)\<rparr>)]))" (is "frame ?f")
    by (auto intro!: frame_intros frame_modify frame_disconnect split: option.splits)
  then have "frame (seqs [?f])" by (auto intro: frame_intros)
  moreover have "seqs [?f] ?st = Some (st', r)"
    using assms by (simp add: chess_handleClose_def c_bind_def c_modify_def)
  ultimately show "ch_clients st' = remove1 client (ch_clients st)" "ch_live st' = ch_live st"
    by (fastforce simp: frame_def)+
qed

definition chess_init :: chess where
  "chess_init = \<lparr>ch_heap = [], ch_byID = [], ch_byClient = [], ch_handlers = [], ch_connections = [],
     ch_clients = [], ch_live = [], ch_dice = [], ch_out = []\<rparr>"

text \<open>
  A client connects to the server and asks for protocols; a connected client sends a message,
  with any dice; a client goes away, and the server drops it after the close handler ran.
\<close>

inductive chess_step :: "chess \<Rightarrow> chess \<Rightarrow> bool" where
  Connected: "client \<notin> set (ch_live st) \<Longrightarrow>
    chess_handleConnect client protocols not_disabled (st\<lparr>ch_live := client # ch_live st\<rparr>) = (res, proto, st') \<Longrightarrow>
    chess_step st st'"
| Message: "client \<in> set (ch_clients st) \<Longrightarrow>
    chess_handleMessage client message not_disabled (st\<lparr>ch_dice := ds\<rparr>) = Some (st', r) \<Longrightarrow> chess_step st st'"
| Closed: "client \<in> set (ch_live st) \<Longrightarrow> chess_handleClose client st = Some (st', r) \<Longrightarrow>
    chess_step st (st'\<lparr>ch_live := removeAll client (ch_live st')\<rparr>)"

inductive_cases chess_stepE: "chess_step st st'"

lemma handleMessage_keeps:
  assumes "chess_inv {} {} st" "client \<in> set (ch_clients st)"
    "chess_handleMessage client message not_disabled (st\<lparr>ch_dice := ds\<rparr>) = Some (st', r)"
  shows "chess_inv {} {} st' \<and> (\<forall>e. r = Inl e \<longrightarrow> message_exn e)"
proof (cases not_disabled)
  case True
  let ?st = "st\<lparr>ch_dice := ds\<rparr>"
  have "client \<in> set (ch_live st)" using assms(1,2) by (auto simp: chess_inv_def)
  then have pre: "chess_inv {} {} ?st \<and> client \<in> set (ch_live ?st)" using assms(1) by simp
  obtain s1 r1 where run: "chess_message client message ?st = Some (s1, r1)"
    using assms(3) True by (auto simp: chess_handleMessage_def c_bind_def split: option.splits)
  from holdsD [OF holds_message pre run] assms(3) True run show ?thesis
    by (auto simp: chess_handleMessage_def c_bind_def c_ret_def split: sum.splits)
qed (use assms in \<open>simp add: chess_handleMessage_def c_ret_def; metis inv_dice sum.distinct(1)\<close>)

lemma chess_step_inv: "chess_step st st' \<Longrightarrow> chess_inv {} {} st \<Longrightarrow> chess_inv {} {} st'"
proof (induction rule: chess_step.induct)
  case (Connected client st protocols not_disabled res proto st')
  then have "chess_inv {} {} (st\<lparr>ch_live := client # ch_live st\<rparr>)" by (auto simp: chess_inv_def)
  moreover from this have "chess_inv {} {} ((st\<lparr>ch_live := client # ch_live st\<rparr>)\<lparr>ch_handlers := hs,
      ch_connections := cs, ch_clients := List.insert client (ch_clients st)\<rparr>)" for hs cs
    by (simp add: chess_inv_def)
  ultimately show ?case
    using Connected(2) unfolding chess_handleConnect_def by (simp split: if_splits) metis
next
  case (Message client st message not_disabled ds st' r)
  then show ?case using handleMessage_keeps by blast
next
  case (Closed client st st' r)
  from holdsD [OF holds_handleClose [of client "\<lambda>_ _. False"] Closed(3,2)]
  have st': "chess_inv {} {} st'" "map_of (ch_byClient st') client = None" by (auto split: sum.splits)
  have "client \<notin> set (ch_clients st')"
    using handleClose_clients(1) [OF Closed(2)] Closed(3) by (simp add: chess_inv_def)
  moreover have "client \<notin> members (ch_heap st' ! b)" if "b < length (ch_heap st')" "\<not> m_over (ch_heap st' ! b)" for b
    using st' that unfolding chess_inv_def by (metis empty_iff option.distinct(1))
  ultimately show ?case using st'(1) by (auto simp: chess_inv_def)
qed

lemma reachable_inv: "chess_step\<^sup>*\<^sup>* chess_init st \<Longrightarrow> chess_inv {} {} st"
proof (induction rule: rtranclp_induct)
  case base
  then show ?case by (simp add: chess_inv_def chess_init_def)
next
  case (step y z)
  then show ?case using chess_step_inv by blast
qed

text \<open>
  (C6) Probability chess never loses track of its matches.  In every state the plugin can reach
  from start-up, by clients connecting, sending arbitrary messages under arbitrary dice and
  going away: the table of matches by name and the heap agree, a client is in
  \<open>matchesByClient\<close> exactly when it is host, guest or spectator of a match that is not over,
  all of these are connected, boards and columns are well formed, and a match not over has a
  player and no winner.  A message ends without an exception but for two: a move of a client
  that has no seat, and the message \<open>":"\<close>, whose first word does not exist.
\<close>

theorem chess_consistent:
  assumes "chess_step\<^sup>*\<^sup>* chess_init st"
  shows "chess_inv {} {} st
    \<and> (\<forall>client message ds st' e. client \<in> set (ch_clients st) \<longrightarrow>
         chess_handleMessage client message True (st\<lparr>ch_dice := ds\<rparr>) = Some (st', Inl e) \<longrightarrow>
         e = RuntimeError ''Couldn't find player for connection''
         \<or> e = UndefinedBehaviour ''words[0] of an empty vector'')"
proof -
  have "chess_inv {} {} st" using assms by (rule reachable_inv)
  then show ?thesis using handleMessage_keeps by (fastforce simp: message_exn_def)
qed

definition chess_one :: chess where
  "chess_one = snd (snd (chess_handleConnect 1 [''probchess''] True (chess_init\<lparr>ch_live := [1]\<rparr>)))"

theorem chess_consistent_witness:
  "chess_step\<^sup>*\<^sup>* chess_init chess_one \<and> chess_inv {} {} chess_one \<and> 1 \<in> set (ch_clients chess_one)
   \<and> map_option snd (chess_handleMessage 1 '':'' True chess_one)
       = Some (Inl (UndefinedBehaviour ''words[0] of an empty vector''))"
proof -
  have "chess_step chess_init chess_one"
    by (rule chess_step.Connected [where client = 1 and protocols = "[''probchess'']" and not_disabled = True])
      (simp_all add: chess_one_def chess_init_def prod_eq_iff)
  then have reach: "chess_step\<^sup>*\<^sup>* chess_init chess_one" by blast
  have one: "1 \<in> set (ch_clients chess_one)" by code_simp
  have "map_option snd (chess_handleMessage 1 '':'' True chess_one)
       = Some (Inl (UndefinedBehaviour ''words[0] of an empty vector''))"
    by (simp add: chess_handleMessage_def chess_message_def split_view_def c_bind_def c_throw_def)
  with reach one chess_consistent [OF reach] show ?thesis by blast
qed

end
