(* ===== verification/Chess_Game.thy ===== *)
theory Chess_Game
  imports Chess_Safety
begin

text \<open>
  What an accepted move does to the board, that it returns, and two positions in which a match
  cannot go on: a player without moves under \<open>noSkip\<close>, and a computer that has to begin.
\<close>

section \<open>The board after a move, cell by cell\<close>

text \<open>A pawn that has reached its last row is a queen.\<close>

definition promoted :: "square \<Rightarrow> piece option \<Rightarrow> piece option" where
  "promoted x v = (case v of
      None \<Rightarrow> None
    | Some p \<Rightarrow>
        if pc_type p = Pawn \<and> (pc_color p = White \<and> sq_row x = 0 \<or> pc_color p = Black \<and> sq_row x = 7)
        then Some \<lparr>pc_type = Queen, pc_color = pc_color p, pc_square = x\<rparr> else Some p)"

definition board_after :: "board \<Rightarrow> move \<Rightarrow> square \<Rightarrow> piece option" where
  "board_after b mv x = promoted x
     (if x = mv_from mv then None
      else if x = mv_to mv
      then map_option (\<lambda>p. p\<lparr>pc_square := mv_to mv\<rparr>) (at_square b (mv_from mv))
      else at_square b x)"

lemma promote_row_at:
  assumes "board_ok b" "\<forall>k \<in> set ks. square_bool (sq r k)" "distinct ks"
  shows "at_square (fst (promote_row c r ks b)) x =
    (case at_square b x of
       Some p \<Rightarrow> if pc_type p = Pawn \<and> pc_color p = c \<and> sq_row x = r \<and> sq_col x \<in> set ks
                 then Some \<lparr>pc_type = Queen, pc_color = c, pc_square = x\<rparr> else Some p
     | None \<Rightarrow> None)"
  using assms
proof (induction ks arbitrary: b)
  case Nil
  then show ?case by (simp split: option.splits)
next
  case (Cons k ks)
  have on: "square_bool (sq r k)" using Cons.prems by simp
  show ?case
  proof (cases "\<exists>p. at_rc b r k = Some p \<and> pc_type p = Pawn \<and> pc_color p = c")
    case True
    then obtain p where p: "at_square b (sq r k) = Some p" "pc_type p = Pawn" "pc_color p = c"
      by (auto simp: at_rc_square)
    let ?b = "set_piece Queen c r k (board_erase b (Some p))"
    note er = board_erase_ok [OF Cons.prems(1) p(1)] board_erase_at [OF Cons.prems(1) p(1)]
    have b: "board_ok ?b" unfolding set_piece_def using er(1) on by (intro board_ok_put) auto
    have at: "at_square ?b y = (if y = sq r k then Some \<lparr>pc_type = Queen, pc_color = c, pc_square = y\<rparr> else at_square b y)" for y
      using er on by (auto simp: set_piece_def at_put)
    have "fst (promote_row c r (k # ks) b) = fst (promote_row c r ks ?b)"
      using p by (simp add: at_rc_square case_prod_beta Let_def pawn_class_def)
    with Cons.IH [OF b] Cons.prems have "at_square (fst (promote_row c r (k # ks) b)) x =
      (case at_square ?b x of
         Some q \<Rightarrow> if pc_type q = Pawn \<and> pc_color q = c \<and> sq_row x = r \<and> sq_col x \<in> set ks
                 then Some \<lparr>pc_type = Queen, pc_color = c, pc_square = x\<rparr> else Some q
       | None \<Rightarrow> None)" by simp
    then show ?thesis using p Cons.prems(3) by (cases x) (auto simp: at split: option.splits)
  next
    case False
    then have "fst (promote_row c r (k # ks) b) = fst (promote_row c r ks b)"
      by (auto split: option.splits)
    with Cons False show ?thesis by (cases x) (auto simp: at_rc_square split: option.splits)
  qed
qed

lemma checkPawns_at:
  assumes "board_ok b"
  shows "at_square (fst (checkPawns b)) x = promoted x (at_square b x)"
proof -
  let ?ks = "[0..board_width - 1]"
  have row: "\<forall>k \<in> set ?ks. square_bool (sq 0 k) \<and> square_bool (sq 7 k)"
    unfolding set_upto by (simp add: square_bool_def board_width_def)
  have h: "board_height - 1 = 7" by (simp add: board_height_def)
  let ?b1 = "fst (promote_row White 0 ?ks b)"
  have b1: "board_ok ?b1" by (rule promote_row_ok [OF assms]) (use row in blast)
  have mem: "sq_col x \<in> set ?ks" if "at_square b x \<noteq> None"
  proof -
    have "square_bool x" using that by (rule contrapos_np) simp
    then show ?thesis unfolding set_upto by (simp add: square_bool_def board_width_def)
  qed
  have "at_square (fst (checkPawns b)) x = at_square (fst (promote_row Black 7 ?ks ?b1)) x"
    unfolding checkPawns_def by (simp only: case_prod_beta Let_def h fst_conv)
  also have "\<dots> = promoted x (at_square b x)"
  proof -
    have rows: "\<forall>k \<in> set ?ks. square_bool (sq 0 k)" "\<forall>k \<in> set ?ks. square_bool (sq 7 k)" "distinct ?ks"
      using row by auto
    note white = promote_row_at [OF assms rows(1,3), of White x]
      and black = promote_row_at [OF b1 rows(2,3), of Black x]
    show ?thesis
    proof (cases "at_square b x")
      case None
      then show ?thesis using white black by (simp add: promoted_def)
    next
      case (Some p)
      with mem have "sq_col x \<in> set ?ks" by simp
      with Some show ?thesis using white black by (cases "pc_color p") (simp_all add: promoted_def)
    qed
  qed
  finally show ?thesis .
qed

section \<open>Tracking the board\<close>

text \<open>The board the match must have once the piece has moved.\<close>

definition has_board :: "(square \<Rightarrow> piece option) \<Rightarrow> match \<Rightarrow> bool" where
  "has_board B m \<longleftrightarrow> m_started m \<and> isReady (m_kind m) m \<and> (\<forall>x. at_square (m_board m) x = B x)"

lemma has_board_playing: "has_board B m \<Longrightarrow> playing m"
  by (simp add: has_board_def playing_def)

lemma lasting_has_board: "lasting (\<lambda>m. has_board B m \<and> m_kind m = k)"
  by (auto simp: lasting_def has_board_def)

text \<open>What the steps of a move leave as it was.\<close>

definition settings :: "match \<Rightarrow> match_kind \<times> color \<times> int \<times> bool" where
  "settings m = (m_kind m, m_currentTurn m, m_columnCount m, m_noSkip m)"

lemma holds_capture_board:
  assumes "at_square (m_board m) (mv_to mv) = Some q" "movable mv m"
  shows "holds (inv_at D A a (\<lambda>m'. m' = m)) (capture_piece a q)
    (\<lambda>_. inv_at D A a (\<lambda>m'. movable mv m' \<and> settings m' = settings m
       \<and> (\<forall>x. at_square (m_board m') x = (if x = mv_to mv then None else at_square (m_board m) x)))) E"
  unfolding capture_piece_def
proof (rule holds_seqs_Cons [OF holds_sends(5) holds_seqs_Cons [OF holds_upd holds_seqs_Nil]], simp)
  fix m' assume ok: "match_ok m'" and m': "m' = m"
  have b: "board_ok (m_board m)" using ok m' by (simp add: match_ok_def)
  let ?m = "m'\<lparr>m_captured := m_captured m' @ [q], m_board := board_erase (m_board m') (Some q)\<rparr>"
  have "match_ok ?m"
    using match_ok_board [OF _ _ board_erase_ok [OF b assms(1)], of "m\<lparr>m_captured := m_captured m' @ [q]\<rparr>"] ok m' assms(2)
    by (simp add: match_ok_captured movable_def)
  then show "links ?m = links m' \<and> match_ok ?m \<and> (movable mv ?m \<and> settings ?m = settings m
       \<and> (\<forall>x. at_square (m_board ?m) x = (if x = mv_to mv then None else at_square (m_board m) x)))
      \<and> (a \<in> A \<or> m_winnerColor ?m = m_winnerColor m')"
    using m' board_erase_at [OF b assms(1)] assms(2) by (auto simp: links_def movable_def settings_def)
qed

lemma holds_move_piece_board:
  assumes "\<forall>x. x \<noteq> mv_to mv \<longrightarrow> at_square (m_board m) x = at_square b x"
  shows "holds (inv_at D A a (\<lambda>m'. m' = m \<and> movable mv m)) (move_piece a mv)
    (\<lambda>_. inv_at D A a (\<lambda>m'. has_board (board_after b mv) m' \<and> settings m' = settings m)) E"
  unfolding move_piece_def
proof (rule holds_match_at)
  fix m' assume ok: "match_ok m'" and "m' = m \<and> movable mv m"
  then have m: "match_ok m" "movable mv m" "m' = m" by auto
  let ?b = "fst (board_move_opt (m_board m) (at_square (m_board m) (mv_from mv)) (mv_to mv))"
  obtain p where p: "at_square (m_board m) (mv_from mv) = Some p" using m(2) by (auto simp: movable_def)
  have mv: "board_ok (m_board m)" "square_bool (mv_to mv)" "mv_from mv \<noteq> mv_to mv"
    using m by (auto simp: match_ok_def movable_def)
  have b: "board_ok ?b" using board_move_ok [OF mv(1) p mv(2,3)] p by (simp add: board_move_opt_def)
  have "at_square (fst (checkPawns ?b)) x = board_after b mv x" for x
    using checkPawns_at [OF b, of x] board_move_at [OF mv(1) p mv(2,3), of x] p assms mv(3)
    by (auto simp: board_move_opt_def board_after_def)
  then have "has_board (board_after b mv) (m\<lparr>m_board := fst (checkPawns ?b)\<rparr>)"
    using m by (simp add: has_board_def movable_def)
  moreover have "match_ok (m\<lparr>m_board := fst (checkPawns ?b)\<rparr>)"
    using m checkPawns_ok [OF b] by (intro match_ok_board) (auto simp: movable_def)
  ultimately have "holds (inv_at D A a (\<lambda>m''. m'' = m))
      (c_modify (upd_match a (\<lambda>m. m\<lparr>m_board := fst (checkPawns ?b)\<rparr>)))
      (\<lambda>_. inv_at D A a (\<lambda>m'. has_board (board_after b mv) m' \<and> settings m' = settings m)) E"
    by (intro holds_upd) (auto simp: links_def settings_def)
  then show "holds (inv_at D A a (\<lambda>m''. m'' = m'))
     (let b = fst (board_move_opt (m_board m') (at_square (m_board m') (mv_from mv)) (mv_to mv));
          (b', ps) = checkPawns b
      in c_bind (c_modify (upd_match a (\<lambda>m. m\<lparr>m_board := b'\<rparr>))) (\<lambda>_. c_ret ps))
     (\<lambda>_. inv_at D A a (\<lambda>m'. has_board (board_after b mv) m' \<and> settings m' = settings m)) E"
    by (auto simp: Let_def m(3) split: prod.splits intro!: holds_bind holds_ret)
qed

section \<open>What a move of two humans does\<close>

definition captures_king :: "match \<Rightarrow> move \<Rightarrow> bool" where
  "captures_king m mv \<longleftrightarrow> (case at_square (m_board m) (mv_to mv) of Some q \<Rightarrow> pc_type q = King | None \<Rightarrow> False)"

text \<open>Everything \<open>makeMove\<close> does before \<open>afterMove\<close> or \<open>end\<close>.\<close>

definition move_prefix :: "nat \<Rightarrow> match \<Rightarrow> move \<Rightarrow> unit chess_op" where
  "move_prefix a m mv =
     c_bind (case at_square (m_board m) (mv_to mv) of Some q \<Rightarrow> capture_piece a q | None \<Rightarrow> c_ret ())
       (\<lambda>_. c_bind (move_piece a mv) (\<lambda>ps. seqs ([sendBoard a, sendAll a (move_made mv)]
          @ (if captures_king m mv then [] else map (\<lambda>s. sendAll a ('':Promote '' @ square_string s)) ps))))"

lemma c_bind_assoc: "c_bind (c_bind f g) h = c_bind f (\<lambda>x. c_bind (g x) h)"
  by (auto simp: fun_eq_iff c_bind_def split: option.splits sum.splits)

lemma c_bind_ret [simp]: "c_bind (c_ret x) f = f x" "c_bind g c_ret = g"
  by (auto simp: fun_eq_iff c_bind_def c_ret_def split: option.splits sum.splits)

lemma move_body_prefix:
  assumes "move_refused m seat mv = None" "get_match a st = m"
  shows "move_body a seat mv later st =
    c_bind (move_prefix a m mv) (\<lambda>_. if captures_king m mv then finish_game a else later) st"
  using assms
  by (cases "at_square (m_board m) (mv_to mv)")
    (auto simp: move_body_def move_prefix_def c_match_def captures_king_def c_bind_assoc simp del: append.simps
      split: if_splits)

lemma holds_move_prefix:
  assumes "match_ok m" "move_refused m seat mv = None"
  shows "holds (inv_at D A a (\<lambda>m'. m' = m)) (move_prefix a m mv)
    (\<lambda>_. inv_at D A a (\<lambda>m'. has_board (board_after (m_board m) mv) m' \<and> settings m' = settings m)) E"
proof -
  let ?Q = "inv_at D A a (\<lambda>m'. has_board (board_after (m_board m) mv) m' \<and> settings m' = settings m)"
  have mov: "movable mv m" by (rule move_acceptedD [OF assms]) (auto simp: movable_def)
  let ?M = "inv_at D A a (\<lambda>m'. movable mv m' \<and> settings m' = settings m
       \<and> (\<forall>x. x \<noteq> mv_to mv \<longrightarrow> at_square (m_board m') x = at_square (m_board m) x))"
  have 1: "holds (inv_at D A a (\<lambda>m'. m' = m))
      (case at_square (m_board m) (mv_to mv) of Some q \<Rightarrow> capture_piece a q | None \<Rightarrow> c_ret ()) (\<lambda>_. ?M) E"
  proof (cases "at_square (m_board m) (mv_to mv)")
    case None
    then show ?thesis using mov by (auto intro!: holds_ret simp: inv_at_def)
  next
    case (Some q)
    have "holds (inv_at D A a (\<lambda>m'. m' = m)) (capture_piece a q) (\<lambda>_. ?M) E"
      by (rule holds_post [OF holds_capture_board [OF Some mov]]) (auto simp: inv_at_def)
    with Some show ?thesis by simp
  qed
  have 2: "holds ?M (move_piece a mv) (\<lambda>_. ?Q) E"
    unfolding holds_def
  proof (intro allI impI)
    fix st st' r assume st: "?M st" and run: "move_piece a mv st = Some (st', r)"
    let ?m = "get_match a st"
    have cells: "\<forall>x. x \<noteq> mv_to mv \<longrightarrow> at_square (m_board ?m) x = at_square (m_board m) x"
      and same: "settings ?m = settings m" and "movable mv ?m"
      using st by (auto simp: inv_at_def)
    then have "inv_at D A a (\<lambda>m'. m' = ?m \<and> movable mv ?m) st" using st by (simp add: inv_at_def)
    from holdsD [OF holds_move_piece_board [OF cells, where E = E] this run]
    show "case r of Inl e \<Rightarrow> E e st' | Inr x \<Rightarrow> ?Q st'" unfolding same .
  qed
  have 3: "holds ?Q (seqs ([sendBoard a, sendAll a (move_made mv)]
          @ (if captures_king m mv then [] else map (\<lambda>s. sendAll a ('':Promote '' @ square_string s)) ps))) (\<lambda>_. ?Q) E" for ps
    by (rule holds_seqs_append,
      rule holds_seqs_Cons [OF holds_sendBoard holds_seqs_Cons [OF holds_sends(5) holds_seqs_Nil]], simp, simp, assumption)
      (auto intro!: holds_seqs_map holds_sends(5) holds_ret)
  show ?thesis unfolding move_prefix_def by (rule holds_bind [OF 1 holds_bind [OF 2 3]])
qed

section \<open>Returning\<close>

definition total :: "'a chess_op \<Rightarrow> bool" where
  "total f \<longleftrightarrow> (\<forall>st. f st \<noteq> None)"

named_theorems total_intros \<open>rules for operations that always return\<close>

lemma total_basic [total_intros]:
  "total (c_ret x)" "total (c_throw e)" "total (c_modify g)"
  by (simp_all add: total_def c_ret_def c_throw_def c_modify_def)

lemma total_with [total_intros]: "(\<And>st. total (f st)) \<Longrightarrow> total (c_with f)"
  by (simp add: total_def c_with_def)

lemma total_match [total_intros]: "(\<And>m. total (f m)) \<Longrightarrow> total (c_match a f)"
  by (simp add: total_def c_match_def)

lemma total_bind [total_intros]: "total f \<Longrightarrow> (\<And>x. total (g x)) \<Longrightarrow> total (c_bind f g)"
  unfolding total_def c_bind_def by (fastforce split: option.splits sum.splits)

lemma total_seqs [total_intros]: "list_all total fs \<Longrightarrow> total (seqs fs)"
  by (induction fs) (auto intro: total_intros)

lemma total_sends [total_intros]:
  "total (sendAll a msg)" "total (sendHost a msg)" "total (sendGuest a msg)" "total (sendSpectators a msg)"
  "total (broadcast msg)" "total (sendBoard a)" "total (send_turn a)"
proof -
  show basic: "total (sendHost a msg)" "total (sendGuest a msg)" "total (sendSpectators a msg)" for msg
    by (auto simp: sendHost_def sendGuest_def sendSpectators_def player_send_def plugin_send_def client_send_def
        list_all_iff intro!: total_intros split: option.splits player_kind.splits)
  show all: "total (sendAll a msg)" for msg
    by (auto simp: sendAll_def sendBoth_def intro!: total_intros basic)
  show "total (broadcast msg)" by (auto simp: broadcast_def client_send_def list_all_iff intro!: total_intros)
  show "total (sendBoard a)" "total (send_turn a)"
    by (auto simp: sendBoard_def send_turn_def intro!: total_match all)
qed

lemma total_move_prefix: "total (move_prefix a m mv)"
  unfolding move_prefix_def
  by (auto simp: capture_piece_def move_piece_def list_all_iff Let_def intro!: total_intros
      split: option.splits prod.splits)

lemma total_finish_game: "total (finish_game a)"
  unfolding finish_game_def match_end_def
  by (auto simp: list_all_iff intro!: total_intros split: option.splits)

lemma frame_move_prefix: "frame (move_prefix a m mv)"
  unfolding move_prefix_def
  by (auto simp: capture_piece_def move_piece_def sendBoard_def list_all_iff Let_def
      intro!: frame_intros frame_modify split: option.splits prod.splits)

lemma returns:
  assumes "total f" "holds P f Q (\<lambda>_ _. False)" "P st"
  obtains st' x where "f st = Some (st', Inr x)" "Q x st'"
proof -
  obtain st' r where run: "f st = Some (st', r)" using assms(1) by (fastforce simp: total_def)
  from holdsD [OF assms(2,3) run] show thesis using run that by (cases r) auto
qed

section \<open>Dice that help\<close>

definition dice_for :: "int \<Rightarrow> nat list" where
  "dice_for c = (if c = 0 then [2, 5] else if c = 7 then [1, 5] else [0, nat (c - 1)])"

lemma dice_for_column:
  assumes "0 \<le> c" "c \<le> 7"
  shows "\<exists>d e. dice_for c = [d, e] \<and> die_column d e = c"
proof -
  consider "c = 0" | "c = 7" | "1 \<le> c" "c \<le> 6" using assms by linarith
  then show ?thesis
  proof cases
    case 3
    have "(c - 1) mod 6 = c - 1" "c mod 8 = c" using 3 by (simp_all add: mod_pos_pos_trivial)
    with 3 show ?thesis by (simp add: dice_for_def die_column_def)
  qed (simp_all add: dice_for_def die_column_def)
qed

lemma roll_columns_dice:
  assumes "distinct cs" "set cs \<subseteq> {0..7}" "set cs \<inter> set columns = {}"
  shows "roll_columns (length cs) columns (concat (map dice_for cs) @ rest) = Some (fold insort_insert cs columns, rest)"
  using assms
proof (induction cs arbitrary: columns)
  case (Cons c cs)
  obtain d e where de: "dice_for c = [d, e]" "die_column d e = c" using dice_for_column [of c] Cons.prems(2) by auto
  have "fresh_column columns (d # e # concat (map dice_for cs) @ rest) = Some (c, concat (map dice_for cs) @ rest)"
    using Cons.prems(3) de(2) by (subst fresh_column_unfold) simp
  moreover have "set cs \<inter> set (insort_insert c columns) = {}"
    using Cons.prems by (auto simp: insort_insert_key_def set_insort_key)
  ultimately show ?case using Cons de(1) by simp
qed simp

lemma set_fold_insort_insert: "set (fold insort_insert cs columns) = set cs \<union> set columns"
  by (induction cs arbitrary: columns) (auto simp: insort_insert_key_def set_insort_key)

text \<open>A roll of \<open>n\<close> columns with a wanted one among them.\<close>

lemma dice_with:
  assumes "0 \<le> c" "c \<le> 7" "1 \<le> n" "n \<le> 8"
  obtains cols ds where "roll_columns n [] ds = Some (cols, [])" "c \<in> set cols"
proof -
  let ?all = "[0, 1, 2, 3, 4, 5, 6, 7] :: int list"
  let ?cs = "c # take (n - 1) (remove1 c ?all)"
  have "c \<in> set ?all" using assms(1,2) by auto
  then have len: "length ?cs = n" using assms(3,4) by (simp add: length_remove1 del: remove1.simps)
  have "distinct (remove1 c ?all)" by (rule distinct_remove1) simp
  then have "distinct ?cs"
    using in_set_takeD [of c "n - 1" "remove1 c ?all"] by (auto simp del: remove1.simps simp: set_remove1_eq)
  moreover have "set ?cs \<subseteq> {0..7}"
    using assms(1,2) set_take_subset [of "n - 1" "remove1 c ?all"] set_remove1_subset [of c ?all]
    by (auto simp del: remove1.simps)
  ultimately have "roll_columns (length ?cs) [] (concat (map dice_for ?cs) @ []) = Some (fold insort_insert ?cs [], [])"
    by (intro roll_columns_dice) auto
  then have "roll_columns n [] (concat (map dice_for ?cs)) = Some (fold insort_insert ?cs [], [])"
    unfolding len append_Nil2 .
  moreover have "c \<in> set (fold insort_insert ?cs [])" unfolding set_fold_insort_insert by simp
  ultimately show thesis by (rule that)
qed

section \<open>The next turn returns\<close>

lemma roll_returns:
  assumes st: "inv_at D A a \<phi> st" and \<phi>: "\<And>m. \<phi> m \<Longrightarrow> m_started m"
    and dice: "roll_columns (nat (m_columnCount (get_match a st))) [] (ch_dice st) = Some (cols, ds)"
  obtains st' where "roll a st = Some (st', Inr ())"
    "inv_at D A a (\<lambda>m. \<exists>m0. \<phi> m0 \<and> m = m0\<lparr>m_columns := cols\<rparr>) st'"
proof -
  let ?m = "get_match a st"
  let ?P = "inv_at D A a (\<lambda>m. \<exists>m0. \<phi> m0 \<and> m = m0\<lparr>m_columns := cols\<rparr>)"
  let ?st = "(upd_match a (\<lambda>m. m\<lparr>m_columns := cols\<rparr>) st)\<lparr>ch_dice := ds\<rparr>"
  have at: "inv_at D A a (\<lambda>m'. m' = ?m) st" using st by (simp add: inv_at_def)
  have m: "match_ok ?m" "\<phi> ?m" using inv_atD [OF st] by auto
  have "match_ok (?m\<lparr>m_columns := cols\<rparr>)" using match_ok_roll [OF m(1) \<phi> [OF m(2)] dice] .
  with m(2) have "?P (upd_match a (\<lambda>m. m\<lparr>m_columns := cols\<rparr>) st)"
    by (intro upd_inv_at [OF at]) (auto simp: links_def)
  then have P: "?P ?st" by simp
  have sent: "holds ?P (c_match a (\<lambda>m. sendAll a (columnMessage m))) (\<lambda>_. ?P) (\<lambda>_ _. False)"
    by (intro holds_match_const holds_sends(5)) simp
  obtain st' u where "c_match a (\<lambda>m. sendAll a (columnMessage m)) ?st = Some (st', Inr u)" "?P st'"
    by (rule returns [OF total_match [OF total_sends(1)] sent P])
  then have st': "c_match a (\<lambda>m. sendAll a (columnMessage m)) ?st = Some (st', Inr ())" "?P st'" by simp_all
  have "roll a st = Some (st', Inr ())"
    using st'(1) dice by (simp add: roll_def c_match_def c_with_def c_bind_def c_modify_def c_ret_def)
  with st'(2) show thesis by (rule that [rotated]) 
qed

definition opponent_can_move :: "match \<Rightarrow> bool" where
  "opponent_can_move m \<longleftrightarrow> anyCanMove (m\<lparr>m_currentTurn := otherColor (m_currentTurn m)\<rparr>)"

lemma canMove_columns:
  assumes "at_rc (m_board m) r c = Some p" "pc_color p = m_currentTurn m" "canMoveTo (m_board m) p \<noteq> []" "c \<in> set cols"
  shows "canMove (m\<lparr>m_columns := cols\<rparr>)"
  using assms by (auto simp: canMove_iff)

lemma next_turn_dice:
  assumes "match_ok m" "m_started m" "m_kind m \<noteq> NullMatch"
    and cols: "roll_columns (nat (m_columnCount m)) [] ds = Some (cols, [])"
    and can: "canMove (m\<lparr>m_currentTurn := otherColor (m_currentTurn m), m_columns := cols\<rparr>)"
    and st: "inv_at D A a (\<lambda>m'. m' = m) st" "ch_dice st = ds"
  shows "next_turn a st \<noteq> None"
proof -
  let ?t = "otherColor (m_currentTurn m)"
  let ?m1 = "m\<lparr>m_currentTurn := ?t\<rparr>"
  let ?P1 = "inv_at D A a (\<lambda>m'. m' = ?m1)"
  have ok1: "match_ok ?m1" using assms(1,3) by (simp add: match_ok_def columns_ok_def seats_ok_def)
  have "\<exists>st2. c_bind (invertTurn a) (\<lambda>_. send_turn a) st = Some (st2, Inr ()) \<and> ?P1 st2 \<and> ch_dice st2 = ds"
  proof -
    let ?f = "c_bind (invertTurn a) (\<lambda>_. send_turn a)"
    have 1: "holds (inv_at D A a (\<lambda>m'. m' = m)) (c_bind (invertTurn a) (\<lambda>_. send_turn a)) (\<lambda>_. ?P1) (\<lambda>_ _. False)"
      unfolding invertTurn_def
      by (rule holds_bind [OF holds_upd [where \<psi> = "\<lambda>m'. m' = ?m1"] holds_send_turn]) (use ok1 in \<open>auto simp: links_def\<close>)
    have 2: "total (c_bind (invertTurn a) (\<lambda>_. send_turn a))"
      unfolding invertTurn_def by (intro total_intros)
    have 3: "frame (c_bind (invertTurn a) (\<lambda>_. send_turn a))"
      unfolding invertTurn_def send_turn_def by (intro frame_intros frame_modify) simp
    from returns [OF 2 1 st(1)] obtain st2 u where "?f st = Some (st2, Inr u)" "?P1 st2" by blast
    with 3 st(2) show ?thesis unfolding frame_def by fastforce
  qed
  then obtain st2 where st2: "c_bind (invertTurn a) (\<lambda>_. send_turn a) st = Some (st2, Inr ())" "?P1 st2" "ch_dice st2 = ds"
    by blast
  have "get_match a st2 = ?m1" using inv_atD(4) [OF st2(2)] .
  then have "roll_columns (nat (m_columnCount (get_match a st2))) [] (ch_dice st2) = Some (cols, [])"
    using cols st2(3) by simp
  from roll_returns [OF st2(2) _ this] assms(2) obtain st3
    where st3: "roll a st2 = Some (st3, Inr ())" "get_match a st3 = ?m1\<lparr>m_columns := cols\<rparr>"
    by (auto simp: inv_at_def)
  show ?thesis
  proof -
    have m: "get_match a st = m" using inv_atD(4) [OF st(1)] .
    have roll_once: "roll_until (rolls_left s) a st2 = Some (st3, Inr ())" for s
      using st3 can by (simp add: rolls_left_def c_bind_def c_match_def c_ret_def)
    have both: "c_bind (invertTurn a) (\<lambda>_. c_bind (send_turn a) f) st = f () st2" for f :: "unit \<Rightarrow> unit chess_op"
    proof -
      have "c_bind (c_bind (invertTurn a) (\<lambda>_. send_turn a)) f st = f () st2"
        unfolding c_bind_def [of "c_bind (invertTurn a) (\<lambda>_. send_turn a)"] by (simp add: st2(1))
      then show ?thesis by (simp only: c_bind_assoc)
    qed
    have until_run: "c_bind (c_with (\<lambda>st. roll_until (rolls_left st) a)) (\<lambda>_. c_ret ()) st2 = Some (st3, Inr ())"
      by (simp add: c_bind_def [of "c_with _"] c_with_def roll_once c_ret_def)
    have skip_run: "c_bind (roll a) (\<lambda>_. c_bind (c_match a (\<lambda>m. if \<not> canMove m
        then seqs [sendAll a '':Skip'', skip_loop k a] else c_ret ())) (\<lambda>_. c_ret ())) st2 = Some (st3, Inr ())" for k
      using st3 can by (simp add: c_bind_def [of "roll a"] c_bind_def [of "c_match _ _"] c_match_def c_ret_def)
    show ?thesis
      using m until_run skip_run by (simp add: next_turn_def c_match_def c_with_def rolls_left_def both)
  qed
qed

text \<open>
  The new turn returns for some dice whenever the player whose turn comes has a piece that can
  move; the dice depend only on the board, the turn and the number of columns.
\<close>

lemma helpful_dice:
  assumes "opponent_can_move m0" "1 \<le> m_columnCount m0" "m_columnCount m0 \<le> 8"
  obtains cols ds where "roll_columns (nat (m_columnCount m0)) [] ds = Some (cols, [])"
    "\<And>m. m_board m = m_board m0 \<Longrightarrow> m_currentTurn m = m_currentTurn m0 \<Longrightarrow>
      canMove (m\<lparr>m_currentTurn := otherColor (m_currentTurn m), m_columns := cols\<rparr>)"
proof -
  let ?t = "otherColor (m_currentTurn m0)"
  obtain c r p where p: "at_rc (m_board m0) r c = Some p" "pc_color p = ?t" "canMoveTo (m_board m0) p \<noteq> []"
    using assms(1) unfolding opponent_can_move_def anyCanMove_def list_ex_iff case_option_ex by auto
  have "square_bool (sq r c)" using p(1) unfolding at_rc_square by (rule at_SomeD)
  then have c: "0 \<le> c" "c \<le> 7" by (simp_all add: square_bool_def)
  have n: "1 \<le> nat (m_columnCount m0)" "nat (m_columnCount m0) \<le> 8" using assms(2,3) by auto
  obtain cols ds where cols: "roll_columns (nat (m_columnCount m0)) [] ds = Some (cols, [])" "c \<in> set cols"
    by (rule dice_with [OF c n])
  have "canMove (m\<lparr>m_currentTurn := otherColor (m_currentTurn m), m_columns := cols\<rparr>)"
    if "m_board m = m_board m0" "m_currentTurn m = m_currentTurn m0" for m
    using canMove_columns [of "m\<lparr>m_currentTurn := otherColor (m_currentTurn m)\<rparr>" r c p cols] p cols(2) that by simp
  with cols(1) show thesis by (rule that)
qed

section \<open>The whole move\<close>

definition position_after :: "board \<Rightarrow> move \<Rightarrow> board" where
  "position_after b mv = \<lparr>bd_pieces = map (\<lambda>r. map (\<lambda>c. board_after b mv (sq r c)) [0..7]) [0..7]\<rparr>"

lemma position_afterI:
  assumes "board_shape b'" "\<forall>x. at_square b' x = board_after b mv x"
  shows "b' = position_after b mv"
proof (rule board_eqI [OF assms(1)])
  show "board_shape (position_after b mv)" by (simp add: board_shape_def position_after_def list_all_iff)
  fix s assume on: "square_bool s"
  then have "at_square (position_after b mv) s = board_after b mv s"
    by (cases s) (auto simp: at_on_board square_bool_def position_after_def nth_upto)
  with assms(2) show "at_square b' s = at_square (position_after b mv) s" by simp
qed

lemma holds_finish_game_of:
  assumes "match_ok m" "playing m"
  shows "holds (inv_at D {} a (\<lambda>m'. m' = m)) (finish_game a)
    (\<lambda>_ st. chess_inv D {} st \<and> get_match a st = m\<lparr>m_winnerColor := Some (m_currentTurn m), m_over := True\<rparr>) E"
  unfolding finish_game_def
proof (rule holds_match_at)
  fix m' assume m': "m' = m"
  let ?w = "m\<lparr>m_winnerColor := Some (m_currentTurn m)\<rparr>"
  have seat: "seat_player m (seat_of m (m_currentTurn m)) \<noteq> None"
    using isReady_seat assms by (simp add: playing_def)
  have "holds (inv_at D {a} a (\<lambda>m'. m' = m)) (c_modify (upd_match a (\<lambda>m. m\<lparr>m_winnerColor := Some (m_currentTurn m)\<rparr>)))
      (\<lambda>_. inv_at D {a} a (\<lambda>m'. m' = ?w)) E"
    by (rule holds_upd) (auto simp: links_def match_ok_def columns_ok_def seats_ok_def)
  then have won: "holds (inv_at D {} a (\<lambda>m'. m' = m)) (c_modify (upd_match a (\<lambda>m. m\<lparr>m_winnerColor := Some (m_currentTurn m)\<rparr>)))
      (\<lambda>_. inv_at D {a} a (\<lambda>m'. m' = ?w)) E"
    by (rule holds_pre) (auto simp: inv_at_def intro: inv_mono)
  show "holds (inv_at D {} a (\<lambda>m''. m'' = m')) (seqs
     [c_modify (upd_match a (\<lambda>m. m\<lparr>m_winnerColor := Some (m_currentTurn m)\<rparr>)),
      (if seat_player m' (seat_of m' (m_currentTurn m')) = None
       then c_throw (UndefinedBehaviour ''empty optional'')
       else match_end a (Some (seat_of m' (m_currentTurn m'))))])
     (\<lambda>_ st. chess_inv D {} st \<and> get_match a st = m\<lparr>m_winnerColor := Some (m_currentTurn m), m_over := True\<rparr>) E"
    unfolding m' seqs.simps using seat holds_match_end_of [of D a ?w "Some (seat_of m (m_currentTurn m))" E]
    by (auto intro!: holds_bind [OF won] holds_ret elim!: holds_bind)
qed

text \<open>What a finished call of \<open>makeMove\<close> by one of two humans has done to the match.\<close>

definition move_done :: "match \<Rightarrow> move \<Rightarrow> match \<Rightarrow> bool" where
  "move_done m mv m' \<longleftrightarrow> m_board m' = position_after (m_board m) mv
     \<and> (if captures_king m mv then m_over m' \<and> m_winnerColor m' = Some (m_currentTurn m)
        else \<not> m_over m' \<and> canMove m'
          \<and> (m_noSkip m \<longrightarrow> m_currentTurn m' = otherColor (m_currentTurn m)))"

lemma holds_next_turn_of:
  assumes "match_ok m" "playing m" "m_kind m \<noteq> NullMatch"
  shows "holds (inv_at D A a (\<lambda>m'. m' = m)) (next_turn a)
    (\<lambda>_. inv_at D A a (\<lambda>m'. m_board m' = m_board m \<and> canMove m'
       \<and> (m_noSkip m \<longrightarrow> m_currentTurn m' = otherColor (m_currentTurn m)))) E"
proof (cases "m_noSkip m")
  case True
  let ?t = "otherColor (m_currentTurn m)"
  let ?\<phi> = "\<lambda>m'. m_started m' \<and> m_board m' = m_board m \<and> m_currentTurn m' = ?t"
  have roll: "rolling ?\<phi>" by (simp add: rolling_def)
  have turned: "holds (inv_at D A a (\<lambda>m'. m' = m)) (invertTurn a) (\<lambda>_. inv_at D A a ?\<phi>) E"
    unfolding invertTurn_def
    by (rule holds_upd) (use assms in \<open>auto simp: links_def playing_def match_ok_def columns_ok_def seats_ok_def\<close>)
  have "holds (inv_at D A a (\<lambda>m'. m' = m))
      (seqs [invertTurn a, send_turn a, c_with (\<lambda>st. roll_until (rolls_left st) a)])
      (\<lambda>_. inv_at D A a (\<lambda>m'. ?\<phi> m' \<and> canMove m')) E"
    by (rule holds_seqs_Cons [OF turned], rule holds_seqs_Cons [OF holds_send_turn], simp,
      rule holds_seqs_Cons [OF holds_with_const [OF holds_roll_until [OF roll]]], rule holds_seqs_Nil)
  with True show ?thesis
    unfolding next_turn_def
    by (intro holds_match_at) (auto elim!: holds_post simp: inv_at_def)
next
  case False
  let ?\<phi> = "\<lambda>m'. m_started m' \<and> m_kind m' \<noteq> NullMatch \<and> m_board m' = m_board m"
  have "lasting ?\<phi>" by (simp add: lasting_def)
  then have "holds (inv_at D A a ?\<phi>) (next_turn a) (\<lambda>_. inv_at D A a (\<lambda>m'. ?\<phi> m' \<and> canMove m')) E"
    by (rule holds_next_turn) simp
  then show ?thesis
    by (rule holds_pre [OF holds_post]) (use assms False in \<open>auto simp: inv_at_def playing_def\<close>)
qed

lemma holds_human_move:
  assumes "match_ok m" "m_kind m = HumanMatch" "move_refused m seat mv = None"
  shows "holds (inv_at {} {} a (\<lambda>m'. m' = m)) (makeMove n a seat mv)
    (\<lambda>_ st. chess_inv {} {} st \<and> move_done m mv (get_match a st)) (\<lambda>_ _. False)"
proof (cases n)
  case 0
  then show ?thesis by (simp add: holds_diverge)
next
  case (Suc k)
  let ?R = "\<lambda>st. chess_inv {} {} st \<and> move_done m mv (get_match a st)"
  let ?\<phi> = "\<lambda>m'. has_board (board_after (m_board m) mv) m' \<and> settings m' = settings m"
  let ?later = "if captures_king m mv then finish_game a else afterMove (makeMove k a Guest) a"
  have later: "holds (inv_at {} {} a ?\<phi>) ?later (\<lambda>_. ?R) (\<lambda>_ _. False)"
    unfolding holds_def
  proof (intro allI impI)
    fix st st' r assume st: "inv_at {} {} a ?\<phi> st" and run: "?later st = Some (st', r)"
    let ?m = "get_match a st"
    note at = inv_atD [OF st]
    have here: "inv_at {} {} a (\<lambda>m'. m' = ?m) st" using st by (simp add: inv_at_def)
    have m: "playing ?m" "m_kind ?m = HumanMatch" "m_currentTurn ?m = m_currentTurn m" "m_noSkip ?m = m_noSkip m"
      using at(4) assms(2) by (auto simp: settings_def dest: has_board_playing)
    have b: "m_board ?m = position_after (m_board m) mv"
      using at(4,5) by (intro position_afterI) (auto simp: has_board_def match_ok_def)
    show "case r of Inl e \<Rightarrow> False | Inr _ \<Rightarrow> ?R st'"
    proof (cases "captures_king m mv")
      case True
      with run have "finish_game a st = Some (st', r)" by simp
      from holdsD [OF holds_finish_game_of [OF at(5) m(1), where E = "\<lambda>_ _. False"] here this] b m True
      show ?thesis by (auto simp: move_done_def split: sum.splits)
    next
      case False
      with run m(2) have "next_turn a st = Some (st', r)" by (simp add: afterMove_def c_match_def)
      from holdsD [OF holds_next_turn_of [OF at(5) m(1), where E = "\<lambda>_ _. False"] here this] b m False
      show ?thesis by (auto simp: move_done_def inv_at_def split: sum.splits)
    qed
  qed
  have "holds (inv_at {} {} a (\<lambda>m'. m' = m)) (c_bind (move_prefix a m mv) (\<lambda>_. ?later)) (\<lambda>_. ?R) (\<lambda>_ _. False)"
    by (rule holds_bind [OF holds_move_prefix [OF assms(1,3)] later])
  then show ?thesis
    unfolding Suc makeMove.simps holds_def
    by (auto simp: move_body_prefix [OF assms(3)] inv_at_def)
qed

lemma human_move_returns:
  assumes "inv_at {} {} a (\<lambda>m'. m' = m) st" "m_kind m = HumanMatch" "move_refused m seat mv = None"
    and goes_on: "captures_king m mv \<or> opponent_can_move (m\<lparr>m_board := position_after (m_board m) mv\<rparr>)"
  shows "\<exists>ds. makeMove (Suc n) a seat mv (st\<lparr>ch_dice := ds\<rparr>) \<noteq> None"
proof -
  let ?\<phi> = "\<lambda>m'. has_board (board_after (m_board m) mv) m' \<and> settings m' = settings m"
  let ?later = "if captures_king m mv then finish_game a else afterMove (makeMove n a Guest) a"
  have ok: "match_ok m" using inv_atD(4,5) [OF assms(1)] by simp
  have run: "makeMove (Suc n) a seat mv (st\<lparr>ch_dice := ds\<rparr>)
      = c_bind (move_prefix a m mv) (\<lambda>_. ?later) (st\<lparr>ch_dice := ds\<rparr>)" for ds
    using assms(1,3) by (simp add: move_body_prefix inv_at_def)
  have prefix: "\<exists>st1. move_prefix a m mv (st\<lparr>ch_dice := ds\<rparr>) = Some (st1, Inr ()) \<and> inv_at {} {} a ?\<phi> st1 \<and> ch_dice st1 = ds" for ds
  proof -
    have "inv_at {} {} a (\<lambda>m'. m' = m) (st\<lparr>ch_dice := ds\<rparr>)" using assms(1) by simp
    from returns [OF total_move_prefix holds_move_prefix [OF ok assms(3)] this] obtain st1 u
      where "move_prefix a m mv (st\<lparr>ch_dice := ds\<rparr>) = Some (st1, Inr u)" "inv_at {} {} a ?\<phi> st1" by blast
    with frame_move_prefix [of a m mv] show ?thesis unfolding frame_def by fastforce
  qed
  show ?thesis
  proof (cases "captures_king m mv")
    case True
    have "total (c_bind (move_prefix a m mv) (\<lambda>_. finish_game a))"
      by (intro total_bind total_move_prefix total_finish_game)
    with True show ?thesis unfolding run total_def by auto
  next
    case False
    let ?m0 = "m\<lparr>m_board := position_after (m_board m) mv\<rparr>"
    have count: "opponent_can_move ?m0" "1 \<le> m_columnCount ?m0" "m_columnCount ?m0 \<le> 8"
      using ok goes_on False by (simp_all add: match_ok_def columns_ok_def)
    obtain cols ds where cols: "roll_columns (nat (m_columnCount ?m0)) [] ds = Some (cols, [])"
      and can: "\<And>m'. m_board m' = m_board ?m0 \<Longrightarrow> m_currentTurn m' = m_currentTurn ?m0 \<Longrightarrow>
        canMove (m'\<lparr>m_currentTurn := otherColor (m_currentTurn m'), m_columns := cols\<rparr>)"
      by (rule helpful_dice [OF count], rule that)
    obtain st1 where st1: "move_prefix a m mv (st\<lparr>ch_dice := ds\<rparr>) = Some (st1, Inr ())"
      "inv_at {} {} a ?\<phi> st1" "ch_dice st1 = ds" using prefix by blast
    let ?m = "get_match a st1"
    note at = inv_atD [OF st1(2)]
    have b: "m_board ?m = position_after (m_board m) mv"
      using at(4,5) by (intro position_afterI) (auto simp: has_board_def match_ok_def)
    have s: "m_kind ?m = HumanMatch" "m_currentTurn ?m = m_currentTurn m" "m_columnCount ?m = m_columnCount m" "m_started ?m"
      using at(4) assms(2) by (auto simp: settings_def has_board_def)
    have "inv_at {} {} a (\<lambda>m'. m' = ?m) st1" using st1(2) by (simp add: inv_at_def)
    then have "next_turn a st1 \<noteq> None"
      using next_turn_dice [OF at(5) s(4) _ _ can [of ?m] _ st1(3)] b s cols by simp
    then have "makeMove (Suc n) a seat mv (st\<lparr>ch_dice := ds\<rparr>) \<noteq> None"
      unfolding run using st1(1) False s(1) by (simp add: c_bind_def afterMove_def c_match_def)
    then show ?thesis by blast
  qed
qed


text \<open>Two clients connect; one opens a match with three columns and the other joins.\<close>

declare split_loop.simps [code]

definition greet :: "int \<Rightarrow> chess \<Rightarrow> chess" where
  "greet client st = snd (snd (chess_handleConnect client [''probchess''] True (st\<lparr>ch_live := client # ch_live st\<rparr>)))"

definition say :: "int \<Rightarrow> string \<Rightarrow> nat list \<Rightarrow> chess \<Rightarrow> chess" where
  "say client message ds st = fst (the (chess_handleMessage client message True (st\<lparr>ch_dice := ds\<rparr>)))"

lemma greet_step: "client \<notin> set (ch_live st) \<Longrightarrow> chess_step st (greet client st)"
  unfolding greet_def by (erule chess_step.Connected) (simp add: prod_eq_iff)

lemma say_step:
  assumes "client \<in> set (ch_clients st)" "chess_handleMessage client message True (st\<lparr>ch_dice := ds\<rparr>) \<noteq> None"
  shows "chess_step st (say client message ds st)"
  using assms unfolding say_def by (auto intro: chess_step.Message)

definition chess_hall :: chess where
  "chess_hall = greet 2 (greet 1 chess_init)"

definition chess_open :: chess where
  "chess_open = say 1 '':Create m 3 white public noskip human'' [] chess_hall"

definition chess_game :: chess where
  "chess_game = say 2 '':Join m'' [2, 5, 0, 0, 0, 1] chess_open"

lemma chess_game_reachable: "chess_step\<^sup>*\<^sup>* chess_init chess_game"
proof -
  have "chess_step chess_init (greet 1 chess_init)" by (rule greet_step) code_simp
  moreover have "chess_step (greet 1 chess_init) chess_hall" unfolding chess_hall_def by (rule greet_step) code_simp
  moreover have "chess_step chess_hall chess_open" unfolding chess_open_def by (rule say_step) code_simp+
  moreover have "chess_step chess_open chess_game" unfolding chess_game_def by (rule say_step) code_simp+
  ultimately show ?thesis by (meson rtranclp.rtrancl_into_rtrancl rtranclp.rtrancl_refl)
qed

abbreviation pawn_forward :: move where
  "pawn_forward \<equiv> \<lparr>mv_from = sq 6 1, mv_to = sq 5 1\<rparr>"


section \<open>Matches that cannot go on\<close>

text \<open>With \<open>noSkip\<close>, a player without any move is asked to roll for ever, whatever the dice show.\<close>

lemma anyCanMove_columns [simp]: "anyCanMove (m\<lparr>m_columns := cs\<rparr>) = anyCanMove m"
  by (simp add: anyCanMove_def cong: option.case_cong)

lemma canMove_any:
  assumes "canMove m"
  shows "anyCanMove m"
proof -
  obtain c r p where p: "at_rc (m_board m) r c = Some p" "pc_color p = m_currentTurn m" "canMoveTo (m_board m) p \<noteq> []"
    using assms by (auto simp: canMove_iff)
  have "square_bool (sq r c)" using p(1) unfolding at_rc_square by (rule at_SomeD)
  then have "r \<in> {0..board_height - 1}" "c \<in> {0..board_width - 1}"
    by (simp_all add: square_bool_def board_height_def board_width_def)
  with p show ?thesis unfolding anyCanMove_def list_ex_iff case_option_ex set_upto by blast
qed

lemma roll_until_stuck:
  assumes "inv_at D A a (\<lambda>m. m_started m \<and> \<not> anyCanMove m) st"
  shows "roll_until n a st = None"
proof -
  let ?\<phi> = "\<lambda>m. m_started m \<and> \<not> anyCanMove m"
  have "rolling ?\<phi>" by (simp add: rolling_def)
  note roll = holds_roll_until [OF this, where E = "\<lambda>_ _. False"]
  show ?thesis
  proof (rule ccontr)
    assume "roll_until n a st \<noteq> None"
    then obtain st' r where "roll_until n a st = Some (st', r)" by auto
    from holdsD [OF roll assms this] have "inv_at D A a (\<lambda>m. ?\<phi> m \<and> canMove m) st'" by (cases r) auto
    then show False using inv_atD(4) canMove_any by blast
  qed
qed

text \<open>
  The computer of an \<open>AIMatch\<close> moves only after its opponent has moved.  When the host is black
  the match waits for ever: white, the computer, is to begin, and every move of the host is refused.
\<close>

lemma black_host_stuck:
  assumes "m_kind m = AIMatch" "m_hostColor m = Black" "m_currentTurn m = White" "isReady AIMatch m"
    and "m_winnerColor m = None" "m_host m = Some p" "pl_kind p = HumanPlayer c" "m_guest m \<noteq> None"
  shows "move_refused m Host mv = Some (ChessError ''Invalid turn.'')"
  using assms
  by (auto simp: move_refused_def currentPlayer_def seat_of_def is_client_def split: if_splits)

end
