(* ===== verification/Mt_Queue.thy ===== *)
theory Mt_Queue
  imports Algiz_Prelude
begin

text \<open>
  The thread-safe queue \<open>MTQueue\<close> (\<open>src/include/threading/MTQueue.h\<close>), a \<open>std::deque\<close> behind a
  mutex.  Every member function takes the mutex before it touches the deque and releases it when
  it returns, so a call is one step of the calling thread on a list.  \<open>front\<close>, \<open>back\<close>, \<open>pop\<close> and
  \<open>take\<close> do not test for an empty queue, where the deque's behaviour is undefined; \<open>tryTake\<close> does.

  The interface the thread pool uses is the locale \<open>work_queue\<close>: what is put in comes out once, in
  order, unless the queue is cleared.
\<close>

section \<open>Operations\<close>

definition mtq_front :: "'a list \<Rightarrow> 'a result" where
  "mtq_front q = (case q of [] \<Rightarrow> Inl (UndefinedBehaviour ''front of an empty deque'') | x # _ \<Rightarrow> Inr x)"

definition mtq_back :: "'a list \<Rightarrow> 'a result" where
  "mtq_back q = (if q = [] then Inl (UndefinedBehaviour ''back of an empty deque'') else Inr (last q))"

definition mtq_pop :: "'a list \<Rightarrow> 'a list result" where
  "mtq_pop q = (case q of [] \<Rightarrow> Inl (UndefinedBehaviour ''pop_front of an empty deque'') | _ # q' \<Rightarrow> Inr q')"

definition mtq_take :: "'a list \<Rightarrow> ('a \<times> 'a list) result" where
  "mtq_take q = rbind (mtq_front q) (\<lambda>out. rmap (\<lambda>q'. (out, q')) (mtq_pop q))"

definition mtq_tryTake :: "'a list \<Rightarrow> 'a option \<times> 'a list" where
  "mtq_tryTake q = (case q of [] \<Rightarrow> (None, q) | out # q' \<Rightarrow> (Some out, q'))"

definition mtq_push :: "'a \<Rightarrow> 'a list \<Rightarrow> 'a list" where
  "mtq_push x q = q @ [x]"

text \<open>\<open>emplace_back\<close> gives a reference; the return type \<open>auto\<close> makes it a copy of the new element.\<close>

definition mtq_emplace :: "'a \<Rightarrow> 'a list \<Rightarrow> 'a \<times> 'a list" where
  "mtq_emplace x q = (x, q @ [x])"

definition mtq_empty :: "'a list \<Rightarrow> bool" where
  "mtq_empty q \<longleftrightarrow> q = []"

definition mtq_clear :: "'a list \<Rightarrow> 'a list" where
  "mtq_clear q = []"

definition mtq_size :: "'a list \<Rightarrow> nat" where
  "mtq_size q = length q"

text \<open>A deque that was moved from is empty.\<close>

definition mtq_steal :: "'a list \<Rightarrow> 'a list \<times> 'a list" where
  "mtq_steal q = (q, [])"

section \<open>The contract\<close>

text \<open>
  A history of a queue: the items pushed so far, and the items that have left it, each with
  whether it was taken (or dropped by \<open>clear\<close>).
\<close>

definition queue_log :: "'a list \<Rightarrow> ('a \<times> bool) list \<Rightarrow> 'a list \<Rightarrow> bool" where
  "queue_log pushed settled content \<longleftrightarrow> pushed = map fst settled @ content"

locale work_queue =
  fixes content :: "'q \<Rightarrow> 'a list"
    and push :: "'a \<Rightarrow> 'q \<Rightarrow> 'q"
    and tryTake :: "'q \<Rightarrow> 'a option \<times> 'q"
    and clear :: "'q \<Rightarrow> 'q"
    and size :: "'q \<Rightarrow> nat"
  assumes content_push: "content (push x q) = content q @ [x]"
    and take_none: "fst (tryTake q) = None \<longleftrightarrow> content q = []"
    and take_some: "fst (tryTake q) = Some x \<Longrightarrow> content q = x # content (snd (tryTake q))"
    and take_empty: "content q = [] \<Longrightarrow> content (snd (tryTake q)) = []"
    and content_clear: "content (clear q) = []"
    and size_content: "size q = length (content q)"
begin

lemma log_push: "queue_log pushed settled (content q) \<Longrightarrow> queue_log (pushed @ [x]) settled (content (push x q))"
  by (simp add: queue_log_def content_push)

lemma log_take:
  "queue_log pushed settled (content q) \<Longrightarrow> tryTake q = (Some x, q') \<Longrightarrow>
   queue_log pushed (settled @ [(x, True)]) (content q')"
  using take_some [of q x] by (simp add: queue_log_def)

lemma log_miss:
  "queue_log pushed settled (content q) \<Longrightarrow> tryTake q = (None, q') \<Longrightarrow>
   content q = [] \<and> queue_log pushed settled (content q')"
  using take_none [of q] take_empty [of q] by (simp add: queue_log_def)

lemma log_clear:
  "queue_log pushed settled (content q) \<Longrightarrow>
   queue_log pushed (settled @ map (\<lambda>x. (x, False)) (content q)) (content (clear q))"
  by (simp add: queue_log_def content_clear comp_def)

text \<open>Taking until nothing is left gives everything in order, in as many takes as the size says.\<close>

fun drain :: "nat \<Rightarrow> 'q \<Rightarrow> 'a list" where
  "drain 0 q = []"
| "drain (Suc n) q = (case tryTake q of (None, q') \<Rightarrow> [] | (Some x, q') \<Rightarrow> x # drain n q')"

lemma drain_content: "drain (size q) q = content q"
proof (induction "content q" arbitrary: q)
  case Nil
  then show ?case by (simp add: size_content)
next
  case (Cons x xs)
  obtain y q' where t: "tryTake q = (y, q')" by fastforce
  have "y \<noteq> None" using take_none [of q] Cons.hyps(2) t by auto
  with Cons.hyps(2) take_some [of q] t have y: "y = Some x" "xs = content q'" by fastforce+
  then have "size q = Suc (size q')" using Cons.hyps(2) [symmetric] by (simp add: size_content)
  then show ?case using Cons.hyps t y by simp
qed

end

interpretation mtq: work_queue "\<lambda>q. q" mtq_push mtq_tryTake mtq_clear mtq_size
  by unfold_locales
    (auto simp: mtq_push_def mtq_tryTake_def mtq_clear_def mtq_size_def split: list.splits)

text \<open>The unchecked operations agree with \<open>tryTake\<close> on a queue that has something in it.\<close>

lemma mtq_take_tryTake:
  "mtq_take q = (case mtq_tryTake q of
     (Some x, q') \<Rightarrow> Inr (x, q')
   | (None, _) \<Rightarrow> Inl (UndefinedBehaviour ''front of an empty deque''))"
  by (cases q) (simp_all add: mtq_take_def mtq_front_def mtq_pop_def mtq_tryTake_def)

end
