(* ===== verification/Thread_Pool.thy ===== *)
theory Thread_Pool
  imports Mt_Queue "HOL-Library.Multiset"
begin

text \<open>
  The thread pool (\<open>src/src/threading/ThreadPool.cpp\<close>) as a transition system.  Threads of the
  pool and calls of \<open>start\<close>, \<open>add\<close>, \<open>join\<close> and \<open>detach\<close> by other threads, jobs included, are
  interleaved one access to a shared object at a time: an atomic flag or counter, the queue, the
  mutex, the condition variable.  A wait on the condition variable evaluates its predicate with
  the mutex held, one atomic after the other, and then releases the mutex and falls asleep in
  one step; \<open>notify_one\<close> wakes some thread that is asleep, and a thread may wake up for no reason.

  The pool refines a job board on which every submitted job is begun at most once, in the order
  of submission.  That each job is begun at all does not hold: \<open>stranded_keeps\<close> and
  \<open>pool_strands_job\<close> show a pool of one thread that sleeps while a job waits.
\<close>

section \<open>State\<close>

datatype 'j worker_pc =
    Starting | Testing | Locking | Check_joining | Check_ready | Check_count | Blocking | Asleep
  | Unlocking | Woken | Trying | Taken 'j | Running 'j | Counting | Notifying | Missing | Ended

record 'j pool_thread =
  w_pc :: "'j worker_pc"
  w_index :: nat
  w_last :: size_t

text \<open>
  Where a call is: the constructor names the access it makes next.  The flag of the \<open>Stop\<close>
  calls tells \<open>join\<close> from \<open>detach\<close>; the destructor calls \<open>join\<close>.
\<close>

datatype 'j pool_call =
    Add_active 'j | Add_push 'j | Add_ready | Add_notify
  | Start_joining | Start_active | Start_assert | Start_spawn nat
  | Stop_active bool | Stop_joining bool | Stop_clear bool | Stop_notify bool
  | Stop_threads bool nat | Stop_pool | Stop_done
  | Returned bool | Aborted

text \<open>
  \<open>tp_threads\<close> are all threads ever started, \<open>tp_pool\<close> the handles of the vector \<open>pool\<close>.  The last
  three components record what happened: the jobs pushed, those that left the queue with whether
  they were taken, and those that ran to their end with the \<open>thread_index\<close> they were given.
\<close>

record 'j pool =
  tp_size :: nat
  tp_workQueue :: "'j list"
  tp_workMutex :: "nat option"
  tp_threads :: "'j pool_thread list"
  tp_pool :: "nat list"
  tp_active :: bool
  tp_joining :: bool
  tp_newJobReady :: bool
  tp_jobsDone :: size_t
  tp_calls :: "'j pool_call list"
  tp_submitted :: "'j list"
  tp_settled :: "('j \<times> bool) list"
  tp_finished :: "('j \<times> nat) list"

definition new_pool :: "nat \<Rightarrow> 'j pool" where
  "new_pool n = \<lparr>tp_size = n, tp_workQueue = [], tp_workMutex = None, tp_threads = [], tp_pool = [],
     tp_active = False, tp_joining = False, tp_newJobReady = False, tp_jobsDone = 0, tp_calls = [],
     tp_submitted = [], tp_settled = [], tp_finished = []\<rparr>"

definition set_worker :: "nat \<Rightarrow> 'j pool_thread \<Rightarrow> 'j pool \<Rightarrow> 'j pool" where
  "set_worker i w p = p\<lparr>tp_threads := (tp_threads p)[i := w]\<rparr>"

definition goto :: "nat \<Rightarrow> 'j worker_pc \<Rightarrow> 'j pool \<Rightarrow> 'j pool" where
  "goto i pc p = set_worker i ((tp_threads p ! i)\<lparr>w_pc := pc\<rparr>) p"

definition set_call :: "nat \<Rightarrow> 'j pool_call \<Rightarrow> 'j pool \<Rightarrow> 'j pool" where
  "set_call k c p = p\<lparr>tp_calls := (tp_calls p)[k := c]\<rparr>"

section \<open>The condition variable\<close>

definition asleep :: "'j pool_thread \<Rightarrow> bool" where
  "asleep w \<longleftrightarrow> (case w_pc w of Asleep \<Rightarrow> True | _ \<Rightarrow> False)"

text \<open>\<open>pick\<close> is the thread the system wakes; nobody when nobody is asleep.\<close>

definition notify_one :: "nat option \<Rightarrow> 'j pool \<Rightarrow> 'j pool option" where
  "notify_one pick p =
     (case pick of
        None \<Rightarrow> if list_ex asleep (tp_threads p) then None else Some p
      | Some i \<Rightarrow>
          if i < length (tp_threads p) \<and> asleep (tp_threads p ! i) then Some (goto i Locking p) else None)"

definition notify_all :: "'j pool \<Rightarrow> 'j pool" where
  "notify_all p = p\<lparr>tp_threads :=
     map (\<lambda>w. if asleep w then w\<lparr>w_pc := Locking\<rparr> else w) (tp_threads p)\<rparr>"

section \<open>The threads of the pool\<close>

definition worker_step :: "nat \<Rightarrow> nat option \<Rightarrow> 'j pool \<Rightarrow> 'j pool option" where
  "worker_step i pick p =
     (if i < length (tp_threads p) then
        let w = tp_threads p ! i in
        case w_pc w of
          Starting \<Rightarrow> Some (set_worker i (w\<lparr>w_last := tp_jobsDone p, w_pc := Testing\<rparr>) p)
        | Testing \<Rightarrow> Some (goto i (if tp_active p then Locking else Ended) p)
        | Locking \<Rightarrow>
            if tp_workMutex p = None then Some (goto i Check_joining (p\<lparr>tp_workMutex := Some i\<rparr>)) else None
        | Check_joining \<Rightarrow> Some (goto i (if tp_joining p then Unlocking else Check_ready) p)
        | Check_ready \<Rightarrow> Some (goto i (if tp_newJobReady p then Unlocking else Check_count) p)
        | Check_count \<Rightarrow> Some (goto i (if w_last w < tp_jobsDone p then Unlocking else Blocking) p)
        | Blocking \<Rightarrow> Some (goto i Asleep (p\<lparr>tp_workMutex := None\<rparr>))
        | Asleep \<Rightarrow> None
        | Unlocking \<Rightarrow> Some (goto i Woken (p\<lparr>tp_workMutex := None\<rparr>))
        | Woken \<Rightarrow> Some (goto i (if tp_joining p then Ended else Trying) p)
        | Trying \<Rightarrow>
            (case mtq_tryTake (tp_workQueue p) of
               (Some job, q) \<Rightarrow> Some (goto i (Taken job)
                 (p\<lparr>tp_workQueue := q, tp_settled := tp_settled p @ [(job, True)]\<rparr>))
             | (None, q) \<Rightarrow> Some (goto i Missing (p\<lparr>tp_workQueue := q\<rparr>)))
        | Taken job \<Rightarrow> Some (goto i (Running job) (p\<lparr>tp_newJobReady := False\<rparr>))
        | Running job \<Rightarrow> Some (goto i Counting (p\<lparr>tp_finished := tp_finished p @ [(job, w_index w)]\<rparr>))
        | Counting \<Rightarrow>
            Some (set_worker i (w\<lparr>w_last := tp_jobsDone p + 1, w_pc := Notifying\<rparr>)
              (p\<lparr>tp_jobsDone := tp_jobsDone p + 1\<rparr>))
        | Notifying \<Rightarrow> map_option (goto i Testing) (notify_one pick p)
        | Missing \<Rightarrow> Some (set_worker i (w\<lparr>w_last := tp_jobsDone p, w_pc := Testing\<rparr>) p)
        | Ended \<Rightarrow> None
      else None)"

section \<open>Calls\<close>

definition spawn_thread :: "nat \<Rightarrow> 'j pool \<Rightarrow> 'j pool" where
  "spawn_thread thread_index p = p\<lparr>
     tp_threads := tp_threads p @ [\<lparr>w_pc = Starting, w_index = thread_index, w_last = 0\<rparr>],
     tp_pool := tp_pool p @ [length (tp_threads p)]\<rparr>"

definition ended :: "'j pool_thread \<Rightarrow> bool" where
  "ended w \<longleftrightarrow> (case w_pc w of Ended \<Rightarrow> True | _ \<Rightarrow> False)"

definition call_step :: "nat \<Rightarrow> nat option \<Rightarrow> 'j pool \<Rightarrow> 'j pool option" where
  "call_step k pick p =
     (if k < length (tp_calls p) then
        case tp_calls p ! k of
          Add_active job \<Rightarrow> Some (set_call k (if tp_active p then Add_push job else Returned False) p)
        | Add_push job \<Rightarrow> Some (set_call k Add_ready
            (p\<lparr>tp_workQueue := mtq_push job (tp_workQueue p), tp_submitted := tp_submitted p @ [job]\<rparr>))
        | Add_ready \<Rightarrow> Some (set_call k Add_notify (p\<lparr>tp_newJobReady := True\<rparr>))
        | Add_notify \<Rightarrow> map_option (set_call k (Returned True)) (notify_one pick p)
        | Start_joining \<Rightarrow> Some (set_call k (if tp_joining p then Returned True else Start_active) p)
        | Start_active \<Rightarrow>
            Some (set_call k (if tp_active p then Returned True else Start_assert) (p\<lparr>tp_active := True\<rparr>))
        | Start_assert \<Rightarrow> Some (set_call k (if tp_pool p = [] then Start_spawn 0 else Aborted) p)
        | Start_spawn n \<Rightarrow>
            Some (if n < tp_size p then set_call k (Start_spawn (Suc n)) (spawn_thread n p)
                  else set_call k (Returned True) p)
        | Stop_active wait \<Rightarrow>
            Some (set_call k (if tp_active p then Stop_joining wait else Returned True) (p\<lparr>tp_active := False\<rparr>))
        | Stop_joining wait \<Rightarrow>
            Some (set_call k (if tp_joining p then Returned True else Stop_clear wait) (p\<lparr>tp_joining := True\<rparr>))
        | Stop_clear wait \<Rightarrow> Some (set_call k (Stop_notify wait)
            (p\<lparr>tp_workQueue := mtq_clear (tp_workQueue p),
               tp_settled := tp_settled p @ map (\<lambda>job. (job, False)) (tp_workQueue p)\<rparr>))
        | Stop_notify wait \<Rightarrow> Some (set_call k (Stop_threads wait 0) (notify_all p))
        | Stop_threads wait n \<Rightarrow>
            if n < length (tp_pool p)
            then if wait \<and> \<not> ended (tp_threads p ! (tp_pool p ! n)) then None
                 else Some (set_call k (Stop_threads wait (Suc n)) p)
            else Some (set_call k Stop_pool p)
        | Stop_pool \<Rightarrow> Some (set_call k Stop_done (p\<lparr>tp_pool := []\<rparr>))
        | Stop_done \<Rightarrow> Some (set_call k (Returned True) (p\<lparr>tp_joining := False\<rparr>))
        | Returned b \<Rightarrow> None
        | Aborted \<Rightarrow> None
      else None)"

datatype 'j pool_request = Add 'j | Start | Join | Detach

fun first_access :: "'j pool_request \<Rightarrow> 'j pool_call" where
  "first_access (Add job) = Add_active job"
| "first_access Start = Start_joining"
| "first_access Join = Stop_active True"
| "first_access Detach = Stop_active False"

definition jobCount :: "'j pool \<Rightarrow> nat" where
  "jobCount p = mtq_size (tp_workQueue p)"

section \<open>The system\<close>

datatype 'j pool_event = Work nat "nat option" | Spurious nat | Proceed nat "nat option" | Begin_call "'j pool_request"

fun pool_exec :: "'j pool_event \<Rightarrow> 'j pool \<Rightarrow> 'j pool option" where
  "pool_exec (Work i pick) p = worker_step i pick p"
| "pool_exec (Spurious i) p =
     (if i < length (tp_threads p) \<and> asleep (tp_threads p ! i) then Some (goto i Locking p) else None)"
| "pool_exec (Proceed k pick) p = call_step k pick p"
| "pool_exec (Begin_call r) p = Some (p\<lparr>tp_calls := tp_calls p @ [first_access r]\<rparr>)"

inductive pool_step :: "'j pool \<Rightarrow> 'j pool \<Rightarrow> bool" where
  "pool_exec e p = Some p' \<Longrightarrow> pool_step p p'"

inductive_cases pool_stepE: "pool_step p p'"

fun pool_run :: "'j pool_event list \<Rightarrow> 'j pool \<Rightarrow> 'j pool option" where
  "pool_run [] p = Some p"
| "pool_run (e # es) p = Option.bind (pool_exec e p) (pool_run es)"

lemma pool_run_steps: "pool_run es p = Some p' \<Longrightarrow> pool_step\<^sup>*\<^sup>* p p'"
  by (induction es arbitrary: p)
    (auto simp: bind_eq_Some_conv intro: converse_rtranclp_into_rtranclp pool_step.intros)

section \<open>The job board\<close>

text \<open>What the pool is for, without threads: jobs wait in a line, are begun from its front, and finish.\<close>

record 'j job_board =
  jb_waiting :: "'j list"
  jb_running :: "'j multiset"
  jb_finished :: "'j list"

definition empty_board :: "'j job_board" where
  "empty_board = \<lparr>jb_waiting = [], jb_running = {#}, jb_finished = []\<rparr>"

inductive board_step :: "'j job_board \<Rightarrow> 'j job_board \<Rightarrow> bool" where
  submit: "board_step b (b\<lparr>jb_waiting := jb_waiting b @ [job]\<rparr>)"
| begin_job: "jb_waiting b = job # rest \<Longrightarrow>
    board_step b (b\<lparr>jb_waiting := rest, jb_running := add_mset job (jb_running b)\<rparr>)"
| finish: "job \<in># jb_running b \<Longrightarrow>
    board_step b (b\<lparr>jb_running := jb_running b - {#job#}, jb_finished := jb_finished b @ [job]\<rparr>)"
| discard: "board_step b (b\<lparr>jb_waiting := []\<rparr>)"

fun pc_job :: "'j worker_pc \<Rightarrow> 'j multiset" where
  "pc_job (Taken job) = {#job#}"
| "pc_job (Running job) = {#job#}"
| "pc_job _ = {#}"

definition in_hand :: "'j pool_thread list \<Rightarrow> 'j multiset" where
  "in_hand ws = sum_list (map (\<lambda>w. pc_job (w_pc w)) ws)"

definition board_of :: "'j pool \<Rightarrow> 'j job_board" where
  "board_of p = \<lparr>jb_waiting = tp_workQueue p, jb_running = in_hand (tp_threads p),
     jb_finished = map fst (tp_finished p)\<rparr>"

text \<open>The history of the queue accounts for every job, and every thread has an index below the size.\<close>

definition pool_ok :: "'j pool \<Rightarrow> bool" where
  "pool_ok p \<longleftrightarrow> queue_log (tp_submitted p) (tp_settled p) (tp_workQueue p)
     \<and> mset (map fst (filter snd (tp_settled p))) = in_hand (tp_threads p) + mset (map fst (tp_finished p))
     \<and> list_all (\<lambda>w. w_index w < tp_size p) (tp_threads p)
     \<and> list_all (\<lambda>f. snd f < tp_size p) (tp_finished p)"

section \<open>What a step leaves alone\<close>

lemma asleep_iff: "asleep w \<longleftrightarrow> w_pc w = Asleep"
  by (cases "w_pc w") (simp_all add: asleep_def)

lemma ended_iff: "ended w \<longleftrightarrow> w_pc w = Ended"
  by (cases "w_pc w") (simp_all add: ended_def)

lemma in_hand_append [simp]: "in_hand (ws @ vs) = in_hand ws + in_hand vs"
  by (simp add: in_hand_def)

lemma in_hand_Cons [simp]: "in_hand (w # ws) = pc_job (w_pc w) + in_hand ws"
  by (simp add: in_hand_def)

lemma in_hand_Nil [simp]: "in_hand [] = {#}"
  by (simp add: in_hand_def)

lemma in_hand_nth: "i < length ws \<Longrightarrow> pc_job (w_pc (ws ! i)) \<subseteq># in_hand ws"
  by (induction ws arbitrary: i) (auto simp: nth_Cons' less_Suc_eq_0_disj subset_mset.add_increasing)

lemma in_hand_update:
  assumes "i < length ws"
  shows "in_hand (ws[i := w]) = in_hand ws - pc_job (w_pc (ws ! i)) + pc_job (w_pc w)"
proof -
  have "ws = take i ws @ ws ! i # drop (Suc i) ws" by (rule id_take_nth_drop [OF assms])
  then have old: "in_hand ws = in_hand (take i ws) + (pc_job (w_pc (ws ! i)) + in_hand (drop (Suc i) ws))"
    by (metis in_hand_Cons in_hand_append)
  show ?thesis using assms unfolding old by (simp add: upd_conv_take_nth_drop)
qed

lemma in_hand_quiet:
  "i < length ws \<Longrightarrow> pc_job (w_pc (ws ! i)) = {#} \<Longrightarrow> pc_job (w_pc w) = {#} \<Longrightarrow> in_hand (ws[i := w]) = in_hand ws"
  by (simp add: in_hand_update)

lemma in_hand_wake [simp]:
  "in_hand (map (\<lambda>w. if asleep w then w\<lparr>w_pc := Locking\<rparr> else w) ws) = in_hand ws"
proof (induction ws)
  case (Cons w ws)
  then show ?case by (simp add: asleep_iff)
qed simp

lemma list_all_update: "list_all P xs \<Longrightarrow> P x \<Longrightarrow> list_all P (xs[i := x])"
  by (auto simp: list_all_iff dest: set_update_subset_insert [THEN subsetD])

lemma index_update:
  "i < length ws \<Longrightarrow> list_all (\<lambda>w. w_index w < n) ws \<Longrightarrow> w_index w = w_index (ws ! i) \<Longrightarrow>
   list_all (\<lambda>w. w_index w < n) (ws[i := w])"
  by (rule list_all_update) (auto simp: list_all_length)

text \<open>Parts of the state that do not show on the board.\<close>

definition same_board :: "'j pool \<Rightarrow> 'j pool \<Rightarrow> bool" where
  "same_board p p' \<longleftrightarrow> tp_workQueue p' = tp_workQueue p \<and> tp_submitted p' = tp_submitted p
     \<and> tp_settled p' = tp_settled p \<and> tp_finished p' = tp_finished p \<and> tp_size p' = tp_size p
     \<and> in_hand (tp_threads p') = in_hand (tp_threads p)
     \<and> (list_all (\<lambda>w. w_index w < tp_size p) (tp_threads p) \<longrightarrow>
        list_all (\<lambda>w. w_index w < tp_size p) (tp_threads p'))"

text \<open>A step keeps the account and shows on the board as one of its steps, or not at all.\<close>

definition refines :: "'j pool \<Rightarrow> 'j pool \<Rightarrow> bool" where
  "refines p p' \<longleftrightarrow> pool_ok p' \<and> tp_size p' = tp_size p
     \<and> (board_of p' = board_of p \<or> board_step (board_of p) (board_of p'))"

lemma same_board_keeps: "same_board p p' \<Longrightarrow> pool_ok p \<Longrightarrow> refines p p'"
  by (simp add: same_board_def pool_ok_def board_of_def refines_def)

lemma same_board_trans: "same_board p q \<Longrightarrow> same_board q r \<Longrightarrow> same_board p r"
  by (simp add: same_board_def)

lemma same_board_set_worker:
  assumes "i < length (tp_threads p)" "pc_job (w_pc (tp_threads p ! i)) = {#}" "pc_job (w_pc w) = {#}"
    "w_index w = w_index (tp_threads p ! i)"
  shows "same_board p (set_worker i w p)"
  using assms by (simp add: same_board_def set_worker_def in_hand_quiet index_update)

lemma same_board_goto:
  "i < length (tp_threads p) \<Longrightarrow> pc_job (w_pc (tp_threads p ! i)) = {#} \<Longrightarrow> pc_job pc = {#} \<Longrightarrow>
   same_board p (goto i pc p)"
  unfolding goto_def by (rule same_board_set_worker) simp_all

lemma same_board_set_call [simp]: "same_board p (set_call k c q) = same_board p q"
  by (simp add: same_board_def set_call_def)

lemma notify_one_cases:
  assumes "notify_one pick p = Some p'"
  obtains "p' = p" | i where "i < length (tp_threads p)" "w_pc (tp_threads p ! i) = Asleep" "p' = goto i Locking p"
proof (cases pick)
  case None
  then show thesis using assms that(1) by (simp add: notify_one_def split: if_splits)
next
  case (Some i)
  then show thesis using assms that(2) [of i] by (simp add: notify_one_def asleep_iff split: if_splits)
qed

lemma same_board_notify_one: "notify_one pick p = Some p' \<Longrightarrow> same_board p p'"
  by (erule notify_one_cases) (simp add: same_board_def, simp add: same_board_goto)

section \<open>The pool refines the board\<close>

lemma same_board_upd [simp]:
  "same_board p (q\<lparr>tp_workMutex := l\<rparr>) = same_board p q" "same_board p (q\<lparr>tp_active := b\<rparr>) = same_board p q"
  "same_board p (q\<lparr>tp_joining := b\<rparr>) = same_board p q" "same_board p (q\<lparr>tp_newJobReady := b\<rparr>) = same_board p q"
  "same_board p (q\<lparr>tp_jobsDone := d\<rparr>) = same_board p q" "same_board p (q\<lparr>tp_pool := hs\<rparr>) = same_board p q"
  "same_board p (q\<lparr>tp_calls := cs\<rparr>) = same_board p q"
  by (simp_all add: same_board_def)

lemma goto_upd:
  "goto i pc (p\<lparr>tp_workMutex := l\<rparr>) = (goto i pc p)\<lparr>tp_workMutex := l\<rparr>"
  "goto i pc (p\<lparr>tp_newJobReady := b\<rparr>) = (goto i pc p)\<lparr>tp_newJobReady := b\<rparr>"
  "set_worker i w (p\<lparr>tp_jobsDone := d\<rparr>) = (set_worker i w p)\<lparr>tp_jobsDone := d\<rparr>"
  by (simp_all add: goto_def set_worker_def)

lemma same_board_refl [simp]: "same_board p p"
  by (simp add: same_board_def)

lemma worker_quiet:
  assumes "worker_step i pick p = Some p'" "\<forall>job. w_pc (tp_threads p ! i) \<noteq> Taken job \<and> w_pc (tp_threads p ! i) \<noteq> Running job"
    "w_pc (tp_threads p ! i) \<noteq> Trying"
  shows "same_board p p'"
proof -
  have i: "i < length (tp_threads p)" using assms(1) by (simp add: worker_step_def split: if_splits)
  have quiet: "pc_job (w_pc (tp_threads p ! i)) = {#}" using assms(2) by (cases "w_pc (tp_threads p ! i)") auto
  note go = same_board_goto [OF i quiet] same_board_set_worker [OF i quiet]
  show ?thesis
  proof (cases "w_pc (tp_threads p ! i)")
    case Notifying
    then obtain q where q: "notify_one pick p = Some q" "p' = goto i Testing q"
      using assms(1) i by (auto simp: worker_step_def Let_def)
    have "i < length (tp_threads q)" "pc_job (w_pc (tp_threads q ! i)) = {#}"
      using q(1) i quiet by (auto elim!: notify_one_cases simp: goto_def set_worker_def nth_list_update)
    then show ?thesis
      using same_board_trans [OF same_board_notify_one [OF q(1)] same_board_goto] q(2) by simp
  qed (use assms i go in \<open>auto simp: worker_step_def Let_def goto_upd split: if_splits\<close>)
qed

lemma worker_refines:
  assumes "worker_step i pick p = Some p'" "pool_ok p"
  shows "refines p p'"
proof -
  have i: "i < length (tp_threads p)" using assms(1) by (simp add: worker_step_def split: if_splits)
  let ?w = "tp_threads p ! i"
  have index: "w_index ?w < tp_size p" using assms(2) i by (simp add: pool_ok_def list_all_length)
  show ?thesis
  proof (cases "w_pc ?w")
    case Trying
    show ?thesis
    proof (cases "tp_workQueue p")
      case Nil
      with Trying assms(1) i have "p' = goto i Missing p"
        by (auto simp: worker_step_def mtq_tryTake_def goto_def set_worker_def)
      then have "same_board p p'" using Trying i by (simp add: same_board_goto)
      then show ?thesis using assms(2) by (rule same_board_keeps)
    next
      case (Cons job rest)
      then have p': "p' = goto i (Taken job) (p\<lparr>tp_workQueue := rest, tp_settled := tp_settled p @ [(job, True)]\<rparr>)"
        using Trying assms(1) i by (simp add: worker_step_def mtq_tryTake_def)
      have hand: "in_hand ((tp_threads p)[i := ?w\<lparr>w_pc := Taken job\<rparr>]) = add_mset job (in_hand (tp_threads p))"
        using i Trying by (simp add: in_hand_update)
      have "board_step (board_of p) (board_of p')"
        using board_step.begin_job [of "board_of p" job rest] hand Cons
        by (simp add: p' board_of_def goto_def set_worker_def)
      moreover have "pool_ok p'"
        using assms(2) hand Cons i mtq.log_take [of "tp_submitted p" "tp_settled p" "tp_workQueue p" job rest]
        by (simp add: p' pool_ok_def goto_def set_worker_def index_update mtq_tryTake_def)
      moreover have "tp_size p' = tp_size p" by (simp add: p' goto_def set_worker_def)
      ultimately show ?thesis by (simp add: refines_def)
    qed
  next
    case (Taken job)
    have "same_board p (goto i (Running job) p)"
      using i Taken in_hand_nth [OF i] by (simp add: same_board_def goto_def set_worker_def in_hand_update index_update)
    then have "same_board p p'" using Taken assms(1) i by (auto simp: worker_step_def goto_upd)
    then show ?thesis using assms(2) by (rule same_board_keeps)
  next
    case (Running job)
    then have p': "p' = goto i Counting (p\<lparr>tp_finished := tp_finished p @ [(job, w_index ?w)]\<rparr>)"
      using assms(1) i by (simp add: worker_step_def Let_def)
    have job: "job \<in># in_hand (tp_threads p)" using in_hand_nth [OF i] Running by simp
    have hand: "in_hand ((tp_threads p)[i := ?w\<lparr>w_pc := Counting\<rparr>]) = in_hand (tp_threads p) - {#job#}"
      using i Running by (simp add: in_hand_update)
    have "board_step (board_of p) (board_of p')"
      using board_step.finish [of job "board_of p"] hand job by (simp add: p' board_of_def goto_def set_worker_def)
    moreover have "pool_ok p'"
      using assms(2) hand job index i by (simp add: p' pool_ok_def goto_def set_worker_def index_update)
    moreover have "tp_size p' = tp_size p" by (simp add: p' goto_def set_worker_def)
    ultimately show ?thesis by (simp add: refines_def)
  qed (use worker_quiet [OF assms(1)] same_board_keeps assms(2) in auto)
qed

lemma call_refines:
  assumes "call_step k pick p = Some p'" "pool_ok p"
  shows "refines p p'"
proof -
  have k: "k < length (tp_calls p)" using assms(1) by (simp add: call_step_def split: if_splits)
  have keeps: "same_board p p' \<Longrightarrow> ?thesis" using same_board_keeps assms(2) by blast
  show ?thesis
  proof (cases "tp_calls p ! k")
    case (Add_push job)
    then have p': "p' = set_call k Add_ready (p\<lparr>tp_workQueue := mtq_push job (tp_workQueue p),
        tp_submitted := tp_submitted p @ [job]\<rparr>)" using assms(1) k by (simp add: call_step_def)
    have "board_step (board_of p) (board_of p')"
      using board_step.submit [of "board_of p" job] by (simp add: p' board_of_def set_call_def mtq_push_def)
    moreover have "pool_ok p'"
      using assms(2) mtq.log_push [of "tp_submitted p" "tp_settled p" "tp_workQueue p" job]
      by (simp add: p' pool_ok_def set_call_def)
    moreover have "tp_size p' = tp_size p" by (simp add: p' set_call_def)
    ultimately show ?thesis by (simp add: refines_def)
  next
    case (Stop_clear wait)
    then have p': "p' = set_call k (Stop_notify wait) (p\<lparr>tp_workQueue := mtq_clear (tp_workQueue p),
        tp_settled := tp_settled p @ map (\<lambda>job. (job, False)) (tp_workQueue p)\<rparr>)"
      using assms(1) k by (simp add: call_step_def)
    have "board_step (board_of p) (board_of p')"
      using board_step.discard [of "board_of p"] by (simp add: p' board_of_def set_call_def mtq_clear_def)
    moreover have "pool_ok p'"
      using assms(2) mtq.log_clear [of "tp_submitted p" "tp_settled p" "tp_workQueue p"]
      by (simp add: p' pool_ok_def set_call_def filter_map comp_def)
    moreover have "tp_size p' = tp_size p" by (simp add: p' set_call_def)
    ultimately show ?thesis by (simp add: refines_def)
  next
    case Add_notify
    then have "same_board p p'"
      using assms(1) k same_board_notify_one [of pick p] by (auto simp: call_step_def)
    then show ?thesis by (rule keeps)
  next
    case (Start_spawn n)
    have "same_board p (spawn_thread n p)" if "n < tp_size p" using that by (simp add: same_board_def spawn_thread_def)
    with Start_spawn assms(1) k have "same_board p p'" by (auto simp: call_step_def split: if_splits)
    then show ?thesis by (rule keeps)
  next
    case (Stop_notify wait)
    have "same_board p (notify_all p)" by (auto simp: same_board_def notify_all_def list_all_iff)
    with Stop_notify assms(1) k have "same_board p p'" by (auto simp: call_step_def)
    then show ?thesis by (rule keeps)
  qed (use assms k in \<open>auto simp: call_step_def intro!: same_board_keeps split: if_splits\<close>)
qed

lemma pool_refines:
  assumes "pool_step p p'" "pool_ok p"
  shows "refines p p'"
proof (rule pool_stepE [OF assms(1)])
  fix e assume exec: "pool_exec e p = Some p'"
  show ?thesis
  proof (cases e)
    case (Spurious i)
    then have "same_board p p'" using exec by (auto simp: asleep_iff intro!: same_board_goto split: if_splits)
    then show ?thesis using assms(2) by (rule same_board_keeps)
  next
    case (Begin_call r)
    then have "same_board p p'" using exec by (auto simp del: same_board_upd simp add: same_board_def)
    then show ?thesis using assms(2) by (rule same_board_keeps)
  qed (use exec assms(2) worker_refines call_refines in auto)
qed

lemma pool_reachable:
  assumes "pool_step\<^sup>*\<^sup>* (new_pool n) p"
  shows "pool_ok p \<and> board_step\<^sup>*\<^sup>* empty_board (board_of p) \<and> tp_size p = n"
  using assms
proof (induction rule: rtranclp_induct)
  case base
  then show ?case by (simp add: pool_ok_def new_pool_def board_of_def empty_board_def queue_log_def)
next
  case (step p p')
  then have "refines p p'" by (intro pool_refines) auto
  with step.IH show ?case unfolding refines_def by (metis rtranclp.rtrancl_into_rtrancl)
qed


section \<open>A pool that sleeps while a job waits\<close>

text \<open>
  The one flag \<open>newJobReady\<close> stands for any number of jobs: the thread that takes the first of two
  jobs resets it, and when it has run the job its own count is up to date, so it waits for a
  change although the second job is in the queue.  With one thread nobody else is left to take it.
\<close>

fun idle_pc :: "'j worker_pc \<Rightarrow> bool" where
  "idle_pc Testing = True"
| "idle_pc Locking = True"
| "idle_pc Check_joining = True"
| "idle_pc Check_ready = True"
| "idle_pc Check_count = True"
| "idle_pc Blocking = True"
| "idle_pc Asleep = True"
| "idle_pc _ = False"

fun call_over :: "'j pool_call \<Rightarrow> bool" where
  "call_over (Returned b) = True"
| "call_over _ = False"

definition stranded :: "'j pool \<Rightarrow> bool" where
  "stranded p \<longleftrightarrow> tp_workQueue p \<noteq> [] \<and> tp_active p \<and> \<not> tp_joining p \<and> \<not> tp_newJobReady p
     \<and> list_all (\<lambda>w. idle_pc (w_pc w) \<and> \<not> w_last w < tp_jobsDone p) (tp_threads p)
     \<and> list_all call_over (tp_calls p)"

lemma stranded_goto:
  assumes "stranded p" "i < length (tp_threads p)" "idle_pc pc"
  shows "stranded (goto i pc p)"
  using assms by (auto simp: stranded_def goto_def set_worker_def list_all_length nth_list_update)

text \<open>Until somebody calls the pool again it stays that way, whatever its threads do.\<close>

lemma stranded_keeps:
  assumes "stranded p" "pool_exec e p = Some p'" "\<And>r. e \<noteq> Begin_call r"
  shows "stranded p'"
proof (cases e)
  case (Work i pick)
  then have i: "i < length (tp_threads p)" and run: "worker_step i pick p = Some p'"
    using assms(2) by (auto simp: worker_step_def split: if_splits)
  then have w: "idle_pc (w_pc (tp_threads p ! i))" "\<not> w_last (tp_threads p ! i) < tp_jobsDone p"
    "tp_active p" "\<not> tp_joining p" "\<not> tp_newJobReady p"
    using assms(1) by (auto simp: stranded_def list_all_length)
  note go = stranded_goto [OF assms(1) i]
  have mutex: "stranded (q\<lparr>tp_workMutex := l\<rparr>) = stranded q" for q :: "'a pool" and l by (simp add: stranded_def)
  show ?thesis
    using w run go i by (cases "w_pc (tp_threads p ! i)") (auto simp: worker_step_def Let_def goto_upd mutex split: if_splits)
next
  case (Spurious i)
  then show ?thesis using assms(1,2) by (auto intro: stranded_goto split: if_splits)
next
  case (Proceed k pick)
  then have "k < length (tp_calls p)" "call_over (tp_calls p ! k)"
    using assms(1,2) by (auto simp: call_step_def stranded_def list_all_length split: if_splits)
  then show ?thesis using Proceed assms(2) by (cases "tp_calls p ! k") (auto simp: call_step_def)
qed (use assms(3) in blast)

definition two_jobs :: "char pool_event list" where
  "two_jobs = Begin_call Start # replicate 5 (Proceed 0 None)
     @ Begin_call (Add CHR ''a'') # replicate 4 (Proceed 1 None)
     @ Begin_call (Add CHR ''b'') # replicate 4 (Proceed 2 None)"

lemma pool_strands_job:
  "\<exists>p. pool_step\<^sup>*\<^sup>* (new_pool 1) p \<and> stranded p \<and> tp_workQueue p = ''b'' \<and> map fst (tp_finished p) = ''a''"
proof -
  let ?run = "pool_run (two_jobs @ replicate 18 (Work 0 None)) (new_pool 1)"
  have "case ?run of Some p \<Rightarrow> stranded p \<and> tp_workQueue p = ''b'' \<and> map fst (tp_finished p) = ''a'' | None \<Rightarrow> False"
    by code_simp
  then obtain p where run: "?run = Some p" and p: "stranded p \<and> tp_workQueue p = ''b'' \<and> map fst (tp_finished p) = ''a''"
    by (auto split: option.splits)
  show ?thesis using pool_run_steps [OF run] p by (intro exI conjI) auto
qed


section \<open>A \<open>join\<close> that waits for a sleeping thread\<close>

text \<open>
  \<open>join\<close> sets \<open>joining\<close> and notifies without holding the mutex.  A thread that has just evaluated the
  predicate and is about to fall asleep misses the notification; \<open>join\<close> then waits for a thread
  that only a spurious wake-up can end.
\<close>

lemma join_misses_thread:
  "\<exists>p :: char pool. pool_step\<^sup>*\<^sup>* (new_pool 1) p \<and> tp_calls p = [Returned True, Stop_threads True 0]
     \<and> (\<forall>i pick. pool_exec (Work i pick) p = None \<and> pool_exec (Proceed i pick) p = None)"
proof -
  let ?run = "pool_run (Begin_call Start # replicate 5 (Proceed 0 None) @ replicate 6 (Work 0 None)
     @ Begin_call Join # replicate 4 (Proceed 1 None) @ [Work 0 None]) (new_pool 1 :: char pool)"
  have "case ?run of
      Some p \<Rightarrow> tp_calls p = [Returned True, Stop_threads True 0] \<and> tp_pool p = [0]
        \<and> tp_threads p = [\<lparr>w_pc = Asleep, w_index = 0, w_last = 0\<rparr>]
    | None \<Rightarrow> False" by code_simp
  then obtain p where run: "?run = Some p" and p: "tp_calls p = [Returned True, Stop_threads True 0]"
    "tp_pool p = [0]" "tp_threads p = [\<lparr>w_pc = Asleep, w_index = 0, w_last = 0\<rparr>]"
    by (auto split: option.splits)
  have "pool_exec (Work i pick) p = None \<and> pool_exec (Proceed i pick) p = None" for i pick
    using p by (simp add: worker_step_def call_step_def ended_def less_Suc_eq)
  with pool_run_steps [OF run] p(1) show ?thesis by (intro exI [of _ p]) simp
qed

end
