(* ===== verification/Event_Loop.thy ===== *)
theory Event_Loop
  imports Algiz_Prelude "HOL-Library.Multiset"
begin

text \<open>
  The timer loop \<open>EventLoop\<close> (\<open>src/src/EventLoop.cpp\<close>).  \<open>actions\<close> is a \<open>std::multimap\<close> from points
  in time to actions: entries in the order of their times, entries of equal time in the order
  in which they were put in.  The loop runs in a thread of its own; an action may schedule
  others, which the parameter \<open>effect\<close> gives.  Points in time are integers, and the clock is
  read once per iteration.
\<close>

record 'a event_loop =
  el_running :: bool
  el_stopping :: bool
  el_actions :: "(int \<times> 'a) list"
  el_done :: "'a list"

definition new_event_loop :: "'a event_loop" where
  "new_event_loop = \<lparr>el_running = False, el_stopping = False, el_actions = [], el_done = []\<rparr>"

definition el_start :: "'a event_loop \<Rightarrow> 'a event_loop result" where
  "el_start l = (if el_running l then Inl (RuntimeError ''Event loop already running'')
     else Inr (l\<lparr>el_stopping := False, el_running := True\<rparr>))"

text \<open>\<open>stop\<close> after the thread of the loop was joined.\<close>

definition el_stop :: "'a event_loop \<Rightarrow> 'a event_loop result" where
  "el_stop l = (if \<not> el_running l then Inl (RuntimeError ''Event loop not running'')
     else Inr (l\<lparr>el_stopping := True, el_running := False\<rparr>))"

text \<open>\<open>emplace\<close> of a multimap puts the entry behind those of the same key.\<close>

fun mm_emplace :: "int \<Rightarrow> 'a \<Rightarrow> (int \<times> 'a) list \<Rightarrow> (int \<times> 'a) list" where
  "mm_emplace t a [] = [(t, a)]"
| "mm_emplace t a (x # xs) = (if fst x \<le> t then x # mm_emplace t a xs else (t, a) # x # xs)"

definition schedule :: "int \<Rightarrow> 'a \<Rightarrow> 'a event_loop \<Rightarrow> 'a event_loop \<times> bool" where
  "schedule point action l =
     (if el_stopping l \<or> \<not> el_running l then (l, False)
      else (l\<lparr>el_actions := mm_emplace point action (el_actions l)\<rparr>, True))"

definition el_delay :: "int \<Rightarrow> int \<Rightarrow> 'a \<Rightarrow> 'a event_loop \<Rightarrow> 'a event_loop \<times> bool" where
  "el_delay now duration action l = schedule (now + duration) action l"

text \<open>
  One iteration of \<open>loop\<close>.  The predicate \<open>awaitNewAction\<close> waits for locks \<open>actionsMutex\<close>, which
  the loop has released before.  \<open>awaitNextAction\<close> is called while \<open>lock\<close> still holds the mutex;
  \<open>wait_for\<close> evaluates its predicate at once, and a \<open>std::mutex\<close> locked again by its owner is
  undefined behaviour, in practice a thread that waits for itself.
\<close>

datatype 'a iteration = Left_loop | Awaiting | Ran 'a

definition awaitNewAction :: "'a event_loop \<Rightarrow> bool" where
  "awaitNewAction l \<longleftrightarrow> el_stopping l \<or> el_actions l \<noteq> []"

definition awaitNextAction :: "bool \<Rightarrow> int \<Rightarrow> 'a event_loop \<Rightarrow> 'a event_loop result" where
  "awaitNextAction actions_locked point l =
     (if actions_locked then Inl (UndefinedBehaviour ''actionsMutex locked twice by the same thread'') else Inr l)"

definition loop_iteration :: "('a \<Rightarrow> (int \<times> 'a) list) \<Rightarrow> int \<Rightarrow> 'a event_loop \<Rightarrow> ('a event_loop \<times> 'a iteration) result" where
  "loop_iteration effect now l =
     (if \<not> (el_running l \<and> \<not> el_stopping l) then Inr (l, Left_loop)
      else case el_actions l of
        [] \<Rightarrow> Inr (l, Awaiting)
      | (point, action) # rest \<Rightarrow>
          rbind (if now < point then awaitNextAction True point l else Inr l) (\<lambda>l.
            if el_stopping l then Inr (l, Left_loop)
            else Inr (fold (\<lambda>(t, a) l. fst (schedule t a l)) (effect action)
                   (l\<lparr>el_actions := rest, el_done := el_done l @ [action]\<rparr>), Ran action)))"

text \<open>Iterations until the loop leaves, waits for a new action or fails; \<open>clock\<close> gives the time of each.\<close>

fun loop_run :: "('a \<Rightarrow> (int \<times> 'a) list) \<Rightarrow> int list \<Rightarrow> 'a event_loop \<Rightarrow> ('a event_loop \<times> 'a iteration option) result" where
  "loop_run effect [] l = Inr (l, None)"
| "loop_run effect (now # clock) l = rbind (loop_iteration effect now l) (\<lambda>(l', i).
     case i of Ran a \<Rightarrow> loop_run effect clock l' | _ \<Rightarrow> Inr (l', Some i))"

section \<open>The order of the actions\<close>

definition scheduled :: "(int \<times> 'a) list \<Rightarrow> (int \<times> 'a) list" where
  "scheduled reqs = fold (\<lambda>(t, a). mm_emplace t a) reqs []"

lemma set_mm_emplace: "set (mm_emplace t a xs) = insert (t, a) (set xs)"
  by (induction xs) auto

lemma mset_mm_emplace: "mset (mm_emplace t a xs) = add_mset (t, a) (mset xs)"
  by (induction xs) auto

lemma sorted_mm_emplace: "sorted (map fst xs) \<Longrightarrow> sorted (map fst (mm_emplace t a xs))"
  by (induction xs) (auto simp: set_mm_emplace)

lemma filter_mm_emplace:
  "sorted (map fst xs) \<Longrightarrow>
   filter (\<lambda>x. k = fst x) (mm_emplace t a xs) = filter (\<lambda>x. k = fst x) xs @ (if k = t then [(t, a)] else [])"
proof (induction xs)
  case (Cons x xs)
  have "filter (\<lambda>x. t = fst x) xs = []" if "t < fst x" using that Cons.prems by (auto simp: filter_empty_conv)
  with Cons show ?case by auto
qed simp

lemma fold_mm_emplace:
  assumes "sorted (map fst xs)"
  shows "sorted (map fst (fold (\<lambda>(t, a). mm_emplace t a) reqs xs))
    \<and> mset (fold (\<lambda>(t, a). mm_emplace t a) reqs xs) = mset xs + mset reqs
    \<and> filter (\<lambda>x. k = fst x) (fold (\<lambda>(t, a). mm_emplace t a) reqs xs)
        = filter (\<lambda>x. k = fst x) xs @ filter (\<lambda>x. k = fst x) reqs"
  using assms
proof (induction reqs arbitrary: xs)
  case (Cons req reqs)
  obtain t a where req: "req = (t, a)" by force
  from Cons.IH [OF sorted_mm_emplace [OF Cons.prems], of t a] show ?case
    using Cons.prems by (simp add: req mset_mm_emplace filter_mm_emplace)
qed simp

text \<open>The multimap holds the requests in the order of a stable sort.\<close>

lemma scheduled_sort: "scheduled reqs = sort_key fst reqs"
proof (rule sym, rule properties_for_sort_key)
  note spec = fold_mm_emplace [of "[]" reqs, folded scheduled_def]
  show "mset (scheduled reqs) = mset reqs" "sorted (map fst (scheduled reqs))" using spec by simp_all
  fix k show "filter (\<lambda>x. fst k = fst x) (scheduled reqs) = filter (\<lambda>x. fst k = fst x) reqs" using spec by simp
qed

lemma loop_run_due:
  assumes "el_running l" "\<not> el_stopping l" "el_actions l = ys @ zs" "list_all2 (\<lambda>y now. fst y \<le> now) ys clock"
  shows "loop_run (\<lambda>_. []) (clock @ later) l =
    loop_run (\<lambda>_. []) later (l\<lparr>el_actions := zs, el_done := el_done l @ map snd ys\<rparr>)"
  using assms
proof (induction ys arbitrary: l clock)
  case (Cons y ys)
  obtain now clock' where c: "clock = now # clock'" "fst y \<le> now" "list_all2 (\<lambda>y now. fst y \<le> now) ys clock'"
    using Cons.prems(4) by (auto simp: list_all2_Cons1)
  obtain t a where y: "y = (t, a)" by force
  let ?l = "l\<lparr>el_actions := ys @ zs, el_done := el_done l @ [a]\<rparr>"
  have "loop_run (\<lambda>_. []) (clock @ later) l = loop_run (\<lambda>_. []) (clock' @ later) ?l"
    using Cons.prems c y by (simp add: loop_iteration_def)
  with Cons.IH [of ?l clock'] Cons.prems c(3) y show ?case by simp
next
  case Nil
  then have "l = l\<lparr>el_actions := zs, el_done := el_done l @ map snd []\<rparr>" "clock = []" by auto
  then show ?case by (metis append_Nil)
qed

text \<open>
  (C23) The timer loop runs what is due in the order of time.  When requests were scheduled in any
  order, the loop runs them by their times, and requests for the same time in the order in which
  they were made, as long as each is due when it comes to the front; when all have run, the loop
  waits for the next.  When the front action is not due yet, the loop locks a mutex it already
  holds: it never gets to run that action.
\<close>

theorem event_loop_order:
  assumes "el_running l" "\<not> el_stopping l" "el_actions l = scheduled reqs"
    and "sort_key fst reqs = ys @ zs" "list_all2 (\<lambda>y now. fst y \<le> now) ys clock"
  shows "loop_run (\<lambda>_. []) (clock @ [now]) l =
    (case zs of
       [] \<Rightarrow> Inr (l\<lparr>el_actions := [], el_done := el_done l @ map snd ys\<rparr>, Some Awaiting)
     | (t, a) # zs' \<Rightarrow>
         if now < t then Inl (UndefinedBehaviour ''actionsMutex locked twice by the same thread'')
         else Inr (l\<lparr>el_actions := zs', el_done := el_done l @ map snd ys @ [a]\<rparr>, None))"
proof -
  let ?l = "l\<lparr>el_actions := zs, el_done := el_done l @ map snd ys\<rparr>"
  have "el_actions l = ys @ zs" using assms(3,4) by (simp add: scheduled_sort)
  from loop_run_due [OF assms(1,2) this assms(5), of "[now]"]
  have "loop_run (\<lambda>_. []) (clock @ [now]) l = loop_run (\<lambda>_. []) [now] ?l" .
  then show ?thesis
    using assms(1,2) by (simp add: loop_iteration_def awaitNextAction_def split: list.splits prod.splits)
qed

theorem event_loop_order_witness:
  "loop_run (\<lambda>_. []) ([10, 11] @ [12])
     (new_event_loop\<lparr>el_running := True, el_actions := scheduled [(20, CHR ''z''), (5, CHR ''x''), (5, CHR ''y'')]\<rparr>) =
     Inl (UndefinedBehaviour ''actionsMutex locked twice by the same thread'')
   \<and> loop_run (\<lambda>_. []) ([10, 11] @ [25])
     (new_event_loop\<lparr>el_running := True, el_actions := scheduled [(20, CHR ''z''), (5, CHR ''x''), (5, CHR ''y'')]\<rparr>) =
     Inr (new_event_loop\<lparr>el_running := True, el_actions := [], el_done := ''xyz''\<rparr>, None)"
  using event_loop_order [of "new_event_loop\<lparr>el_running := True, el_actions := scheduled [(20, CHR ''z''), (5, CHR ''x''), (5, CHR ''y'')]\<rparr>"
      "[(20, CHR ''z''), (5, CHR ''x''), (5, CHR ''y'')]" "[(5, CHR ''x''), (5, CHR ''y'')]" "[(20, CHR ''z'')]" "[10, 11]"]
  by (simp add: new_event_loop_def)

text \<open>Scheduling fails exactly when the loop is stopping or not running.\<close>

lemma schedule_refused: "snd (schedule t a l) \<longleftrightarrow> el_running l \<and> \<not> el_stopping l"
  by (simp add: schedule_def)

end
