(* ===== verification/Lockable.thy ===== *)
theory Lockable
  imports Algiz_Prelude "HOL-Library.Multiset"
begin

text \<open>
  Values with a mutex, \<open>src/include/threading/Lockable.h\<close>.  An operation is the sequence of what it
  does to the readers-writer locks of the objects it touches and to their values; threads execute
  their sequences one action at a time, in any interleaving.  Objects are numbered; \<open>std::shared_mutex\<close>
  is the standard library's, with a thread that locks twice waiting for itself.
\<close>

section \<open>Actions\<close>

datatype 'a lk_action =
    LockUnique nat
  | LockShared nat
  | UnlockUnique nat
  | UnlockShared nat
  | CopyTo nat nat
  | MoveTo nat nat 'a
  | Store nat 'a
  | Exchange nat 'a
  | Load nat
  | Apply nat "'a \<Rightarrow> 'a"

section \<open>Operations\<close>

definition assign_copy :: "nat \<Rightarrow> nat \<Rightarrow> 'a lk_action list" where
  "assign_copy this other =
     (if this = other then []
      else [LockUnique this, LockShared other, CopyTo this other, UnlockShared other, UnlockUnique this])"

text \<open>What a moved-from object holds is up to its type.\<close>

definition assign_move :: "'a \<Rightarrow> nat \<Rightarrow> nat \<Rightarrow> 'a lk_action list" where
  "assign_move moved this other =
     (if this = other then []
      else [LockUnique this, LockUnique other, MoveTo this other moved, UnlockUnique other, UnlockUnique this])"

definition assign_value :: "nat \<Rightarrow> 'a \<Rightarrow> 'a lk_action list" where
  "assign_value this v = [LockUnique this, Store this v, UnlockUnique this]"

definition unsafeSet :: "nat \<Rightarrow> 'a \<Rightarrow> 'a lk_action list" where
  "unsafeSet this v = [Store this v]"

definition withShared :: "nat \<Rightarrow> 'a lk_action list" where
  "withShared this = [LockShared this, Load this, UnlockShared this]"

definition withUnique :: "nat \<Rightarrow> ('a \<Rightarrow> 'a) \<Rightarrow> 'a lk_action list" where
  "withUnique this f = [LockUnique this, Apply this f, UnlockUnique this]"

definition copyBase :: "nat \<Rightarrow> 'a lk_action list" where
  "copyBase this = [LockShared this, Load this, UnlockShared this]"

definition swap_value :: "nat \<Rightarrow> 'a \<Rightarrow> 'a lk_action list" where
  "swap_value this v = [LockUnique this, Exchange this v, UnlockUnique this]"

section \<open>Threads\<close>

record rw_lock =
  rw_unique :: "nat option"
  rw_shared :: "nat list"

record 'a lk_thread =
  lt_code :: "'a lk_action list"
  lt_out :: "'a list"

record 'a lk_state =
  ls_values :: "nat \<Rightarrow> 'a"
  ls_locks :: "nat \<Rightarrow> rw_lock"
  ls_threads :: "'a lk_thread list"

text \<open>One action of thread \<open>i\<close>; \<open>None\<close> when it has to wait.  The result holds what was read.\<close>

definition lk_act :: "nat \<Rightarrow> 'a lk_action \<Rightarrow> (nat \<Rightarrow> 'a) \<times> (nat \<Rightarrow> rw_lock) \<Rightarrow> (((nat \<Rightarrow> 'a) \<times> (nat \<Rightarrow> rw_lock)) \<times> 'a list) option" where
  "lk_act i action mem =
     (case mem of (vs, ls) \<Rightarrow>
       (case action of
          LockUnique x \<Rightarrow>
            if rw_unique (ls x) = None \<and> rw_shared (ls x) = [] then Some ((vs, ls(x := (ls x)\<lparr>rw_unique := Some i\<rparr>)), []) else None
        | LockShared x \<Rightarrow>
            if rw_unique (ls x) = None then Some ((vs, ls(x := (ls x)\<lparr>rw_shared := i # rw_shared (ls x)\<rparr>)), []) else None
        | UnlockUnique x \<Rightarrow> Some ((vs, ls(x := (ls x)\<lparr>rw_unique := None\<rparr>)), [])
        | UnlockShared x \<Rightarrow> Some ((vs, ls(x := (ls x)\<lparr>rw_shared := remove1 i (rw_shared (ls x))\<rparr>)), [])
        | CopyTo x y \<Rightarrow> Some ((vs(x := vs y), ls), [])
        | MoveTo x y m \<Rightarrow> Some ((vs(x := vs y, y := m), ls), [])
        | Store x v \<Rightarrow> Some ((vs(x := v), ls), [])
        | Exchange x v \<Rightarrow> Some ((vs(x := v), ls), [vs x])
        | Load x \<Rightarrow> Some ((vs, ls), [vs x])
        | Apply x f \<Rightarrow> Some ((vs(x := f (vs x)), ls), [])))"

definition lk_step :: "nat \<Rightarrow> 'a lk_state \<Rightarrow> 'a lk_state option" where
  "lk_step i st =
     (if i < length (ls_threads st) then
        case lt_code (ls_threads st ! i) of
          [] \<Rightarrow> None
        | action # code \<Rightarrow>
            (case lk_act i action (ls_values st, ls_locks st) of
               None \<Rightarrow> None
             | Some ((vs, ls), out) \<Rightarrow>
                 Some \<lparr>ls_values = vs, ls_locks = ls,
                   ls_threads = (ls_threads st)[i := \<lparr>lt_code = code, lt_out = lt_out (ls_threads st ! i) @ out\<rparr>]\<rparr>)
      else None)"

fun lk_run :: "nat list \<Rightarrow> 'a lk_state \<Rightarrow> 'a lk_state option" where
  "lk_run [] st = Some st"
| "lk_run (i # is) st = (case lk_step i st of None \<Rightarrow> None | Some st' \<Rightarrow> lk_run is st')"

definition lk_start :: "(nat \<Rightarrow> 'a) \<Rightarrow> 'a lk_action list list \<Rightarrow> 'a lk_state" where
  "lk_start vs codes = \<lparr>ls_values = vs, ls_locks = (\<lambda>_. \<lparr>rw_unique = None, rw_shared = []\<rparr>),
     ls_threads = map (\<lambda>c. \<lparr>lt_code = c, lt_out = []\<rparr>) codes\<rparr>"

section \<open>Locks exclude\<close>

definition exclusive :: "'a lk_state \<Rightarrow> bool" where
  "exclusive st \<longleftrightarrow> (\<forall>x. rw_unique (ls_locks st x) = None \<or> rw_shared (ls_locks st x) = [])"

lemma lk_act_exclusive:
  assumes "lk_act i action (vs, ls) = Some ((vs', ls'), out)" and "\<forall>x. rw_unique (ls x) = None \<or> rw_shared (ls x) = []"
  shows "\<forall>x. rw_unique (ls' x) = None \<or> rw_shared (ls' x) = []"
  using assms by (auto simp: lk_act_def split: lk_action.splits if_splits)

text \<open>In every interleaving a unique lock is held alone.\<close>

lemma locks_exclude: "lk_run is st = Some st' \<Longrightarrow> exclusive st \<Longrightarrow> exclusive st'"
proof (induction "is" arbitrary: st)
  case (Cons i "is")
  then obtain st1 where st1: "lk_step i st = Some st1" "lk_run is st1 = Some st'" by (auto split: option.splits)
  have "exclusive st1"
    using st1(1) Cons.prems(2)
    by (auto simp: lk_step_def exclusive_def split: if_splits list.splits option.splits dest!: lk_act_exclusive)
  with Cons.IH st1(2) show ?case by blast
qed simp

text \<open>Two assignments in opposite directions block each other for good.\<close>

lemma crossed_assignments_deadlock:
  "\<exists>st. lk_run [0, 1] (lk_start vs [assign_copy 0 1, assign_copy 1 0]) = Some st
     \<and> (\<forall>i. lk_step i st = None) \<and> (\<forall>t \<in> set (ls_threads st). lt_code t \<noteq> [])"
  by (simp add: lk_start_def assign_copy_def lk_step_def lk_act_def less_Suc_eq numeral_2_eq_2 all_conj_distrib)

section \<open>Exchanged values are not lost\<close>

definition offered :: "'a lk_action list \<Rightarrow> 'a multiset" where
  "offered code = mset (concat (map (\<lambda>a. case a of Exchange x v \<Rightarrow> [v] | _ \<Rightarrow> []) code))"

definition holdings :: "nat \<Rightarrow> 'a lk_state \<Rightarrow> 'a multiset" where
  "holdings x st = {#ls_values st x#} + sum_list (map (\<lambda>t. offered (lt_code t) + mset (lt_out t)) (ls_threads st))"

definition swaps_only :: "nat \<Rightarrow> 'a lk_state \<Rightarrow> bool" where
  "swaps_only x st \<longleftrightarrow> (\<forall>t \<in> set (ls_threads st). \<forall>a \<in> set (lt_code t).
     (\<exists>y. a = LockUnique y) \<or> (\<exists>y. a = UnlockUnique y) \<or> (\<exists>v. a = Exchange x v))"

lemma sum_list_swap:
  fixes f :: "'t \<Rightarrow> 'a multiset"
  assumes "i < length ts"
  shows "sum_list (map f (ts[i := t])) + f (ts ! i) = sum_list (map f ts) + f t"
  using assms
proof (induction ts arbitrary: i)
  case (Cons a ts)
  then show ?case by (cases i) (auto simp: ac_simps)
qed simp

lemma cancel_swap:
  fixes v v' s s' t t' :: "'a multiset"
  assumes "s' + t = s + t'" and "v' + t' = v + t"
  shows "v' + s' = v + s"
proof -
  have "(v' + s') + t = s + (v' + t')" using assms(1) by (simp add: ac_simps)
  also have "\<dots> = (v + s) + t" using assms(2) by (simp add: ac_simps)
  finally show ?thesis by simp
qed

lemma lk_step_holdings:
  assumes "lk_step i st = Some st'" and "swaps_only x st"
  shows "holdings x st' = holdings x st" and "swaps_only x st'"
proof -
  from assms(1) obtain a code vs ls out where i: "i < length (ls_threads st)" and code: "lt_code (ls_threads st ! i) = a # code"
    and act: "lk_act i a (ls_values st, ls_locks st) = Some ((vs, ls), out)"
    and st': "st' = \<lparr>ls_values = vs, ls_locks = ls,
      ls_threads = (ls_threads st)[i := \<lparr>lt_code = code, lt_out = lt_out (ls_threads st ! i) @ out\<rparr>]\<rparr>"
    by (auto simp: lk_step_def split: if_splits list.splits option.splits)
  let ?t = "ls_threads st ! i" and ?t' = "\<lparr>lt_code = code, lt_out = lt_out (ls_threads st ! i) @ out\<rparr>"
  let ?f = "\<lambda>t. offered (lt_code t) + mset (lt_out t)"
  have t: "?t \<in> set (ls_threads st)" "a \<in> set (lt_code ?t)" using i code by simp_all
  have a: "(\<exists>y. a = LockUnique y) \<or> (\<exists>y. a = UnlockUnique y) \<or> (\<exists>v. a = Exchange x v)"
    using bspec [OF bspec [OF assms(2) [unfolded swaps_only_def] t(1)] t(2)] .
  then have "{#vs x#} + ?f ?t' = {#ls_values st x#} + ?f ?t"
    using act code by (auto simp: lk_act_def offered_def split: if_splits)
  with sum_list_swap [OF i, of ?f ?t']
  have "{#vs x#} + sum_list (map ?f ((ls_threads st)[i := ?t'])) = {#ls_values st x#} + sum_list (map ?f (ls_threads st))"
    by (rule cancel_swap)
  then show "holdings x st' = holdings x st" by (simp add: holdings_def st')
  show "swaps_only x st'"
    using assms(2) bspec [OF assms(2) [unfolded swaps_only_def] t(1)] code
    by (auto simp: swaps_only_def st' dest!: set_update_subset_insert [THEN subsetD])
qed

text \<open>
  Threads that exchange values of one object lose none and double none: at every moment the value
  of the object, what is still to be put in and what came out are together what there was at first.
\<close>

lemma swaps_conserve:
  assumes "lk_run is (lk_start vs (map (swap_value x) offers)) = Some st"
  shows "{#ls_values st x#} + sum_list (map (\<lambda>t. offered (lt_code t) + mset (lt_out t)) (ls_threads st)) = {#vs x#} + mset offers"
proof -
  have run: "holdings x st = holdings x s" if "lk_run is s = Some st" "swaps_only x s" for "is" s
    using that
  proof (induction "is" arbitrary: s)
    case (Cons i "is")
    then obtain s1 where "lk_step i s = Some s1" "lk_run is s1 = Some st" by (auto split: option.splits)
    with Cons lk_step_holdings [of i s s1 x] show ?case by auto
  qed simp
  have "swaps_only x (lk_start vs (map (swap_value x) offers))"
    by (auto simp: swaps_only_def lk_start_def swap_value_def)
  moreover have "holdings x (lk_start vs (map (swap_value x) offers)) = {#vs x#} + mset offers"
    by (simp add: holdings_def lk_start_def comp_def swap_value_def offered_def)
  ultimately show ?thesis using run [OF assms] by (simp add: holdings_def)
qed

end
