(* ===== verification/Geo_Ip.thy ===== *)
theory Geo_Ip
  imports Plugin_Host Json_Value
begin

text \<open>
  The country look-up \<open>src/src/util/GeoIP.cpp\<close> as built with \<open>ENABLE_GEOIP\<close>, and the plugin
  \<open>src/src/plugins/countryfilter/CountryFilter.cpp\<close> that uses it.  The database is a parameter:
  \<open>db_open\<close> opens a file, \<open>lookup_raw\<close> finds the record of an address and \<open>get_field\<close> reads the
  country's name from a record; each may throw.
\<close>

record ('f, 'r) geo_db =
  db_open :: "string \<Rightarrow> 'f result"
  lookup_raw :: "'f \<Rightarrow> string \<Rightarrow> 'r result"
  get_field :: "'f \<Rightarrow> 'r \<Rightarrow> string result"

record ('f, 'r) geoip =
  geo_valid :: bool
  geo_file :: "'f option"
  geo_results :: "(string \<times> 'r) list"

definition GeoIP_invalid :: "('f, 'r) geoip" where
  "GeoIP_invalid = \<lparr>geo_valid = False, geo_file = None, geo_results = []\<rparr>"

definition GeoIP_open :: "('f, 'r) geo_db \<Rightarrow> string \<Rightarrow> ('f, 'r) geoip result" where
  "GeoIP_open db database_path =
     rmap (\<lambda>f. \<lparr>geo_valid = True, geo_file = Some f, geo_results = []\<rparr>) (db_open db database_path)"

text \<open>\<open>emplace\<close> on the optional destroys the old value before it builds the new one.\<close>

definition GeoIP_get :: "('f, 'r) geoip option \<Rightarrow> ('f, 'r) geoip" where
  "GeoIP_get singleton = (case singleton of None \<Rightarrow> GeoIP_invalid | Some g \<Rightarrow> g)"

definition GeoIP_get_path ::
  "('f, 'r) geo_db \<Rightarrow> string \<Rightarrow> ('f, 'r) geoip option \<Rightarrow> ('f, 'r) geoip option \<times> unit result" where
  "GeoIP_get_path db database_path singleton =
     (case singleton of
        Some g \<Rightarrow>
          if geo_valid g then (Some g, Inr ())
          else (case GeoIP_open db database_path of Inl e \<Rightarrow> (None, Inl e) | Inr g' \<Rightarrow> (Some g', Inr ()))
      | None \<Rightarrow> (case GeoIP_open db database_path of Inl e \<Rightarrow> (None, Inl e) | Inr g' \<Rightarrow> (Some g', Inr ())))"

definition getCountry :: "('f, 'r) geo_db \<Rightarrow> string \<Rightarrow> ('f, 'r) geoip \<Rightarrow> ('f, 'r) geoip \<times> string result" where
  "getCountry db ip g =
     (case geo_file g of
        None \<Rightarrow> (g, Inl (UndefinedBehaviour ''empty optional''))
      | Some f \<Rightarrow>
          (case map_of (geo_results g) ip of
             Some r \<Rightarrow> (g, get_field db f r)
           | None \<Rightarrow>
               let g = (if 4096 < length (geo_results g) then g\<lparr>geo_results := []\<rparr> else g) in
               (case lookup_raw db f ip of
                  Inl e \<Rightarrow> (g, Inl e)
                | Inr r \<Rightarrow> (g\<lparr>geo_results := omap_put ip r (geo_results g)\<rparr>, get_field db f r))))"

section \<open>The filter\<close>

record country_filter =
  cy_whitelist :: "string list option"
  cy_blacklist :: "string list option"
  cy_message :: "string option"

text \<open>The result, the state of the look-up and what was written to the descriptor.\<close>

definition CountryFilter_filter ::
  "('f, 'r) geo_db \<Rightarrow> country_filter \<Rightarrow> string \<Rightarrow> int \<Rightarrow> ('f, 'r) geoip \<Rightarrow> (('f, 'r) geoip \<times> (int \<times> string) list) \<times> bool" where
  "CountryFilter_filter db cy ip fd geo =
     (if geo_valid geo then
        let (geo', answer) = getCountry db ip geo;
            country = (case answer of Inl e \<Rightarrow> ''Unknown'' | Inr c \<Rightarrow> c)
        in if (case cy_whitelist cy of None \<Rightarrow> True | Some w \<Rightarrow> country \<in> set w)
              \<and> (case cy_blacklist cy of None \<Rightarrow> True | Some b \<Rightarrow> country \<notin> set b)
           then ((geo', []), True)
           else ((geo', case cy_message cy of None \<Rightarrow> [] | Some m \<Rightarrow> [(fd, m)]), False)
      else ((geo, []), True))"

text \<open>
  \<open>postinit\<close> registers the filter, known by the plugin's reference, and then reads the lists; an
  entry of the wrong type throws and leaves the rest as it is.
\<close>

definition set_from ::
  "json \<Rightarrow> string \<Rightarrow> (json \<Rightarrow> 'a result) \<Rightarrow> ('a \<Rightarrow> country_filter \<Rightarrow> country_filter) \<Rightarrow> country_filter \<times> unit result
   \<Rightarrow> country_filter \<times> unit result" where
  "set_from config key conv upd st =
     (case st of
        (cy, Inl e) \<Rightarrow> (cy, Inl e)
      | (cy, Inr _) \<Rightarrow>
          (case jfind config key of
             None \<Rightarrow> (cy, Inr ())
           | Some v \<Rightarrow> (case conv v of Inl e \<Rightarrow> (cy, Inl e) | Inr x \<Rightarrow> (upd x cy, Inr ()))))"

definition CountryFilter_postinit ::
  "json \<Rightarrow> nat \<Rightarrow> nat option list \<Rightarrow> country_filter \<Rightarrow> nat option list \<times> country_filter \<times> unit result" where
  "CountryFilter_postinit config this ipFilters cy =
     (ipFilters @ [Some this],
      set_from config ''message'' jstring (\<lambda>m cy. cy\<lparr>cy_message := Some m\<rparr>)
        (set_from config ''blacklist'' jstring_set (\<lambda>b cy. cy\<lparr>cy_blacklist := Some b\<rparr>)
          (set_from config ''whitelist'' jstring_set (\<lambda>w cy. cy\<lparr>cy_whitelist := Some w\<rparr>) (cy, Inr ()))))"

definition CountryFilter_cleanup :: "nat \<Rightarrow> nat option list \<Rightarrow> nat option list" where
  "CountryFilter_cleanup this ipFilters = fst (erase ipFilters (Some this))"

lemma country_filter_unregisters:
  "Some this \<notin> set ipFilters \<Longrightarrow> CountryFilter_cleanup this (fst (CountryFilter_postinit config this ipFilters cy)) = ipFilters"
  by (simp add: CountryFilter_cleanup_def CountryFilter_postinit_def erase_remove1 remove1_append)

section \<open>The cache does not show\<close>

text \<open>
  What the database says of an address, and the answer the plugin should give for it.
\<close>

definition country_of :: "('f, 'r) geo_db \<Rightarrow> 'f \<Rightarrow> string \<Rightarrow> string" where
  "country_of db f ip = (case rbind (lookup_raw db f ip) (get_field db f) of Inl e \<Rightarrow> ''Unknown'' | Inr c \<Rightarrow> c)"

definition allowed :: "country_filter \<Rightarrow> string \<Rightarrow> bool" where
  "allowed cy country \<longleftrightarrow> (\<forall>w. cy_whitelist cy = Some w \<longrightarrow> country \<in> set w)
     \<and> (\<forall>b. cy_blacklist cy = Some b \<longrightarrow> country \<notin> set b)"

definition geo_ok :: "('f, 'r) geo_db \<Rightarrow> 'f \<Rightarrow> ('f, 'r) geoip \<Rightarrow> bool" where
  "geo_ok db f g \<longleftrightarrow> geo_valid g \<and> geo_file g = Some f \<and> omap_ok (geo_results g) \<and> length (geo_results g) \<le> 4097
     \<and> (\<forall>ip r. map_of (geo_results g) ip = Some r \<longrightarrow> lookup_raw db f ip = Inr r)"

lemma length_omap_put: "length (omap_put k v m) \<le> Suc (length m)"
  by (induction m) auto

lemma getCountry_cached:
  assumes "geo_ok db f g"
  shows "geo_ok db f (fst (getCountry db ip g))"
    "snd (getCountry db ip g) = rbind (lookup_raw db f ip) (get_field db f)"
  using assms
  by (auto simp: getCountry_def geo_ok_def Let_def map_of_omap_put omap_ok_put
      intro: order.trans [OF length_omap_put] split: option.splits sum.splits)

fun filter_all ::
  "('f, 'r) geo_db \<Rightarrow> country_filter \<Rightarrow> (string \<times> int) list \<Rightarrow> ('f, 'r) geoip \<Rightarrow> ('f, 'r) geoip \<times> (bool \<times> (int \<times> string) list) list" where
  "filter_all db cy [] g = (g, [])"
| "filter_all db cy ((ip, fd) # peers) g =
     (case CountryFilter_filter db cy ip fd g of ((g', out), ok) \<Rightarrow>
        (case filter_all db cy peers g' of (g'', answers) \<Rightarrow> (g'', (ok, out) # answers)))"

lemma country_filter_step:
  assumes "geo_ok db f g"
  shows "\<exists>g'. geo_ok db f g' \<and> CountryFilter_filter db cy ip fd g =
    ((g', if allowed cy (country_of db f ip) then [] else case cy_message cy of None \<Rightarrow> [] | Some m \<Rightarrow> [(fd, m)]),
     allowed cy (country_of db f ip))"
proof -
  have "geo_valid g" using assms by (simp add: geo_ok_def)
  with getCountry_cached [OF assms, of ip] show ?thesis
    by (cases "getCountry db ip g")
      (auto simp: CountryFilter_filter_def Let_def allowed_def country_of_def split: option.splits sum.splits)
qed

text \<open>
  (C24) The country filter and its bounded cache.  A filter over a freshly opened database, asked
  about any sequence of connections, lets each in exactly when the country the database gives
  for its address is on the white list, if there is one, and not on the black list, if there is
  one; an address the database cannot resolve counts as the country \<open>Unknown\<close>.  Only refused
  connections are written to, and only the configured message.  However many addresses are
  asked about, the cache never holds more than 4097 of them.
\<close>

theorem country_filter_exact:
  assumes "GeoIP_get_path db database_path None = (Some g, Inr ())" "db_open db database_path = Inr f"
  shows "length (geo_results (fst (filter_all db cy peers g))) \<le> 4097
    \<and> snd (filter_all db cy peers g) =
      map (\<lambda>(ip, fd). if allowed cy (country_of db f ip) then (True, [])
        else (False, case cy_message cy of None \<Rightarrow> [] | Some m \<Rightarrow> [(fd, m)])) peers"
proof -
  have "geo_ok db f g"
    using assms by (auto simp: GeoIP_get_path_def GeoIP_open_def geo_ok_def)
  then show ?thesis
  proof (induction peers arbitrary: g)
    case Nil
    then show ?case by (simp add: geo_ok_def)
  next
    case (Cons p peers)
    obtain ip fd where p: "p = (ip, fd)" by force
    from country_filter_step [OF Cons.prems, of cy ip fd] obtain g' where g': "geo_ok db f g'"
      "CountryFilter_filter db cy ip fd g = ((g', if allowed cy (country_of db f ip) then [] else case cy_message cy of None \<Rightarrow> [] | Some m \<Rightarrow> [(fd, m)]),
         allowed cy (country_of db f ip))" by blast
    from Cons.IH [OF g'(1)] g'(2) show ?case by (auto simp: p split: prod.splits)
  qed
qed

definition toy_db :: "(unit, string) geo_db" where
  "toy_db = \<lparr>db_open = (\<lambda>p. Inr ()), lookup_raw = (\<lambda>_ ip. if ip = ''10.0.0.1'' then Inr ''Norway'' else Inl (RuntimeError ''not found'')),
     get_field = (\<lambda>_ r. Inr r)\<rparr>"

theorem country_filter_exact_witness:
  "snd (filter_all toy_db \<lparr>cy_whitelist = Some [''Norway''], cy_blacklist = None, cy_message = Some ''no''\<rparr>
     [(''10.0.0.1'', 4), (''10.0.0.2'', 5)] \<lparr>geo_valid = True, geo_file = Some (), geo_results = []\<rparr>)
   = [(True, []), (False, [(5, ''no'')])]"
proof -
  have "GeoIP_get_path toy_db ''db'' None = (Some \<lparr>geo_valid = True, geo_file = Some (), geo_results = []\<rparr>, Inr ())"
    "db_open toy_db ''db'' = Inr ()" by (simp_all add: GeoIP_get_path_def GeoIP_open_def toy_db_def)
  from conjunct2 [OF country_filter_exact [OF this]] show ?thesis
    by (simp add: allowed_def country_of_def toy_db_def del: filter_all.simps)
qed

end
