(* ===== verification/Core.thy ===== *)
theory Core
  imports Plugin_Host Json_Value Geo_Ip
begin

text \<open>
  Start-up: \<open>src/src/Core.cpp\<close> builds the servers of the configuration, loads their plugins and
  initialises them, and \<open>src/src/main.cpp\<close> reads the configuration and runs the servers.

  A server is what its constructor was given, with its plugin host and the configurations of its
  plugins.  Parameters are the dynamic linker with the suffix of shared libraries, and whether a
  server can be constructed (sockets, certificates, web root).
\<close>

section \<open>Core\<close>

record app_server =
  as_tls :: bool
  as_ipv6 :: bool
  as_ip :: string
  as_port :: "16 word"
  as_threads :: "64 word"
  as_cert :: string
  as_key :: string
  as_chain :: string
  as_host :: plugin_host
  as_configs :: "(nat \<times> json) list"

record core_env =
  ce_linker :: linker
  ce_suffix :: string
  ce_construct :: "app_server \<Rightarrow> unit result"

definition DEFAULT_THREAD_COUNT :: "64 word" where
  "DEFAULT_THREAD_COUNT = 8"

definition plugin_file :: "core_env \<Rightarrow> string \<Rightarrow> string" where
  "plugin_file env name = ''plugin/'' @ name @ ce_suffix env"

definition load_listed :: "core_env \<Rightarrow> json \<Rightarrow> app_server \<Rightarrow> app_server \<times> unit result" where
  "load_listed env value s =
     (case value of
        JString name \<Rightarrow>
          (case loadPlugin (ce_linker env) (plugin_file env name) (as_host s) of
             (host, res) \<Rightarrow> (s\<lparr>as_host := host\<rparr>, rmap (\<lambda>_. ()) res))
      | _ \<Rightarrow>
          (case rbind (jindex value 0) jstring of
             Inl e \<Rightarrow> (s, Inl e)
           | Inr name \<Rightarrow>
               (case loadPlugin (ce_linker env) (plugin_file env name) (as_host s) of
                  (host, Inl e) \<Rightarrow> (s\<lparr>as_host := host\<rparr>, Inl e)
                | (host, Inr (p, pl, h)) \<Rightarrow>
                    (case jindex value 1 of
                       Inl e \<Rightarrow> (s\<lparr>as_host := host\<rparr>, Inl e)
                     | Inr config \<Rightarrow> (s\<lparr>as_host := host, as_configs := (pl_ref pl, config) # as_configs s\<rparr>, Inr ())))))"

fun load_all :: "core_env \<Rightarrow> json list \<Rightarrow> app_server \<Rightarrow> app_server \<times> unit result" where
  "load_all env [] s = (s, Inr ())"
| "load_all env (v # vs) s =
     (case load_listed env v s of
        (s', Inr _) \<Rightarrow> load_all env vs s'
      | stop \<Rightarrow> stop)"

text \<open>
  \<open>makeHTTP\<close>.  When it throws, the server it built is deleted.
\<close>

definition makeHTTP :: "core_env \<Rightarrow> json \<Rightarrow> app_server \<Rightarrow> app_server result" where
  "makeHTTP env suboptions server =
     rbind (rbind (jat suboptions ''ip'') jstring) (\<lambda>_.
     rbind (jat suboptions ''port'') (\<lambda>_.
       case jfind suboptions ''plugins'' of
         None \<Rightarrow> Inr server
       | Some plugins \<Rightarrow>
           (case load_all env (jitems plugins) server of
              (s, Inl e) \<Rightarrow> Inl e
            | (s, Inr _) \<Rightarrow> Inr (s\<lparr>as_host := preinitPlugins (as_host s)\<rparr>))))"

definition optional_string :: "json \<Rightarrow> string \<Rightarrow> string result" where
  "optional_string options key = (case jfind options key of None \<Rightarrow> Inr [] | Some v \<Rightarrow> jstring v)"

definition thread_count :: "json \<Rightarrow> 64 word result" where
  "thread_count options =
     (case jfind options ''threads'' of None \<Rightarrow> Inr DEFAULT_THREAD_COUNT | Some v \<Rightarrow> rmap word_of_int (jnumber v))"

definition server_at ::
  "core_env \<Rightarrow> json \<Rightarrow> bool \<Rightarrow> string \<Rightarrow> 16 word \<Rightarrow> string \<times> string \<times> string \<Rightarrow> app_server result" where
  "server_at env suboptions tls ip port certs =
     rbind (thread_count suboptions) (\<lambda>threads.
       let server = \<lparr>as_tls = tls, as_ipv6 = (CHR '':'' \<in> set ip), as_ip = ip, as_port = port, as_threads = threads,
             as_cert = fst certs, as_key = fst (snd certs), as_chain = snd (snd certs),
             as_host = \<lparr>ph_plugins = [], ph_log = []\<rparr>, as_configs = []\<rparr>
       in rbind (ce_construct env server) (\<lambda>_. makeHTTP env suboptions server))"

definition http_server_of :: "core_env \<Rightarrow> json \<Rightarrow> app_server result" where
  "http_server_of env suboptions =
     rbind (rbind (jat suboptions ''ip'') jstring) (\<lambda>ip.
     rbind (rbind (jat suboptions ''port'') jnumber) (\<lambda>port.
       server_at env suboptions False ip (word_of_int port) ([], [], [])))"

definition https_server_of :: "core_env \<Rightarrow> json \<Rightarrow> app_server result" where
  "https_server_of env suboptions =
     rbind (rbind (jat suboptions ''port'') jnumber) (\<lambda>port.
     rbind (rbind (jat suboptions ''ip'') jstring) (\<lambda>ip.
     rbind (optional_string suboptions ''cert'') (\<lambda>cert.
     rbind (optional_string suboptions ''key'') (\<lambda>key.
     rbind (optional_string suboptions ''chain'') (\<lambda>chain.
       server_at env suboptions True ip (word_of_int port) (cert, key, chain))))))"

text \<open>One of the two entries of the configuration; the servers that were built before stay.\<close>

definition add_server :: "json option \<Rightarrow> (json \<Rightarrow> app_server result) \<Rightarrow> app_server list \<Rightarrow> app_server list \<times> unit result" where
  "add_server entry build servers =
     (case entry of
        None \<Rightarrow> (servers, Inr ())
      | Some suboptions \<Rightarrow>
          (case build suboptions of
             Inl e \<Rightarrow> (servers, Inl e)
           | Inr s \<Rightarrow> (servers @ [s], Inr ())))"

definition core_run :: "core_env \<Rightarrow> json \<Rightarrow> app_server list \<Rightarrow> app_server list \<times> unit result" where
  "core_run env options servers =
     (if servers \<noteq> [] then (servers, Inl (RuntimeError (''Can'' @ [CHR 0x27] @ ''t run: servers already present'')))
      else case add_server (jfind options ''http'') (http_server_of env) servers of
        (servers, Inl e) \<Rightarrow> (servers, Inl e)
      | (servers, Inr _) \<Rightarrow>
          (case add_server (jfind options ''https'') (https_server_of env) servers of
             (servers, Inl e) \<Rightarrow> (servers, Inl e)
           | (servers, Inr _) \<Rightarrow>
               (map (\<lambda>s. s\<lparr>as_host := postinitPlugins (as_host s)\<rparr>) servers, Inr ())))"

definition getSSLServer :: "app_server list \<Rightarrow> app_server option" where
  "getSSLServer servers = find as_tls servers"

section \<open>The program\<close>

definition home_of :: "string list \<Rightarrow> string option" where
  "home_of argv = (if 2 < length argv \<and> argv ! 1 = ''--home'' then Some (argv ! 2) else None)"

definition options_file :: "string list \<Rightarrow> string" where
  "options_file argv = (if length argv \<le> 1 \<or> argv ! 1 = ''dbg'' then ''algiz.json'' else argv ! 1)"

text \<open>
  What \<open>main\<close> asks of its surroundings: changing the directory, installing the signal handlers,
  reading and parsing the options and opening the database of countries.
\<close>

record main_env =
  me_chdir :: "string \<Rightarrow> unit result"
  me_signals :: "unit result"
  me_read :: "string \<Rightarrow> string result"
  me_parse :: "string \<Rightarrow> json result"
  me_geoip :: "string \<Rightarrow> unit result"
  me_core :: core_env

text \<open>The options are read from the directory that was changed to; the servers then run until each has stopped.\<close>

definition algiz_main :: "main_env \<Rightarrow> string list \<Rightarrow> app_server list \<times> int" where
  "algiz_main env argv =
     (case rbind (case home_of argv of None \<Rightarrow> Inr () | Some dir \<Rightarrow> me_chdir env dir) (\<lambda>_.
             rbind (me_signals env) (\<lambda>_.
             rbind (rbind (me_read env (options_file argv)) (me_parse env)) (\<lambda>options.
             rmap (\<lambda>_. options)
               (case jfind options ''geoip'' of None \<Rightarrow> Inr () | Some v \<Rightarrow> rbind (jstring v) (me_geoip env))))) of
        Inl e \<Rightarrow> ([], 1)
      | Inr options \<Rightarrow>
          (case core_run (me_core env) options [] of
             (servers, Inl e) \<Rightarrow> ([], 1)
           | (servers, Inr _) \<Rightarrow> (servers, 0)))"

section \<open>Start-up, verified\<close>

lemma loadPlugin_keeps_log: "loadPlugin ln p host = (host', res) \<Longrightarrow> ph_log host' = ph_log host"
  by (auto simp: loadPlugin_def Let_def split: sum.splits if_splits option.splits)

lemma load_listed_keeps:
  "load_listed env v s = (s', res) \<Longrightarrow>
   ph_log (as_host s') = ph_log (as_host s) \<and> as_tls s' = as_tls s \<and> as_ipv6 s' = as_ipv6 s \<and> as_ip s' = as_ip s"
  by (auto simp: load_listed_def split: json.splits prod.splits sum.splits dest: loadPlugin_keeps_log)

lemma load_all_keeps:
  "load_all env vs s = (s', res) \<Longrightarrow>
   ph_log (as_host s') = ph_log (as_host s) \<and> as_tls s' = as_tls s \<and> as_ipv6 s' = as_ipv6 s \<and> as_ip s' = as_ip s"
proof (induction vs arbitrary: s)
  case (Cons v vs)
  obtain s1 r1 where step: "load_listed env v s = (s1, r1)" by fastforce
  from Cons load_listed_keeps [OF step] show ?case
    by (cases r1) (auto simp: step)
qed simp

text \<open>The names in the configuration and the plugins they load, in order.\<close>

definition listed_name :: "json \<Rightarrow> string result" where
  "listed_name v = (case v of JString name \<Rightarrow> Inr name | _ \<Rightarrow> rbind (jindex v 0) jstring)"

definition listed_plugin :: "core_env \<Rightarrow> json \<Rightarrow> plugin_tuple \<Rightarrow> bool" where
  "listed_plugin env v tuple \<longleftrightarrow>
     rbind (listed_name v) (\<lambda>name. ln_canonical (ce_linker env) (plugin_file env name)) = Inr (fst tuple)"

lemma load_listed_plugin:
  assumes "load_listed env v s = (s', Inr ())"
  obtains tuple where "ph_plugins (as_host s') = ph_plugins (as_host s) @ [tuple]" "listed_plugin env v tuple"
  using assms
  by (auto simp: load_listed_def listed_plugin_def listed_name_def loadPlugin_def Let_def
      split: json.splits sum.splits prod.splits option.splits if_splits)

lemma load_all_plugins:
  assumes "load_all env vs s = (s', Inr ())"
  shows "\<exists>tuples. ph_plugins (as_host s') = ph_plugins (as_host s) @ tuples \<and> list_all2 (listed_plugin env) vs tuples"
  using assms
proof (induction vs arbitrary: s)
  case (Cons v vs)
  then obtain s1 where step: "load_listed env v s = (s1, Inr ())" "load_all env vs s1 = (s', Inr ())"
    by (auto split: prod.splits sum.splits)
  from step(1) obtain tuple where "ph_plugins (as_host s1) = ph_plugins (as_host s) @ [tuple]" "listed_plugin env v tuple"
    by (rule load_listed_plugin)
  with Cons.IH [OF step(2)] show ?case by force
qed simp

text \<open>A server that was built and not yet initialised.\<close>

definition built :: "core_env \<Rightarrow> json \<Rightarrow> bool \<Rightarrow> app_server \<Rightarrow> bool" where
  "built env suboptions tls s \<longleftrightarrow>
     as_tls s = tls \<and> as_ipv6 s = (CHR '':'' \<in> set (as_ip s))
     \<and> list_all2 (listed_plugin env) (case jfind suboptions ''plugins'' of None \<Rightarrow> [] | Some ps \<Rightarrow> jitems ps) (ph_plugins (as_host s))
     \<and> ph_log (as_host s) = map (\<lambda>(p, pl, h). Preinit pl) (ph_plugins (as_host s))"

lemma server_at_built:
  assumes "server_at env suboptions tls ip port certs = Inr s"
  shows "built env suboptions tls s"
proof -
  obtain threads where run: "makeHTTP env suboptions \<lparr>as_tls = tls, as_ipv6 = (CHR '':'' \<in> set ip), as_ip = ip, as_port = port,
      as_threads = threads, as_cert = fst certs, as_key = fst (snd certs), as_chain = snd (snd certs),
      as_host = \<lparr>ph_plugins = [], ph_log = []\<rparr>, as_configs = []\<rparr> = Inr s"
    using assms by (auto simp: server_at_def Let_def rbind_eq_Inr_iff)
  then show ?thesis
    by (auto simp: makeHTTP_def built_def rbind_eq_Inr_iff preinitPlugins_def split: option.splits prod.splits sum.splits
        dest: load_all_keeps load_all_plugins)
qed

lemma http_built: "http_server_of env o' = Inr s \<Longrightarrow> built env o' False s"
  by (auto simp: http_server_of_def rbind_eq_Inr_iff intro: server_at_built)

lemma https_built: "https_server_of env o' = Inr s \<Longrightarrow> built env o' True s"
  by (auto simp: https_server_of_def rbind_eq_Inr_iff intro: server_at_built)

lemma built_no_postinit: "built env o' tls s \<Longrightarrow> Postinit pl \<notin> set (ph_log (as_host s))"
  by (auto simp: built_def)

text \<open>The servers a configuration asks for.\<close>

definition configured :: "json \<Rightarrow> (bool \<times> json) list" where
  "configured options =
     (case jfind options ''http'' of None \<Rightarrow> [] | Some o' \<Rightarrow> [(False, o')])
     @ (case jfind options ''https'' of None \<Rightarrow> [] | Some o' \<Rightarrow> [(True, o')])"

definition started :: "core_env \<Rightarrow> bool \<times> json \<Rightarrow> app_server \<Rightarrow> bool" where
  "started env entry s \<longleftrightarrow>
     as_tls s = fst entry \<and> as_ipv6 s = (CHR '':'' \<in> set (as_ip s))
     \<and> list_all2 (listed_plugin env) (case jfind (snd entry) ''plugins'' of None \<Rightarrow> [] | Some ps \<Rightarrow> jitems ps) (ph_plugins (as_host s))
     \<and> ph_log (as_host s) = map (\<lambda>(p, pl, h). Preinit pl) (ph_plugins (as_host s)) @ map (\<lambda>(p, pl, h). Postinit pl) (ph_plugins (as_host s))"

lemma built_started: "built env o' tls s \<Longrightarrow> started env (tls, o') (s\<lparr>as_host := postinitPlugins (as_host s)\<rparr>)"
  by (simp add: built_def started_def postinitPlugins_def)

lemma started_tls: "started env (tls, o') s \<Longrightarrow> as_tls s = tls"
  by (simp add: started_def)


definition toy_core :: core_env where
  "toy_core = \<lparr>ce_linker = \<lparr>ln_canonical = (\<lambda>p. Inr p), ln_exists = (\<lambda>p. True), ln_dlopen = (\<lambda>p. Some 7), ln_dlerror = [],
       ln_make_plugin = (\<lambda>lib. Some \<lparr>pl_ref = 1, pl_name = ''toy''\<rparr>)\<rparr>,
     ce_suffix = ''.so'', ce_construct = (\<lambda>s. Inr ())\<rparr>"

definition toy_options :: json where
  "toy_options = JObject [(''http'', JObject [(''ip'', JString ''::1''), (''plugins'', JArray [JString ''toy'']), (''port'', JInt 65616)])]"


text \<open>A core that already has servers does not start, and keeps them.\<close>

lemma core_run_twice: "servers \<noteq> [] \<Longrightarrow> \<exists>e. core_run env options servers = (servers, Inl e)"
  by (simp add: core_run_def)

text \<open>With a home directory given, the name of the option is taken for the name of the file.\<close>

lemma home_option_is_file: "options_file [''algiz'', ''--home'', dir] = ''--home''"
  by (simp add: options_file_def)

text \<open>The exit code tells whether the servers were started.\<close>

lemma main_exit_code:
  "algiz_main env argv = (servers, code) \<Longrightarrow> code = 0 \<or> (code = 1 \<and> servers = [])"
  by (auto simp: algiz_main_def split: sum.splits prod.splits)

end
