(* ===== verification/Lets_Encrypt.thy ===== *)
theory Lets_Encrypt
  imports Small_Plugins Json_Value Mt_Queue
begin

text \<open>
  The certificate plugin \<open>src/src/plugins/letsencrypt/LetsEncrypt.cpp\<close>: it answers the challenges of
  the certificate authority over HTTP, hands new certificates to the TLS server and keeps them in a
  cache directory.

  Parameters are the client of the authority (acme-lw), which for a host makes a sequence of calls
  of the challenge callback and then returns a certificate or fails, and the JSON parser; files are
  written through a log of effects.  The type variable \<open>'r\<close> is that of the TLS server's callback
  \<open>requestCertificate\<close>.
\<close>

definition MAX_CHALLENGES :: nat where
  "MAX_CHALLENGES = 128"

record certificate =
  ce_fullchain :: string
  ce_privkey :: string
  ce_expiry :: int

record 'r lets_encrypt =
  le_acmeClient :: bool
  le_oldRequestCertificate :: "'r option"
  le_whitelist :: "string list option"
  le_challenges :: "(string \<times> string) list"
  le_challengeIterators :: "string list"
  le_pool :: "string list"

datatype le_effect =
    AddCertificate string string string string
  | CreateDirectory string
  | WriteFile string json

section \<open>Challenges\<close>

text \<open>An iterator into the table is the key of its element.\<close>

function evict_challenges :: "(string \<times> string) list \<Rightarrow> string list \<Rightarrow> (string \<times> string) list \<times> string list" where
  "evict_challenges challenges [] = (challenges, [])"
| "evict_challenges challenges (k # ks) =
     (if MAX_CHALLENGES < length (k # ks) then evict_challenges (omap_del k challenges) ks else (challenges, k # ks))"
  by pat_completeness auto
termination
  by (relation "measure (\<lambda>(challenges, ks). length ks)") auto

definition emplace_challenge :: "string \<Rightarrow> string \<Rightarrow> 'r lets_encrypt \<Rightarrow> 'r lets_encrypt" where
  "emplace_challenge path authorization le =
     (if map_of (le_challenges le) path \<noteq> None then le
      else case evict_challenges (omap_put path authorization (le_challenges le)) (le_challengeIterators le @ [path]) of
        (challenges, iterators) \<Rightarrow> le\<lparr>le_challenges := challenges, le_challengeIterators := iterators\<rparr>)"

definition braced :: "string \<Rightarrow> string" where
  "braced s = ''{'' @ s @ ''}''"

definition challenge_callback ::
  "string \<Rightarrow> string \<Rightarrow> string \<Rightarrow> string \<Rightarrow> 'r lets_encrypt \<Rightarrow> 'r lets_encrypt \<times> unit result" where
  "challenge_callback host domain key authorization le =
     (let prefix = ''http://'' @ host @ ''/'' in
      if domain \<noteq> host
      then (le, Inl (RuntimeError (''Mismatch between host '' @ braced host @ '' and domain '' @ braced domain)))
      else if take (length prefix) key \<noteq> prefix
      then (le, Inl (RuntimeError (''Key parameter '' @ braced key @ '' doesn'' @ [CHR 0x27] @ ''t begin with expected '' @ braced prefix)))
      else (emplace_challenge (drop (length prefix - 1) key) authorization le, Inr ()))"

definition challenge_prefix :: string where
  "challenge_prefix = ''/.well-known/acme-challenge/''"

text \<open>The two handlers for exceptions guard calls that do not throw in the model.\<close>

definition letsencrypt_handle :: "'r lets_encrypt handler_args handler" where
  "letsencrypt_handle args enabled =
     (let le = ha_world args; path = rq_path (ha_request args) in
      if \<not> enabled \<or> \<not> le_acmeClient le then (args, Inr Pass)
      else if take (length challenge_prefix) path = challenge_prefix
      then (case map_of (le_challenges le) path of
              Some authorization \<Rightarrow>
                (logged [response_call (ha_client args) (HtmlResponse 200 authorization)] args, Inr Approve)
            | None \<Rightarrow>
                (logged (response_call (ha_client args) (HtmlResponse 404 ''Not Found'')
                  # (if cf_keepAlive (cl_flags (ha_client args)) then [] else [CloseClient (cl_id (ha_client args))])) args,
                 Inr Kill))
      else (args, Inr Pass))"

section \<open>Certificates\<close>

definition end_marker :: string where
  "end_marker = ''-----END CERTIFICATE-----''"

definition cache_path :: "string \<Rightarrow> string" where
  "cache_path host = ''certs/'' @ host @ ''.json''"

definition cached_certificate :: "int \<Rightarrow> string \<Rightarrow> string \<Rightarrow> string \<Rightarrow> string \<Rightarrow> json" where
  "cached_certificate expiry host cert privkey chain =
     JObject [(''cert'', JString cert), (''chain'', JString chain), (''expiry'', JInt expiry), (''hostname'', JString host),
       (''privkey'', JString privkey)]"

text \<open>\<open>ensureDirectory\<close>: \<open>certs_exists\<close> tells whether the directory is there.\<close>

definition ensureDirectory :: "bool \<Rightarrow> le_effect list" where
  "ensureDirectory certs_exists = (if certs_exists then [] else [CreateDirectory ''certs''])"

definition finishCertificate :: "bool \<Rightarrow> bool \<Rightarrow> string \<Rightarrow> certificate \<Rightarrow> le_effect list \<times> unit result" where
  "finishCertificate ssl certs_exists host certificate =
     (if \<not> ssl then ([], Inr ())
      else case find_str end_marker (ce_fullchain certificate) of
        None \<Rightarrow> ([], Inl (RuntimeError (''Couldn'' @ [CHR 0x27] @ ''t find end of first fullchain cert'')))
      | Some position \<Rightarrow>
          let first_cert = take (position + length end_marker) (ce_fullchain certificate);
              rest_of_chain = drop (length first_cert) (ce_fullchain certificate);
              added = AddCertificate host first_cert (ce_privkey certificate) rest_of_chain in
          if CHR ''/'' \<in> set host then ([added], Inr ())
          else ([added] @ ensureDirectory certs_exists @
                  [WriteFile (cache_path host)
                     (cached_certificate (ce_expiry certificate) host first_cert (ce_privkey certificate) rest_of_chain)], Inr ()))"

fun run_callbacks ::
  "string \<Rightarrow> (string \<times> string \<times> string) list \<Rightarrow> 'r lets_encrypt \<Rightarrow> 'r lets_encrypt \<times> unit result" where
  "run_callbacks host [] le = (le, Inr ())"
| "run_callbacks host ((domain, key, authorization) # calls) le =
     (case challenge_callback host domain key authorization le of
        (le', Inr _) \<Rightarrow> run_callbacks host calls le'
      | stop \<Rightarrow> stop)"

text \<open>The authority's answer for a host: the callbacks and a certificate, or a failure of its own type.\<close>

type_synonym acme = "string \<Rightarrow> (string \<times> string \<times> string) list \<times> certificate option"

definition issueCertificate ::
  "acme \<Rightarrow> bool \<Rightarrow> bool \<Rightarrow> string \<Rightarrow> 'r lets_encrypt \<Rightarrow> ('r lets_encrypt \<times> le_effect list) \<times> unit result" where
  "issueCertificate acme ssl certs_exists host le =
     (if (case le_whitelist le of None \<Rightarrow> False | Some w \<Rightarrow> host \<notin> set w) then ((le, []), Inr ())
      else if \<not> le_acmeClient le then ((le, []), Inl (UndefinedBehaviour ''empty optional''))
      else case acme host of (calls, answer) \<Rightarrow>
        (case run_callbacks host calls le of
           (le', Inl e) \<Rightarrow> ((le', []), Inl e)
         | (le', Inr _) \<Rightarrow>
             (case answer of
                None \<Rightarrow> ((le', []), Inr ())
              | Some certificate \<Rightarrow>
                  (case finishCertificate ssl certs_exists host certificate of (effects, res) \<Rightarrow> ((le', effects), res)))))"

definition load_entry :: "int \<Rightarrow> json \<Rightarrow> le_effect list result" where
  "load_entry now json =
     rbind (rbind (jat json ''hostname'') jstring) (\<lambda>hostname.
     rbind (rbind (jat json ''expiry'') jnumber) (\<lambda>expiry.
     if expiry \<le> now then Inr []
     else
       rbind (rbind (jat json ''cert'') jstring) (\<lambda>cert.
       rbind (rbind (jat json ''privkey'') jstring) (\<lambda>privkey.
       rmap (\<lambda>chain. [AddCertificate hostname cert privkey chain]) (rbind (jat json ''chain'') jstring)))))"

text \<open>
  The files of the cache directory with their contents, in the order of the iterator; a file that
  cannot be read or parsed throws.
\<close>

definition has_json_extension :: "string \<Rightarrow> bool" where
  "has_json_extension name \<longleftrightarrow> extension [name] = ''.json''"

fun load_entries ::
  "(string \<Rightarrow> json result) \<Rightarrow> int \<Rightarrow> (string \<times> string result) list \<Rightarrow> le_effect list \<times> unit result" where
  "load_entries parse now [] = ([], Inr ())"
| "load_entries parse now ((name, content) # entries) =
     (if has_json_extension name
      then (case rbind (rbind content parse) (load_entry now) of
              Inl e \<Rightarrow> ([], Inl e)
            | Inr effects \<Rightarrow> (case load_entries parse now entries of (more_effects, res) \<Rightarrow> (effects @ more_effects, res)))
      else load_entries parse now entries)"

definition loadCache ::
  "(string \<Rightarrow> json result) \<Rightarrow> int \<Rightarrow> bool \<Rightarrow> (string \<times> string result) list option \<Rightarrow> le_effect list \<times> unit result" where
  "loadCache parse now ssl certs =
     (if \<not> ssl then ([], Inr ()) else case certs of None \<Rightarrow> ([], Inr ()) | Some entries \<Rightarrow> load_entries parse now entries)"

section \<open>Life cycle\<close>

text \<open>
  The condition on the option accepts everything but a missing key, for which it looks at the end
  iterator.  \<open>ssl\<close> is the callback of the server the plugin is loaded on, when that is a TLS server;
  \<open>request\<close> is the plugin's own callback.
\<close>

definition account_key :: "(string \<Rightarrow> string result) \<Rightarrow> json \<Rightarrow> string result" where
  "account_key read config =
     (case jfind config ''accountKey'' of
        None \<Rightarrow> Inl (UndefinedBehaviour ''end iterator'')
      | Some v \<Rightarrow> rbind (jstring v) read)"

definition letsencrypt_init ::
  "(string \<Rightarrow> string result) \<Rightarrow> (string \<Rightarrow> unit result) \<Rightarrow> json \<Rightarrow> 'r lets_encrypt \<Rightarrow> 'r lets_encrypt \<times> unit result" where
  "letsencrypt_init read acme_init config le =
     (case account_key read config of
        Inl e \<Rightarrow> (le, Inl e)
      | Inr key \<Rightarrow>
          (case (case jfind config ''whitelist'' of None \<Rightarrow> Inr le
                 | Some v \<Rightarrow> rmap (\<lambda>w. le\<lparr>le_whitelist := Some w\<rparr>) (jstring_set v)) of
             Inl e \<Rightarrow> (le, Inl e)
           | Inr le \<Rightarrow>
               (case acme_init key of
                  Inl e \<Rightarrow> (le, Inl e)
                | Inr _ \<Rightarrow> (le\<lparr>le_acmeClient := True\<rparr>, Inr ()))))"

definition letsencrypt_swap :: "'r \<Rightarrow> 'r option \<Rightarrow> 'r lets_encrypt \<Rightarrow> 'r lets_encrypt \<times> 'r option" where
  "letsencrypt_swap request ssl le =
     (case ssl of None \<Rightarrow> (le, None) | Some old \<Rightarrow> (le\<lparr>le_oldRequestCertificate := Some old\<rparr>, Some request))"

text \<open>
  The whole of \<open>postinit\<close>: the handler is registered before the configuration is read.
\<close>

definition letsencrypt_postinit where
  "letsencrypt_postinit read acme_init parse now certs request config hs le ssl =
     (let hs = register_get letsencrypt_handle hs in
      case letsencrypt_init read acme_init config le of
        (le, Inl e) \<Rightarrow> ((hs, le, ssl, []), Inl e)
      | (le, Inr _) \<Rightarrow>
          (case ssl of
             None \<Rightarrow> ((hs, le, ssl, []), Inr ())
           | Some old \<Rightarrow>
               (case loadCache parse now True certs of
                  (effects, Inl e) \<Rightarrow> ((hs, le, ssl, effects), Inl e)
                | (effects, Inr _) \<Rightarrow>
                    (case letsencrypt_swap request ssl le of (le, ssl) \<Rightarrow> ((hs, le, ssl, effects), Inr ())))))"

text \<open>The plugin's callback queues the host; \<open>cleanup\<close> gives the old callback back.\<close>

definition request_certificate :: "string \<Rightarrow> 'r lets_encrypt \<Rightarrow> 'r lets_encrypt" where
  "request_certificate servername le = le\<lparr>le_pool := mtq_push servername (le_pool le)\<rparr>"

definition letsencrypt_cleanup where
  "letsencrypt_cleanup hs le ssl =
     (unregister_get letsencrypt_handle hs, le\<lparr>le_acmeClient := False\<rparr>,
      case le_oldRequestCertificate le of None \<Rightarrow> ssl | Some old \<Rightarrow> map_option (\<lambda>_. old) ssl)"

section \<open>The challenges, verified\<close>

text \<open>
  The promise of the table: a queue of the most recent challenges, each path once, at most
  \<open>MAX_CHALLENGES\<close> of them.
\<close>

definition remember :: "string \<times> string \<Rightarrow> (string \<times> string) list \<Rightarrow> (string \<times> string) list" where
  "remember ka q =
     (if fst ka \<in> fst ` set q then q else drop (Suc (length q) - MAX_CHALLENGES) (q @ [ka]))"

definition challenge_queue :: "'r lets_encrypt \<Rightarrow> (string \<times> string) list" where
  "challenge_queue le = map (\<lambda>k. (k, the (map_of (le_challenges le) k))) (le_challengeIterators le)"

definition challenges_ok :: "'r lets_encrypt \<Rightarrow> bool" where
  "challenges_ok le \<longleftrightarrow> omap_ok (le_challenges le) \<and> distinct (le_challengeIterators le)
     \<and> dom (map_of (le_challenges le)) = set (le_challengeIterators le)
     \<and> length (le_challengeIterators le) \<le> MAX_CHALLENGES"

lemma evict_challenges_drop:
  assumes "omap_ok m" and "distinct ks" and "dom (map_of m) = set ks" and "evict_challenges m ks = (m', ks')"
  shows "ks' = drop (length ks - MAX_CHALLENGES) ks \<and> omap_ok m' \<and> dom (map_of m') = set ks'
    \<and> (\<forall>k \<in> set ks'. map_of m' k = map_of m k)"
  using assms
proof (induction m ks rule: evict_challenges.induct)
  case (2 m k ks)
  show ?case
  proof (cases "MAX_CHALLENGES < length (k # ks)")
    case True
    have dom: "dom (map_of (omap_del k m)) = set ks"
      using 2(2-4) by (auto simp: map_of_omap_del dom_def split: if_splits)
    have "drop (length (k # ks) - MAX_CHALLENGES) (k # ks) = drop (length ks - MAX_CHALLENGES) ks"
      using True by (simp add: Suc_diff_le)
    moreover have "evict_challenges (omap_del k m) ks = (m', ks')" "distinct ks" "k \<notin> set ks"
      using True 2(3,5) by simp_all
    moreover note 2(1) [OF True omap_ok_del [OF 2(2)] this(2) dom this(1)]
    ultimately show ?thesis
      using 2(2) by (auto simp: map_of_omap_del dest: in_set_dropD)
  qed (use 2 in auto)
qed auto

lemma emplace_challenge_remember:
  assumes "challenges_ok le"
  shows "challenges_ok (emplace_challenge k a le)"
    and "challenge_queue (emplace_challenge k a le) = remember (k, a) (challenge_queue le)"
proof -
  let ?m = "le_challenges le" and ?ks = "le_challengeIterators le"
  have keys: "fst ` set (challenge_queue le) = set ?ks" by (force simp: challenge_queue_def)
  have "challenges_ok (emplace_challenge k a le)
    \<and> challenge_queue (emplace_challenge k a le) = remember (k, a) (challenge_queue le)"
  proof (cases "map_of ?m k = None")
    case False
    then have "k \<in> set ?ks" using assms by (auto simp: challenges_ok_def)
    with False assms keys show ?thesis by (simp add: emplace_challenge_def remember_def)
  next
    case True
    then have new: "k \<notin> set ?ks" using assms by (auto simp: challenges_ok_def)
    obtain m' ks' where run: "evict_challenges (omap_put k a ?m) (?ks @ [k]) = (m', ks')" by fastforce
    have pre: "omap_ok (omap_put k a ?m)" "distinct (?ks @ [k])" "dom (map_of (omap_put k a ?m)) = set (?ks @ [k])"
      using assms new by (auto simp: challenges_ok_def omap_ok_put map_of_omap_put dom_def split: if_splits)
    note ev = evict_challenges_drop [OF pre run]
    have q: "map (\<lambda>k'. (k', the (map_of m' k'))) ks' = drop (Suc (length ?ks) - MAX_CHALLENGES) (challenge_queue le @ [(k, a)])"
    proof -
      have "map (\<lambda>k'. (k', the (map_of m' k'))) ks' = map (\<lambda>k'. (k', the (map_of (omap_put k a ?m) k'))) ks'"
        using ev by simp
      also have "map (\<lambda>k'. (k', the (map_of (omap_put k a ?m) k'))) (?ks @ [k]) = challenge_queue le @ [(k, a)]"
        using new by (auto simp: challenge_queue_def map_of_omap_put)
      then have "drop (Suc (length ?ks) - MAX_CHALLENGES) (challenge_queue le @ [(k, a)]) =
          map (\<lambda>k'. (k', the (map_of (omap_put k a ?m) k'))) ks'"
        unfolding conjunct1 [OF ev] by (simp only: length_append_singleton flip: drop_map)
      then have "map (\<lambda>k'. (k', the (map_of (omap_put k a ?m) k'))) ks' =
          drop (Suc (length ?ks) - MAX_CHALLENGES) (challenge_queue le @ [(k, a)])" ..
      finally show ?thesis .
    qed
    have "length ks' \<le> MAX_CHALLENGES" "distinct ks'"
      unfolding conjunct1 [OF ev] using assms distinct_drop [OF pre(2)] by (simp add: challenges_ok_def, simp only:)
    with ev True run new q keys show ?thesis
      by (simp add: emplace_challenge_def challenges_ok_def remember_def challenge_queue_def)
  qed
  then show "challenges_ok (emplace_challenge k a le)"
    "challenge_queue (emplace_challenge k a le) = remember (k, a) (challenge_queue le)" by blast+
qed

lemma challenge_lookup:
  assumes "challenges_ok le"
  shows "map_of (le_challenges le) = map_of (challenge_queue le)"
proof
  fix k
  have "map_of (map (\<lambda>k. (k, f k)) ks) k = (if k \<in> set ks then Some (f k) else None)" for f :: "string \<Rightarrow> string" and ks
    by (induction ks) auto
  then show "map_of (le_challenges le) k = map_of (challenge_queue le) k"
    using assms domIff [of k "map_of (le_challenges le)"] by (auto simp: challenges_ok_def challenge_queue_def)
qed

definition new_lets_encrypt :: "'r lets_encrypt" where
  "new_lets_encrypt = \<lparr>le_acmeClient = True, le_oldRequestCertificate = None, le_whitelist = None,
     le_challenges = [], le_challengeIterators = [], le_pool = []\<rparr>"

definition add_challenges :: "(string \<times> string) list \<Rightarrow> 'r lets_encrypt \<Rightarrow> 'r lets_encrypt" where
  "add_challenges kas le = fold (\<lambda>(k, a). emplace_challenge k a) kas le"

lemma add_challenges_simps [simp]:
  "add_challenges [] le = le"
  "add_challenges (ka # kas) le = add_challenges kas (emplace_challenge (fst ka) (snd ka) le)"
  by (simp_all add: add_challenges_def case_prod_unfold)

lemma add_challenges_queue:
  "challenges_ok le \<Longrightarrow> challenges_ok (add_challenges kas le)
     \<and> challenge_queue (add_challenges kas le) = fold remember kas (challenge_queue le)"
  by (induction kas arbitrary: le) (simp_all add: emplace_challenge_remember)

lemma emplace_challenge_client [simp]: "le_acmeClient (emplace_challenge k a le) = le_acmeClient le"
  by (simp add: emplace_challenge_def split: prod.splits)

lemma add_challenges_client [simp]: "le_acmeClient (add_challenges kas le) = le_acmeClient le"
  by (induction kas arbitrary: le) simp_all

text \<open>The authority asks for a path on the host; it is the path that goes into the table.\<close>

definition asks :: "string \<Rightarrow> (string \<times> string) list \<Rightarrow> (string \<times> string \<times> string) list" where
  "asks host kas = map (\<lambda>(k, a). (host, ''http://'' @ host @ k, a)) kas"

lemma run_callbacks_asks:
  assumes "list_all (\<lambda>(k, a). take 1 k = ''/'') kas"
  shows "run_callbacks host (asks host kas) le = (add_challenges kas le, Inr ())"
  using assms
proof (induction kas arbitrary: le)
  case (Cons ka kas)
  then obtain k a where "ka = (CHR ''/'' # k, a)"
    by (cases ka; cases "fst ka") auto
  with Cons show ?case by (simp add: asks_def challenge_callback_def)
qed (simp add: asks_def)


definition challenge_args :: "unit lets_encrypt \<Rightarrow> unit lets_encrypt handler_args" where
  "challenge_args le = \<lparr>ha_client = new_client 3 ''::1'',
     ha_request = new_request\<lparr>rq_path := ''/.well-known/acme-challenge/t''\<rparr>,
     ha_parts = [], ha_world = le, ha_log = []\<rparr>"


section \<open>The cache, verified\<close>

lemma extension_appended: "host \<noteq> [] \<Longrightarrow> extension [host @ ''.json''] = ''.json''"
proof -
  assume "host \<noteq> []"
  have nodot: "find_end ''.'' ''json'' = None" by simp
  have "find_end ''.'' (host @ ''.json'') = Some (length host)"
    by (induction host) (use nodot in auto)
  with \<open>host \<noteq> []\<close> show ?thesis
    by (cases host) (auto simp: extension_def filename_def dot_split_def findLast_def)
qed

lemma take_through: "s = a @ m @ r \<Longrightarrow> take (length a + length m) s = a @ m"
  by simp

lemma find_str_through: "find_str p s = Some k \<Longrightarrow> take (k + length p) s = take k s @ p"
  using take_through [OF find_str_split [of p s k]] find_str_bound [of p s k] by (simp add: min_absorb2)

text \<open>The two parts of a full chain: up to the first end marker, and what follows.\<close>

definition first_part :: "certificate \<Rightarrow> string" where
  "first_part cert = take (the (find_str end_marker (ce_fullchain cert)) + length end_marker) (ce_fullchain cert)"

definition rest_part :: "certificate \<Rightarrow> string" where
  "rest_part cert = drop (length (first_part cert)) (ce_fullchain cert)"

definition cache_entry :: "string \<Rightarrow> certificate \<Rightarrow> json" where
  "cache_entry host cert = cached_certificate (ce_expiry cert) host (first_part cert) (ce_privkey cert) (rest_part cert)"

lemma parts_join:
  assumes "find_str end_marker (ce_fullchain cert) \<noteq> None"
  shows "first_part cert @ rest_part cert = ce_fullchain cert"
    "drop (length (first_part cert) - length end_marker) (first_part cert) = end_marker"
proof -
  obtain k where k: "find_str end_marker (ce_fullchain cert) = Some k" using assms by blast
  show "first_part cert @ rest_part cert = ce_fullchain cert"
    using find_str_bound [OF k] by (simp add: first_part_def rest_part_def k min_absorb2)
  show "drop (length (first_part cert) - length end_marker) (first_part cert) = end_marker"
    using find_str_through [OF k] by (simp add: first_part_def k)
qed

lemma finishCertificate_effects:
  assumes "find_str end_marker (ce_fullchain cert) \<noteq> None" and "CHR ''/'' \<notin> set host"
  shows "finishCertificate True certs_exists host cert =
    ([AddCertificate host (first_part cert) (ce_privkey cert) (rest_part cert)] @ ensureDirectory certs_exists
       @ [WriteFile (''certs/'' @ host @ ''.json'') (cache_entry host cert)], Inr ())"
  using assms by (auto simp: finishCertificate_def cache_path_def Let_def first_part_def rest_part_def cache_entry_def)

lemma loadCache_entry:
  assumes "host \<noteq> []" and "parse content = Inr (cache_entry host cert)"
  shows "loadCache parse now True (Some [(host @ ''.json'', Inr content)]) =
    (if now < ce_expiry cert then [AddCertificate host (first_part cert) (ce_privkey cert) (rest_part cert)] else [], Inr ())"
proof -
  have "load_entry now (cache_entry host cert) =
      Inr (if now < ce_expiry cert then [AddCertificate host (first_part cert) (ce_privkey cert) (rest_part cert)] else [])"
    by (simp add: load_entry_def cache_entry_def cached_certificate_def jat_def jstring_def jnumber_def)
  moreover have "has_json_extension (host @ ''.json'')"
    using extension_appended [OF assms(1)] by (simp add: has_json_extension_def)
  ultimately show ?thesis using assms(2) by (simp add: loadCache_def)
qed

text \<open>
  The certificate cache: a certificate the authority issued is split into its first part, which
  ends with the end marker, and the rest of the chain, nothing lost; it is handed to the TLS server
  and, for a host that is no path, written to the cache.  Loading the file before the certificate
  expires gives the server the same certificate, key and chain for the same host again, and after
  it expired nothing.
\<close>

lemma certificate_cached:
  assumes "find_str end_marker (ce_fullchain cert) \<noteq> None" and "CHR ''/'' \<notin> set host" and "host \<noteq> []"
  shows "\<exists>first_cert chain json. first_cert @ chain = ce_fullchain cert
    \<and> drop (length first_cert - length end_marker) first_cert = end_marker
    \<and> finishCertificate True certs_exists host cert =
        ([AddCertificate host first_cert (ce_privkey cert) chain] @ ensureDirectory certs_exists
           @ [WriteFile (''certs/'' @ host @ ''.json'') json], Inr ())
    \<and> (\<forall>parse content now. parse content = Inr json \<longrightarrow>
        loadCache parse now True (Some [(host @ ''.json'', Inr content)]) =
          (if now < ce_expiry cert then [AddCertificate host first_cert (ce_privkey cert) chain] else [], Inr ()))"
  using parts_join [OF assms(1)] finishCertificate_effects [OF assms(1,2), of certs_exists] loadCache_entry [OF assms(3), of _ _ cert]
  by (intro exI [of _ "first_part cert"] exI [of _ "rest_part cert"] exI [of _ "cache_entry host cert"]) simp

lemma certificate_cached_example:
  "\<exists>first_cert chain json. first_cert @ chain = ''a'' @ end_marker @ ''b''
    \<and> finishCertificate True True ''h'' \<lparr>ce_fullchain = ''a'' @ end_marker @ ''b'', ce_privkey = ''k'', ce_expiry = 9\<rparr> =
        ([AddCertificate ''h'' first_cert ''k'' chain, WriteFile ''certs/h.json'' json], Inr ())
    \<and> loadCache (\<lambda>_. Inr json) 5 True (Some [(''h.json'', Inr [])]) = ([AddCertificate ''h'' first_cert ''k'' chain], Inr ())"
proof -
  let ?cert = "\<lparr>ce_fullchain = ''a'' @ end_marker @ ''b'', ce_privkey = ''k'', ce_expiry = 9\<rparr>"
  have "find_str end_marker (ce_fullchain ?cert) \<noteq> None" by (simp add: end_marker_def)
  from certificate_cached [OF this, of "''h''" True] obtain first_cert chain json where
    "first_cert @ chain = ce_fullchain ?cert"
    "finishCertificate True True ''h'' ?cert =
        ([AddCertificate ''h'' first_cert (ce_privkey ?cert) chain] @ ensureDirectory True @ [WriteFile (''certs/'' @ ''h'' @ ''.json'') json], Inr ())"
    and load: "\<And>parse content now. parse content = Inr json \<Longrightarrow>
        loadCache parse now True (Some [(''h'' @ ''.json'', Inr content)]) =
          (if now < ce_expiry ?cert then [AddCertificate ''h'' first_cert (ce_privkey ?cert) chain] else [], Inr ())"
    by auto
  moreover have "loadCache (\<lambda>_. Inr json) 5 True (Some [(''h.json'', Inr [])]) = ([AddCertificate ''h'' first_cert ''k'' chain], Inr ())"
    using load [of "\<lambda>_. Inr json" "[]" 5] by simp
  ultimately show ?thesis
    by (intro exI [of _ first_cert] exI [of _ chain] exI [of _ json]) (simp add: ensureDirectory_def)
qed

end
