(* ===== verification/Tls_Certs.thy ===== *)
theory Tls_Certs
  imports Lets_Encrypt
begin

text \<open>
  The certificates of the TLS server (\<open>src/src/net/SSLServer.cpp\<close>): \<open>addCertificate\<close> and the callback
  that picks a certificate by the name the peer asks for.

  OpenSSL is a parameter: reading one PEM object from a memory buffer gives the object, or nothing,
  and what is left of the buffer; writing to the buffer and the calls on a connection may fail.
\<close>

section \<open>Reading PEM\<close>

record ('x, 'k) pem =
  pem_new :: bool
  pem_puts :: "string \<Rightarrow> bool"
  pem_x509 :: "string \<Rightarrow> 'x option \<times> string"
  pem_key :: "string \<Rightarrow> 'k option \<times> string"

record ('x, 'k) certificates =
  cs_certificate :: "'x option"
  cs_privateKey :: "'k option"
  cs_chain :: "'x list"

text \<open>\<open>while ((intermediate = PEM_read_bio_X509(...)) != nullptr)\<close>.\<close>

partial_function (option) chain_loop :: "('x, 'k) pem \<Rightarrow> string \<Rightarrow> 'x list \<Rightarrow> ('x list \<times> string) option" where
  "chain_loop pem bio chain =
     (case pem_x509 pem bio of
        (None, bio') \<Rightarrow> Some (chain, bio')
      | (Some intermediate, bio') \<Rightarrow> chain_loop pem bio' (chain @ [intermediate]))"

text \<open>The old certificate of the host is erased first and stays away when an exception is thrown.\<close>

definition addCertificate ::
  "('x, 'k) pem \<Rightarrow> string \<Rightarrow> string \<Rightarrow> string \<Rightarrow> string \<Rightarrow> (string \<rightharpoonup> ('x, 'k) certificates)
   \<Rightarrow> ((string \<rightharpoonup> ('x, 'k) certificates) \<times> unit result) option" where
  "addCertificate pem hostname certificate private_key rest_of_chain m =
     (let m = m(hostname := None) in
      if \<not> pem_new pem then Some (m, Inl (RuntimeError (''Couldn'' @ [CHR 0x27] @ ''t create BIO'')))
      else if \<not> pem_puts pem certificate then Some (m, Inl (RuntimeError (''Couldn'' @ [CHR 0x27] @ ''t read certificate'')))
      else case pem_x509 pem certificate of (x509, bio) \<Rightarrow>
        if \<not> pem_puts pem rest_of_chain then Some (m, Inl (RuntimeError (''Couldn'' @ [CHR 0x27] @ ''t read rest of chain'')))
        else case chain_loop pem (bio @ rest_of_chain) [] of
          None \<Rightarrow> None
        | Some (chain, bio) \<Rightarrow>
            if \<not> pem_puts pem private_key then Some (m, Inl (RuntimeError (''Couldn'' @ [CHR 0x27] @ ''t read private key'')))
            else case pem_key pem (bio @ private_key) of (pkey, bio) \<Rightarrow>
              Some (m(hostname \<mapsto> \<lparr>cs_certificate = x509, cs_privateKey = pkey, cs_chain = chain\<rparr>), Inr ()))"

section \<open>Choosing a certificate\<close>

datatype ('x, 'k) ssl_call = UseCertificate "'x option" | AddChainCert 'x | UsePrivateKey "'k option"

datatype servername_result = TLSEXT_ERR_OK | TLSEXT_ERR_ALERT_FATAL

text \<open>Calls on the connection up to the first that fails.\<close>

fun ssl_calls :: "(('x, 'k) ssl_call \<Rightarrow> bool) \<Rightarrow> ('x, 'k) ssl_call list \<Rightarrow> ('x, 'k) ssl_call list \<times> servername_result" where
  "ssl_calls ok [] = ([], TLSEXT_ERR_OK)"
| "ssl_calls ok (c # cs) =
     (if ok c then (case ssl_calls ok cs of (made, res) \<Rightarrow> (c # made, res)) else ([c], TLSEXT_ERR_ALERT_FATAL))"

text \<open>
  The callback: what it does to the connection, the hosts it requests a certificate for, and its
  result.  \<open>can_request\<close> tells whether the server has a function to request certificates.
\<close>

definition servername_callback ::
  "(('x, 'k) ssl_call \<Rightarrow> bool) \<Rightarrow> bool \<Rightarrow> (string \<rightharpoonup> ('x, 'k) certificates) \<Rightarrow> string option
   \<Rightarrow> ('x, 'k) ssl_call list \<times> string list \<times> servername_result" where
  "servername_callback ok can_request m servername =
     (case servername of
        None \<Rightarrow> ([], [], TLSEXT_ERR_OK)
      | Some name \<Rightarrow>
          (case m name of
             Some cs \<Rightarrow>
               (case ssl_calls ok (UseCertificate (cs_certificate cs) # map AddChainCert (cs_chain cs) @ [UsePrivateKey (cs_privateKey cs)]) of
                  (made, res) \<Rightarrow> (made, [], res))
           | None \<Rightarrow> ([], if can_request then [name] else [], TLSEXT_ERR_OK)))"

text \<open>What the certificate plugin asks for.\<close>

fun apply_effects ::
  "('x, 'k) pem \<Rightarrow> le_effect list \<Rightarrow> (string \<rightharpoonup> ('x, 'k) certificates) \<Rightarrow> ((string \<rightharpoonup> ('x, 'k) certificates) \<times> unit result) option" where
  "apply_effects pem [] m = Some (m, Inr ())"
| "apply_effects pem (AddCertificate host cert key chain # effects) m =
     (case addCertificate pem host cert key chain m of
        Some (m', Inr _) \<Rightarrow> apply_effects pem effects m'
      | stop \<Rightarrow> stop)"
| "apply_effects pem (CreateDirectory d # effects) m = apply_effects pem effects m"
| "apply_effects pem (WriteFile p json # effects) m = apply_effects pem effects m"

section \<open>Verified\<close>

text \<open>A reader that takes the objects of a list from the front of the buffer.\<close>

fun reads_chain :: "('x, 'k) pem \<Rightarrow> string \<Rightarrow> 'x list \<Rightarrow> string \<Rightarrow> bool" where
  "reads_chain pem bio [] rest \<longleftrightarrow> pem_x509 pem bio = (None, rest)"
| "reads_chain pem bio (x # xs) rest \<longleftrightarrow> (\<exists>bio'. pem_x509 pem bio = (Some x, bio') \<and> reads_chain pem bio' xs rest)"

lemma chain_loop_reads: "reads_chain pem bio xs rest \<Longrightarrow> chain_loop pem bio acc = Some (acc @ xs, rest)"
  by (induction xs arbitrary: bio acc) (auto simp: chain_loop.simps)

lemma ssl_calls_all: "\<forall>c. ok c \<Longrightarrow> ssl_calls ok cs = (cs, TLSEXT_ERR_OK)"
  by (induction cs) auto

text \<open>
  A certificate that was added is used for its host and for no other: the peer that asks for the
  host gets the certificate, its chain in order and the key, and no new certificate is requested; a
  host without one is requested once.
\<close>

lemma added_certificate_used:
  assumes "pem_new pem" "pem_puts pem cert" "pem_puts pem rest" "pem_puts pem key"
    and "pem_x509 pem cert = (Some x, bio)" and "reads_chain pem (bio @ rest) xs bio'" and "pem_key pem (bio' @ key) = (Some k, bio'')"
    and "\<forall>c. ok c"
  obtains m' where "addCertificate pem host cert key rest m = Some (m', Inr ())"
    "servername_callback ok can_request m' (Some host) =
       (UseCertificate (Some x) # map AddChainCert xs @ [UsePrivateKey (Some k)], [], TLSEXT_ERR_OK)"
    "\<And>other. other \<noteq> host \<Longrightarrow> servername_callback ok can_request m' (Some other) = servername_callback ok can_request m (Some other)"
proof
  let ?m = "m(host \<mapsto> \<lparr>cs_certificate = Some x, cs_privateKey = Some k, cs_chain = xs\<rparr>)"
  show "addCertificate pem host cert key rest m = Some (?m, Inr ())"
    using assms chain_loop_reads [OF assms(6), of "[]"] by (simp add: addCertificate_def)
  show "servername_callback ok can_request ?m (Some host) =
       (UseCertificate (Some x) # map AddChainCert xs @ [UsePrivateKey (Some k)], [], TLSEXT_ERR_OK)"
    by (simp add: servername_callback_def ssl_calls_all [OF assms(8)] del: ssl_calls.simps)
  show "servername_callback ok can_request ?m (Some other) = servername_callback ok can_request m (Some other)" if "other \<noteq> host" for other
    using that by (simp add: servername_callback_def)
qed

text \<open>
  An empty rest of the chain, which OpenSSL's write reports as nothing written, costs the host the
  certificate it had.
\<close>

lemma empty_chain_loses_certificate:
  assumes "pem_new pem" and "pem_puts pem cert" and "\<not> pem_puts pem []"
  shows "\<exists>m' e. addCertificate pem host cert key [] m = Some (m', Inl e) \<and> m' host = None"
  using assms by (simp add: addCertificate_def split: prod.splits)

section \<open>From the authority to the visitor\<close>

text \<open>OpenSSL can read a certificate the authority has issued: its first part as \<open>x\<close>, the rest as \<open>xs\<close>, the key as \<open>k\<close>.\<close>

definition readable :: "('x, 'k) pem \<Rightarrow> certificate \<Rightarrow> 'x \<Rightarrow> 'x list \<Rightarrow> 'k \<Rightarrow> bool" where
  "readable pem cert x xs k \<longleftrightarrow>
     pem_new pem \<and> pem_puts pem (first_part cert) \<and> pem_puts pem (rest_part cert) \<and> pem_puts pem (ce_privkey cert)
   \<and> (\<exists>bio bio' bio''. pem_x509 pem (first_part cert) = (Some x, bio) \<and> reads_chain pem (bio @ rest_part cert) xs bio'
        \<and> pem_key pem (bio' @ ce_privkey cert) = (Some k, bio''))"

definition certificate_calls :: "'x \<Rightarrow> 'x list \<Rightarrow> 'k \<Rightarrow> ('x, 'k) ssl_call list" where
  "certificate_calls x xs k = UseCertificate (Some x) # map AddChainCert xs @ [UsePrivateKey (Some k)]"

lemma installed_certificate_used:
  assumes "readable pem cert x xs k" and "\<forall>c. ok c"
  obtains m' where
    "addCertificate pem host (first_part cert) (ce_privkey cert) (rest_part cert) m = Some (m', Inr ())"
    "servername_callback ok can_request m' (Some host) = (certificate_calls x xs k, [], TLSEXT_ERR_OK)"
proof -
  obtain bio bio' bio'' where r: "pem_new pem" "pem_puts pem (first_part cert)" "pem_puts pem (rest_part cert)"
    "pem_puts pem (ce_privkey cert)" "pem_x509 pem (first_part cert) = (Some x, bio)"
    "reads_chain pem (bio @ rest_part cert) xs bio'" "pem_key pem (bio' @ ce_privkey cert) = (Some k, bio'')"
    using assms(1) unfolding readable_def by blast
  show thesis
    by (rule added_certificate_used [OF r assms(2), of host m can_request]) (use that in \<open>simp add: certificate_calls_def\<close>)
qed

text \<open>
  (C20) Certificates on demand: a visitor who asks for a host without a certificate makes the server
  request one; once the authority has issued it, visitors of that host get the certificate, its
  chain in order and the key, and nothing is requested any more; and a server that is started
  again before the certificate expires finds it in the cache and serves the same.
\<close>

theorem certificate_on_demand:
  assumes "m host = None" and "CHR ''/'' \<notin> set host" and "host \<noteq> []"
    and "le_whitelist le = None" and "le_acmeClient le" and "acme host = (calls, Some cert)" and "run_callbacks host calls le = (le', Inr ())"
    and "find_str end_marker (ce_fullchain cert) \<noteq> None" and "readable pem cert x xs k" and "\<forall>c. ok c"
    and "parse content = Inr (cache_entry host cert)" and "now < ce_expiry cert"
  shows "servername_callback ok True m (Some host) = ([], [host], TLSEXT_ERR_OK)
    \<and> (\<exists>effects m'. issueCertificate acme True certs_exists host le = ((le', effects), Inr ())
        \<and> WriteFile (''certs/'' @ host @ ''.json'') (cache_entry host cert) \<in> set effects
        \<and> apply_effects pem effects m = Some (m', Inr ())
        \<and> servername_callback ok True m' (Some host) = (certificate_calls x xs k, [], TLSEXT_ERR_OK))
    \<and> (\<exists>effects m'. loadCache parse now True (Some [(host @ ''.json'', Inr content)]) = (effects, Inr ())
        \<and> apply_effects pem effects Map.empty = Some (m', Inr ())
        \<and> servername_callback ok True m' (Some host) = (certificate_calls x xs k, [], TLSEXT_ERR_OK))"
proof (intro conjI)
  show "servername_callback ok True m (Some host) = ([], [host], TLSEXT_ERR_OK)"
    using assms(1) by (simp add: servername_callback_def)
  note finish = finishCertificate_effects [OF assms(8,2), of certs_exists]
  obtain m1 where m1: "addCertificate pem host (first_part cert) (ce_privkey cert) (rest_part cert) m = Some (m1, Inr ())"
    "servername_callback ok True m1 (Some host) = (certificate_calls x xs k, [], TLSEXT_ERR_OK)"
    by (rule installed_certificate_used [OF assms(9,10)])
  have "issueCertificate acme True certs_exists host le = ((le', fst (finishCertificate True certs_exists host cert)), Inr ())"
    using assms(4-7) finish by (simp add: issueCertificate_def)
  with m1 finish show "\<exists>effects m'. issueCertificate acme True certs_exists host le = ((le', effects), Inr ())
      \<and> WriteFile (''certs/'' @ host @ ''.json'') (cache_entry host cert) \<in> set effects
      \<and> apply_effects pem effects m = Some (m', Inr ())
      \<and> servername_callback ok True m' (Some host) = (certificate_calls x xs k, [], TLSEXT_ERR_OK)"
    by (simp add: ensureDirectory_def)
  obtain m2 where m2: "addCertificate pem host (first_part cert) (ce_privkey cert) (rest_part cert) Map.empty = Some (m2, Inr ())"
    "servername_callback ok True m2 (Some host) = (certificate_calls x xs k, [], TLSEXT_ERR_OK)"
    by (rule installed_certificate_used [OF assms(9,10)])
  with loadCache_entry [of host parse content cert now] assms(3,11,12)
  show "\<exists>effects m'. loadCache parse now True (Some [(host @ ''.json'', Inr content)]) = (effects, Inr ())
      \<and> apply_effects pem effects Map.empty = Some (m', Inr ())
      \<and> servername_callback ok True m' (Some host) = (certificate_calls x xs k, [], TLSEXT_ERR_OK)"
    by simp
qed

text \<open>A reader that takes texts up to the end marker for certificates and anything else for a key.\<close>

definition toy_pem :: "(string, string) pem" where
  "toy_pem = \<lparr>pem_new = True, pem_puts = (\<lambda>s. s \<noteq> []),
     pem_x509 = (\<lambda>s. case find_str end_marker s of
        None \<Rightarrow> (None, [])
      | Some n \<Rightarrow> (Some (take n s), drop (n + length end_marker) s)),
     pem_key = (\<lambda>s. (Some s, []))\<rparr>"

definition toy_certificate :: certificate where
  "toy_certificate = \<lparr>ce_fullchain = ''a'' @ end_marker @ ''b'' @ end_marker, ce_privkey = ''k'', ce_expiry = 9\<rparr>"

lemma toy_readable: "readable toy_pem toy_certificate ''a'' [''b''] ''k''"
proof -
  have parts: "first_part toy_certificate = ''a'' @ end_marker" "rest_part toy_certificate = ''b'' @ end_marker" by code_simp+
  have reads: "pem_x509 toy_pem (''a'' @ end_marker) = (Some ''a'', [])" "pem_x509 toy_pem (''b'' @ end_marker) = (Some ''b'', [])"
    "pem_x509 toy_pem [] = (None, [])" by code_simp+
  show ?thesis
    unfolding readable_def parts using reads by (simp add: toy_pem_def toy_certificate_def end_marker_def)
qed

theorem certificate_on_demand_witness:
  "servername_callback (\<lambda>_. True) True (Map.empty :: string \<rightharpoonup> (string, string) certificates) (Some ''h'') = ([], [''h''], TLSEXT_ERR_OK)
   \<and> (\<exists>effects m'. snd (fst (issueCertificate (\<lambda>_. ([], Some toy_certificate)) True True ''h'' ((new_lets_encrypt :: unit lets_encrypt)\<lparr>le_acmeClient := True\<rparr>))) = effects
        \<and> apply_effects toy_pem effects Map.empty = Some (m', Inr ())
        \<and> servername_callback (\<lambda>_. True) True m' (Some ''h'')
            = ([UseCertificate (Some ''a''), AddChainCert ''b'', UsePrivateKey (Some ''k'')], [], TLSEXT_ERR_OK))"
proof -
  have mark: "find_str end_marker (ce_fullchain toy_certificate) \<noteq> None"
    by (simp add: toy_certificate_def end_marker_def)
  have le: "le_whitelist ((new_lets_encrypt :: unit lets_encrypt)\<lparr>le_acmeClient := True\<rparr>) = None" "le_acmeClient ((new_lets_encrypt :: unit lets_encrypt)\<lparr>le_acmeClient := True\<rparr>)"
    by (simp_all add: new_lets_encrypt_def)
  have "5 < ce_expiry toy_certificate" by (simp add: toy_certificate_def)
  from certificate_on_demand [OF _ _ _ le _ _ mark toy_readable, where m = Map.empty and host = "''h''" and ok = "\<lambda>_. True"
      and acme = "\<lambda>_. ([], Some toy_certificate)" and calls = "[]" and parse = "\<lambda>_. Inr (cache_entry ''h'' toy_certificate)"
      and now = 5 and certs_exists = True and content = "[]", OF _ _ _ _ _ _ _ this]
  show ?thesis by (auto simp: certificate_calls_def)
qed

end
