(* ===== verification/Ansuz.thy ===== *)
theory Ansuz
  imports Small_Plugins Json_Value
begin

text \<open>
  The control panel \<open>src/src/plugins/ansuz/Ansuz.cpp\<close>: loading, unloading and configuring plugins
  over HTTP, behind a password.

  The world of its handlers is the plugin host with the configurations of the plugins, by the
  plugins' references.  Parameters are the dynamic linker, the template engine (\<open>None\<close> is a
  \<open>RenderError\<close>), the JSON parser and printer, the embedded templates, the names of the files in the
  plugin directory, what plugins say about themselves and whether their \<open>postinit\<close> throws.
\<close>

record ansuz_world =
  aw_host :: plugin_host
  aw_configs :: "nat \<Rightarrow> json"

record ansuz_env =
  an_linker :: linker
  an_render :: "string \<Rightarrow> json \<Rightarrow> string option"
  an_parse :: "string \<Rightarrow> json result"
  an_dump :: "json \<Rightarrow> string"
  an_resource :: "string \<Rightarrow> string"
  an_directory :: "string list"
  an_about :: "plugin \<Rightarrow> string \<times> string"
  an_postinit :: "plugin \<Rightarrow> unit result"

type_synonym ansuz_args = "ansuz_world handler_args"

definition setConfig :: "plugin \<Rightarrow> json \<Rightarrow> ansuz_world \<Rightarrow> ansuz_world" where
  "setConfig pl config w = w\<lparr>aw_configs := (aw_configs w)(pl_ref pl := config)\<rparr>"

definition getConfig :: "plugin \<Rightarrow> ansuz_world \<Rightarrow> json" where
  "getConfig pl w = aw_configs w (pl_ref pl)"

definition render_error :: exn where
  "render_error = RuntimeError ''RenderError''"

definition exn_what :: "exn \<Rightarrow> string" where
  "exn_what e =
     (case e of
        ParseError s \<Rightarrow> s | UnsupportedMethod s \<Rightarrow> s | InvalidArgument s \<Rightarrow> s | OutOfRange s \<Rightarrow> s | RuntimeError s \<Rightarrow> s
      | ChessError s \<Rightarrow> s | JsonOutOfRange s \<Rightarrow> s | JsonTypeError s \<Rightarrow> s | UndefinedBehaviour s \<Rightarrow> s)"

section \<open>Pages\<close>

definition ansuz_serve ::
  "ansuz_env \<Rightarrow> string \<Rightarrow> (string \<times> json) list \<Rightarrow> int \<Rightarrow> ansuz_args \<Rightarrow> ansuz_args \<times> cancelable_result result" where
  "ansuz_serve env content data code args =
     (case (if data = [] then Some content else an_render env content (JObject data)) of
        None \<Rightarrow> (args, Inl render_error)
      | Some page \<Rightarrow> (send_and_close (setMIME ''text/html'' (HtmlResponse code page)) args, Inr Approve))"

definition css :: "ansuz_env \<Rightarrow> string \<times> json" where
  "css env = (''css'', JString (an_resource env ''css''))"

definition serve_message :: "ansuz_env \<Rightarrow> string \<Rightarrow> int \<Rightarrow> ansuz_args \<Rightarrow> ansuz_args \<times> cancelable_result result" where
  "serve_message env message code args =
     ansuz_serve env (an_resource env ''message'') [css env, (''message'', JString message)] code args"

definition serveIndex :: "ansuz_env \<Rightarrow> ansuz_args \<Rightarrow> ansuz_args \<times> cancelable_result result" where
  "serveIndex env args =
     (let row = (\<lambda>(p, pl, h). JArray (map (\<lambda>s. JString (escapeHTML s))
            [filename (path_names [] p), pl_name pl, fst (an_about env pl), snd (an_about env pl)]));
          plugins = JArray (map row (ph_plugins (aw_host (ha_world args))))
      in case an_render env (an_resource env ''index'') (JObject [css env, (''plugins'', plugins)]) of
           None \<Rightarrow> (args, Inl render_error)
         | Some page \<Rightarrow> (send_and_close (HtmlResponse 200 page) args, Inr Approve))"

text \<open>Whether authentication succeeded.\<close>

definition checkAuth :: "ansuz_env \<Rightarrow> json \<Rightarrow> ansuz_args \<Rightarrow> ansuz_args \<times> bool result" where
  "checkAuth env config args =
     (let refuse = (\<lambda>(args, res). (args, rmap (\<lambda>_. False) res)) in
      case jfind config ''password'' of
        Some (JString password) \<Rightarrow>
          (case checkAuthentication (ha_request args) ''ansuz'' password of
             Missing \<Rightarrow> (logged [send401_realm (ha_client args) ''Ansuz''] args, Inr False)
           | Success \<Rightarrow> (args, Inr True)
           | _ \<Rightarrow> refuse (serve_message env ''Bad authentication.'' 401 args))
      | _ \<Rightarrow> refuse (serve_message env ''Ansuz needs a password in its configuration.'' 200 args))"

section \<open>Requests\<close>

fun not_loaded :: "ansuz_env \<Rightarrow> plugin_host \<Rightarrow> string list \<Rightarrow> json list result" where
  "not_loaded env host [] = Inr []"
| "not_loaded env host (name # names) =
     rbind (hasPlugin_path (an_linker env) (''plugin/'' @ name) host) (\<lambda>loaded.
       rmap (\<lambda>rest. if loaded then rest
               else JArray [JString (escapeHTML (''plugin/'' @ name)), JString (escapeURL (''plugin/'' @ name))] # rest)
         (not_loaded env host names))"

definition page_not_loaded :: "ansuz_env \<Rightarrow> string \<Rightarrow> ansuz_args \<Rightarrow> ansuz_args \<times> cancelable_result result" where
  "page_not_loaded env name args = serve_message env (''Plugin '' @ escapeHTML name @ '' not loaded.'') 200 args"

definition get_load :: "ansuz_env \<Rightarrow> ansuz_args \<Rightarrow> ansuz_args \<times> cancelable_result result" where
  "get_load env args =
     (case not_loaded env (aw_host (ha_world args)) (an_directory env) of
        Inl e \<Rightarrow> (args, Inl e)
      | Inr plugins \<Rightarrow> ansuz_serve env (an_resource env ''load'') [css env, (''plugins'', JArray plugins)] 200 args)"

definition get_unload :: "ansuz_env \<Rightarrow> string \<Rightarrow> ansuz_args \<Rightarrow> ansuz_args \<times> cancelable_result result" where
  "get_unload env to_unload args =
     (case ln_canonical (an_linker env) (''plugin/'' @ to_unload) of
        Inl e \<Rightarrow> (args, Inl e)
      | Inr canonical \<Rightarrow>
          (case getPlugin canonical False (aw_host (ha_world args)) of
             None \<Rightarrow> page_not_loaded env to_unload args
           | Some tuple \<Rightarrow>
               (case unloadPlugin tuple (aw_host (ha_world args)) of
                  (host, Inl e) \<Rightarrow> (args, Inl e)
                | (host, Inr _) \<Rightarrow>
                    ansuz_serve env (an_resource env ''unloaded'') [css env, (''plugin'', JString (escapeHTML to_unload))] 200
                      (args\<lparr>ha_world := (ha_world args)\<lparr>aw_host := host\<rparr>\<rparr>))))"

definition get_edit :: "ansuz_env \<Rightarrow> string \<Rightarrow> ansuz_args \<Rightarrow> ansuz_args \<times> cancelable_result result" where
  "get_edit env to_edit args =
     (case ln_canonical (an_linker env) (''plugin/'' @ to_edit) of
        Inl e \<Rightarrow> (args, Inl e)
      | Inr canonical \<Rightarrow>
          (case getPlugin canonical False (aw_host (ha_world args)) of
             None \<Rightarrow> page_not_loaded env to_edit args
           | Some (p, pl, h) \<Rightarrow>
               ansuz_serve env (an_resource env ''edit_config'')
                 [css env, (''config'', JString (an_dump env (getConfig pl (ha_world args)))),
                  (''pluginName'', JString (escapeHTML (escapeQuotes canonical)))] 200 args))"

definition invalid_ansuz_path :: "ansuz_args \<Rightarrow> ansuz_args \<times> cancelable_result result" where
  "invalid_ansuz_path args = (send_and_close (setMIME ''text/plain'' (HtmlResponse 404 ''Invalid path'')) args, Inr Approve)"

text \<open>Only a \<open>RenderError\<close> is caught; the request is passed on, whatever it did before.\<close>

definition catch_render :: "ansuz_args \<times> cancelable_result result \<Rightarrow> ansuz_args \<times> cancelable_result result" where
  "catch_render outcome = (case outcome of (args, res) \<Rightarrow> if res = Inl render_error then (args, Inr Pass) else (args, res))"

definition ansuz_handleGET :: "ansuz_env \<Rightarrow> json \<Rightarrow> ansuz_world handler_args handler" where
  "ansuz_handleGET env config args not_disabled =
     (let parts = ha_parts args in
      if \<not> not_disabled then (args, Inr Pass)
      else if parts \<noteq> [] \<and> hd parts = ''ansuz''
      then (case checkAuth env config args of
              (args, Inl e) \<Rightarrow> (args, Inl e)
            | (args, Inr False) \<Rightarrow> (args, Inr Kill)
            | (args, Inr True) \<Rightarrow>
                catch_render
                  (if length parts = 1 then serveIndex env args
                   else if length parts = 2 \<and> parts ! 1 = ''load'' then get_load env args
                   else if length parts = 3 \<and> parts ! 1 = ''unload'' then get_unload env (parts ! 2) args
                   else if length parts = 3 \<and> parts ! 1 = ''edit'' then get_edit env (parts ! 2) args
                   else invalid_ansuz_path args))
      else (args, Inr Pass))"

text \<open>The two fields both forms must have.\<close>

definition plugin_form :: "request \<Rightarrow> (string \<times> string) option" where
  "plugin_form req =
     (case (map_of (rq_postParameters req) ''pluginName'', map_of (rq_postParameters req) ''pluginConfig'') of
        (Some name, Some config) \<Rightarrow> Some (name, config)
      | _ \<Rightarrow> None)"

definition post_load :: "ansuz_env \<Rightarrow> ansuz_args \<Rightarrow> ansuz_args \<times> cancelable_result result" where
  "post_load env args =
     (case plugin_form (ha_request args) of
        None \<Rightarrow> serve_message env ''Invalid request.'' 400 args
      | Some (name, text_config) \<Rightarrow>
          (case hasPlugin_path (an_linker env) name (aw_host (ha_world args)) of
             Inl e \<Rightarrow> (args, Inl e)
           | Inr True \<Rightarrow> serve_message env ''Plugin already loaded.'' 404 args
           | Inr False \<Rightarrow>
               (case an_parse env text_config of
                  Inl e \<Rightarrow> (args, Inl e)
                | Inr json \<Rightarrow>
                    (case loadPlugin (an_linker env) name (aw_host (ha_world args)) of
                       (host, Inl e) \<Rightarrow> (args\<lparr>ha_world := (ha_world args)\<lparr>aw_host := host\<rparr>\<rparr>, Inl e)
                     | (host, Inr (p, pl, h)) \<Rightarrow>
                         let w = setConfig pl json ((ha_world args)\<lparr>aw_host := host\<rparr>);
                             w = w\<lparr>aw_host := host\<lparr>ph_log := ph_log host @ [Postinit pl]\<rparr>\<rparr>;
                             args = args\<lparr>ha_world := w\<rparr> in
                         (case an_postinit env pl of
                            Inl e \<Rightarrow> (args, Inl e)
                          | Inr _ \<Rightarrow>
                              serve_message env (''Plugin loaded. <pre>'' @ escapeHTML (an_dump env json) @ ''</pre>'') 200 args)))))"

definition post_edit :: "ansuz_env \<Rightarrow> ansuz_args \<Rightarrow> ansuz_args \<times> cancelable_result result" where
  "post_edit env args =
     (case plugin_form (ha_request args) of
        None \<Rightarrow> serve_message env ''Invalid request.'' 400 args
      | Some (name, text_config) \<Rightarrow>
          (case rbind (an_parse env text_config) (\<lambda>json.
                  rbind (ln_canonical (an_linker env) name) (\<lambda>p.
                  rmap (\<lambda>loaded. (json, p, loaded)) (hasPlugin_path (an_linker env) p (aw_host (ha_world args))))) of
             Inl e \<Rightarrow> (args, Inl e)
           | Inr (json, p, loaded) \<Rightarrow>
               if \<not> loaded then serve_message env ''Plugin not loaded.'' 404 args
               else case getPlugin p False (aw_host (ha_world args)) of
                 None \<Rightarrow> serve_message env (''Couldn'' @ [CHR 0x27] @ ''t get plugin.'') 500 args
               | Some (q, pl, h) \<Rightarrow>
                   serve_message env ''Configuration updated.'' 200
                     (args\<lparr>ha_world := setConfig pl json (ha_world args)\<rparr>)))"

text \<open>Every exception is caught and shown.\<close>

definition catch_all ::
  "ansuz_env \<Rightarrow> ansuz_args \<times> cancelable_result result \<Rightarrow> ansuz_args \<times> cancelable_result result" where
  "catch_all env outcome =
     (case outcome of
        (args, Inl e) \<Rightarrow> serve_message env (escapeHTML (exn_what e)) 500 args
      | _ \<Rightarrow> outcome)"

definition ansuz_handlePOST :: "ansuz_env \<Rightarrow> json \<Rightarrow> ansuz_world handler_args handler" where
  "ansuz_handlePOST env config args not_disabled =
     (let parts = ha_parts args in
      if \<not> not_disabled then (args, Inr Pass)
      else if 2 \<le> length parts \<and> hd parts = ''ansuz''
      then (case checkAuth env config args of
              (args, Inl e) \<Rightarrow> (args, Inl e)
            | (args, Inr False) \<Rightarrow> (args, Inr Kill)
            | (args, Inr True) \<Rightarrow>
                if parts ! 1 = ''load'' then catch_all env (post_load env args)
                else if parts ! 1 = ''edit'' then catch_all env (post_edit env args)
                else (args, Inr Pass))
      else (args, Inr Pass))"

definition ansuz_postinit where
  "ansuz_postinit env config hs = register_post (ansuz_handlePOST env config) (register_get (ansuz_handleGET env config) hs)"

definition ansuz_cleanup where
  "ansuz_cleanup env config hs = unregister_post (ansuz_handlePOST env config) (unregister_get (ansuz_handleGET env config) hs)"

section \<open>The panel, verified\<close>

definition authorised :: "json \<Rightarrow> request \<Rightarrow> bool" where
  "authorised config req \<longleftrightarrow>
     (\<exists>password. jfind config ''password'' = Some (JString password) \<and> checkAuthentication req ''ansuz'' password = Success)"

text \<open>What a request may do to the plugins: nothing, unload one, load one or configure one.\<close>

inductive ansuz_change :: "ansuz_world \<Rightarrow> ansuz_world \<Rightarrow> bool" where
  unchanged: "ansuz_change w w"
| unloads: "tuple \<in> set (ph_plugins (aw_host w)) \<Longrightarrow> unloadPlugin tuple (aw_host w) = (host, Inr ()) \<Longrightarrow>
    ansuz_change w (w\<lparr>aw_host := host\<rparr>)"
| loads: "ansuz_change w (setConfig pl json w
    \<lparr>aw_host := (aw_host w)\<lparr>ph_plugins := ph_plugins (aw_host w) @ [(p, pl, h)], ph_log := ph_log (aw_host w) @ [Postinit pl]\<rparr>\<rparr>)"
| configures: "(q, pl, h) \<in> set (ph_plugins (aw_host w)) \<Longrightarrow> ansuz_change w (setConfig pl json w)"

lemma world_logged [simp]: "ha_world (logged calls args) = ha_world args" "ha_request (logged calls args) = ha_request args"
  by (simp_all add: logged_def)

lemma world_send_and_close [simp]:
  "ha_world (send_and_close r args) = ha_world args" "ha_request (send_and_close r args) = ha_request args"
  by (simp_all add: send_and_close_def)

lemma ansuz_serve_world: "ansuz_serve env content data code args = (args', res) \<Longrightarrow> ha_world args' = ha_world args"
  by (auto simp: ansuz_serve_def split: if_splits option.splits)

lemma serve_message_world: "serve_message env m code args = (args', res) \<Longrightarrow> ha_world args' = ha_world args"
  unfolding serve_message_def by (rule ansuz_serve_world)

lemmas page_worlds = ansuz_serve_world serve_message_world

lemma checkAuth_cases:
  obtains (accepted) "checkAuth env config args = (args, Inr True)" "authorised config (ha_request args)"
  | (refused) args' res where "checkAuth env config args = (args', res)" "res \<noteq> Inr True"
      "\<not> authorised config (ha_request args)" "ha_world args' = ha_world args"
proof (cases "authorised config (ha_request args)")
  case True
  then show thesis by (intro accepted) (auto simp: authorised_def checkAuth_def)
next
  case False
  obtain args' res where "checkAuth env config args = (args', res)" by fastforce
  moreover from this False have "res \<noteq> Inr True" "ha_world args' = ha_world args"
    by (auto simp: authorised_def checkAuth_def Let_def rmap_eq_Inr_iff split: option.splits json.splits auth_result.splits prod.splits
        dest: serve_message_world)
  ultimately show thesis using False by (intro refused)
qed

lemma find_in: "find P xs = Some x \<Longrightarrow> x \<in> set xs"
  by (metis find_Some_iff nth_mem)

lemma getPlugin_in: "getPlugin name b host = Some tuple \<Longrightarrow> tuple \<in> set (ph_plugins host)"
  by (auto simp: getPlugin_def split: if_splits dest: find_in)

lemma loadPlugin_cases:
  "loadPlugin ln p host = (host', res) \<Longrightarrow>
   (\<exists>e. res = Inl e \<and> host' = host) \<or> (\<exists>tuple. res = Inr tuple \<and> host' = host\<lparr>ph_plugins := ph_plugins host @ [tuple]\<rparr>)"
  by (auto simp: loadPlugin_def Let_def split: sum.splits if_splits option.splits)

lemma get_changes:
  "serveIndex env args = (args', res) \<Longrightarrow> ansuz_change (ha_world args) (ha_world args')"
  "get_load env args = (args', res) \<Longrightarrow> ansuz_change (ha_world args) (ha_world args')"
  "get_edit env name args = (args', res) \<Longrightarrow> ansuz_change (ha_world args) (ha_world args')"
  "invalid_ansuz_path args = (args', res) \<Longrightarrow> ansuz_change (ha_world args) (ha_world args')"
  by (auto simp: serveIndex_def get_load_def get_edit_def page_not_loaded_def invalid_ansuz_path_def Let_def
      split: option.splits sum.splits dest!: page_worlds intro: ansuz_change.intros)

lemma get_unload_change:
  assumes "get_unload env name args = (args', res)"
  shows "ansuz_change (ha_world args) (ha_world args')"
  using assms
  by (auto simp: get_unload_def page_not_loaded_def split: option.splits sum.splits prod.splits
      dest!: page_worlds getPlugin_in intro: ansuz_change.intros)

lemma catch_world: "fst (catch_render out) = fst out" "ha_world (fst (catch_all env out)) = ha_world (fst out)"
  using serve_message_world [OF surjective_pairing, of env]
  by (auto simp: catch_render_def catch_all_def split: prod.splits sum.splits)

lemma post_load_change:
  assumes "post_load env args = (args', res)"
  shows "ansuz_change (ha_world args) (ha_world args')"
proof -
  have loaded: "ansuz_change w (setConfig pl json (w\<lparr>aw_host := (aw_host w)\<lparr>ph_plugins := ph_plugins (aw_host w) @ [(p, pl, h)]\<rparr>\<rparr>)
      \<lparr>aw_host := (aw_host w)\<lparr>ph_plugins := ph_plugins (aw_host w) @ [(p, pl, h)], ph_log := ph_log (aw_host w) @ [Postinit pl]\<rparr>\<rparr>)"
    for w p pl h json
    using ansuz_change.loads [where w = w and pl = pl and json = json and p = p and h = h] by (simp add: setConfig_def)
  show ?thesis
    using assms
    by (auto simp: post_load_def Let_def split: option.splits sum.splits prod.splits bool.splits
        dest!: page_worlds loadPlugin_cases intro: ansuz_change.unchanged loaded)
qed

lemma post_edit_change:
  assumes "post_edit env args = (args', res)"
  shows "ansuz_change (ha_world args) (ha_world args')"
  using assms
  by (auto simp: post_edit_def split: option.splits sum.splits prod.splits if_splits
      dest!: page_worlds getPlugin_in intro: ansuz_change.intros)

lemmas changes = get_changes [OF surjective_pairing] get_unload_change [OF surjective_pairing]
  post_load_change [OF surjective_pairing] post_edit_change [OF surjective_pairing] ansuz_change.unchanged

text \<open>
  (C11) The control panel is guarded: whatever the request, the plugins of the host and their
  configurations change, and the panel answers, only when the handler is enabled and the request
  carries the panel's user name and the configured password; without a configured password nobody
  gets in.  And what an authorised request can change is one plugin: it is taken out, with its
  cleanup before the library is closed, or a new one is put at the end, configured before its
  initialisation, or the configuration of one that is loaded is replaced.
\<close>

theorem ansuz_guarded:
  assumes "ansuz_handleGET env config args b = (args', res) \<or> ansuz_handlePOST env config args b = (args', res)"
  shows "(ha_world args' \<noteq> ha_world args \<or> res = Inr Approve \<longrightarrow> b \<and> authorised config (ha_request args))
    \<and> ansuz_change (ha_world args) (ha_world args')"
proof (cases "b \<and> authorised config (ha_request args)")
  case True
  then have auth: "checkAuth env config args = (args, Inr True)" by (cases rule: checkAuth_cases [of env config args]) auto
  have get: "ansuz_change (ha_world args) (ha_world (fst (ansuz_handleGET env config args b)))"
    using True by (simp add: ansuz_handleGET_def Let_def auth catch_world changes)
  have post: "ansuz_change (ha_world args) (ha_world (fst (ansuz_handlePOST env config args b)))"
    using True by (simp add: ansuz_handlePOST_def Let_def auth catch_world changes)
  from assms get post True show ?thesis by auto
next
  case False
  then have "ha_world args' = ha_world args \<and> res \<noteq> Inr Approve"
    using assms
    by (cases rule: checkAuth_cases [of env config args])
      (auto simp: ansuz_handleGET_def ansuz_handlePOST_def Let_def split: if_splits sum.splits bool.splits prod.splits)
  then show ?thesis using ansuz_change.unchanged [of "ha_world args"] by simp
qed

definition toy_linker :: linker where
  "toy_linker = \<lparr>ln_canonical = (\<lambda>p. Inr p), ln_exists = (\<lambda>p. True), ln_dlopen = (\<lambda>p. Some 7), ln_dlerror = [],
     ln_make_plugin = (\<lambda>lib. Some \<lparr>pl_ref = 1, pl_name = ''toy''\<rparr>)\<rparr>"

definition toy_panel :: ansuz_env where
  "toy_panel = \<lparr>an_linker = toy_linker, an_render = (\<lambda>t d. Some t), an_parse = (\<lambda>s. Inr JNull), an_dump = (\<lambda>j. ''null''),
     an_resource = id, an_directory = [], an_about = (\<lambda>pl. ([], [])), an_postinit = (\<lambda>pl. Inr ())\<rparr>"

definition panel_args :: "string list \<Rightarrow> ansuz_args" where
  "panel_args parts = \<lparr>ha_client = new_client 3 ''::1'', ha_request = new_request, ha_parts = parts,
     ha_world = \<lparr>aw_host = \<lparr>ph_plugins = [(''plugin/toy.so'', \<lparr>pl_ref = 1, pl_name = ''toy''\<rparr>, 7)], ph_log = []\<rparr>, aw_configs = (\<lambda>_. JNull)\<rparr>,
     ha_log = []\<rparr>"

text \<open>Without the header the plugin stays loaded.\<close>

theorem ansuz_guarded_witness:
  "ha_world (fst (ansuz_handleGET toy_panel (JObject [(''password'', JString ''pw'')]) (panel_args [''ansuz'', ''unload'', ''toy.so'']) True))
     = ha_world (panel_args [''ansuz'', ''unload'', ''toy.so''])"
proof -
  let ?config = "JObject [(''password'', JString ''pw'')]" and ?args = "panel_args [''ansuz'', ''unload'', ''toy.so'']"
  obtain args' res where run: "ansuz_handleGET toy_panel ?config ?args True = (args', res)" by fastforce
  moreover have "\<not> authorised ?config (ha_request ?args)"
    by (simp add: authorised_def panel_args_def new_request_def checkAuthentication_def jfind_def)
  ultimately show ?thesis using ansuz_guarded [OF disjI1 [OF run]] by auto
qed

text \<open>With it, the plugin is cleaned up and its library closed.\<close>

lemma panel_unloads:
  assumes "authorised config (ha_request args)" and "ha_parts args = [''ansuz'', ''unload'', name]"
    and "ln_canonical (an_linker env) (''plugin/'' @ name) = Inr p"
    and "getPlugin p False (aw_host (ha_world args)) = Some (q, pl, lib)"
  shows "aw_host (ha_world (fst (ansuz_handleGET env config args True))) =
    (aw_host (ha_world args))\<lparr>ph_plugins := remove1 (q, pl, lib) (ph_plugins (aw_host (ha_world args))),
       ph_log := ph_log (aw_host (ha_world args)) @ [Cleanup pl, Dlclose lib]\<rparr>"
proof -
  have auth: "checkAuth env config args = (args, Inr True)"
    using assms(1) by (cases rule: checkAuth_cases [of env config args]) auto
  show ?thesis
    using assms(2-4) getPlugin_in [OF assms(4)] ansuz_serve_world [OF surjective_pairing]
    by (simp add: ansuz_handleGET_def auth catch_world get_unload_def unloadPlugin_def)
qed

end
