(* ===== verification/Preprocessor.thy ===== *)
theory Preprocessor
  imports Fs_Util
begin

text \<open>
  The preprocessor of the file server, \<open>src/src/plugins/fileserv/Preprocessor.cpp\<close>: it turns a page
  with pieces of C++ between \<open><?\<close> and \<open>?>\<close> into a module.  Text becomes calls of \<open>echo\<close>, code between
  \<open><?:\<close> and \<open>?>\<close> goes before the function, code between \<open><?=\<close> and \<open>?>\<close> is echoed.

  The lexer of clang is a parameter: the tokens of a text, each with its kind, the offset behind it
  and its length.  The run of clang's front end over each piece has no effect on the result: it
  reports nothing, and the action never sets the offset it is given.
\<close>

section \<open>Model\<close>

datatype tok =
    Question | Greater | GreaterGreater | GreaterEqual | GreaterGreaterEqual | GreaterGreaterGreater | OtherTok

type_synonym lexer = "string \<Rightarrow> (tok \<times> nat \<times> nat) list"

definition closes :: "tok \<Rightarrow> bool" where
  "closes t \<longleftrightarrow> t \<in> {Greater, GreaterGreater, GreaterEqual, GreaterGreaterEqual, GreaterGreaterGreater}"

text \<open>A failed assertion ends the program; an offset past the end ends the search.\<close>

fun scan_tokens :: "string \<Rightarrow> tok \<Rightarrow> (tok \<times> nat \<times> nat) list \<Rightarrow> nat option result" where
  "scan_tokens source previous [] = Inr None"
| "scan_tokens source previous ((token, current, len) # tokens) =
     (if previous = Question \<and> closes token
      then if current < len + 1 then Inl (UndefinedBehaviour ''assertion offset >= 0'')
           else if length source \<le> current - (len + 1) then Inr None
           else if source ! (current - (len + 1)) = CHR ''?'' then Inr (Some (current - (len + 1)))
           else scan_tokens source token tokens
      else scan_tokens source token tokens)"

definition findCodeEnd :: "lexer \<Rightarrow> string \<Rightarrow> nat option result" where
  "findCodeEnd lx source = scan_tokens source OtherTok (lx source)"

definition CODE_START :: string where
  "CODE_START = ''<?''"

definition CODE_END :: string where
  "CODE_END = ''?>''"

definition nl :: string where
  "nl = [CHR 0x0A]"

definition echo_text :: "string \<Rightarrow> string" where
  "echo_text s = ''echo('' @ [CHR 0x22] @ escape s @ [CHR 0x22] @ '');'' @ nl"

definition code_text :: "bool \<Rightarrow> string \<Rightarrow> string" where
  "code_text echo_shorthand valid = (if echo_shorthand then ''echo('' @ valid @ '');'' @ nl else valid @ nl)"

text \<open>
  The loop, with the two streams.  \<open>remove_prefix\<close> past the end of the view, which a piece of code
  without an end leads to, is undefined.
\<close>

function preprocess_loop :: "lexer \<Rightarrow> string \<Rightarrow> string \<Rightarrow> string \<Rightarrow> (string \<times> string) result" where
  "preprocess_loop lx view preamble body =
     (case find_str CODE_START view of
        None \<Rightarrow> Inr (preamble, if view \<noteq> [] then body @ echo_text view else body)
      | Some code_start \<Rightarrow>
          let body = (if code_start \<noteq> 0 then body @ echo_text (take code_start view) else body);
              view' = drop (code_start + length CODE_START) view;
              use_preamble = (view' \<noteq> [] \<and> hd view' = CHR '':'');
              echo_shorthand = (view' \<noteq> [] \<and> hd view' = CHR ''='');
              code = (if use_preamble \<or> echo_shorthand then tl view' else view');
              shortened = (case findLast code CODE_END of None \<Rightarrow> code | Some k \<Rightarrow> take k code)
          in case findCodeEnd lx shortened of
               Inl e \<Rightarrow> Inl e
             | Inr found \<Rightarrow>
                 let valid_size = (case found of None \<Rightarrow> length shortened | Some offset \<Rightarrow> offset);
                     txt = code_text echo_shorthand (take valid_size shortened)
                 in if length code < valid_size + length CODE_END
                    then Inl (UndefinedBehaviour ''remove_prefix past the end of a view'')
                    else if use_preamble
                    then preprocess_loop lx (drop (valid_size + length CODE_END) code) (preamble @ txt) body
                    else preprocess_loop lx (drop (valid_size + length CODE_END) code) preamble (body @ txt))"
  by pat_completeness auto
termination
  by (relation "measure (\<lambda>(lx, view, preamble, body). length view)")
    (auto simp: CODE_START_def CODE_END_def dest!: find_str_bound)

declare preprocess_loop.simps [simp del]

definition tab :: string where
  "tab = [CHR 0x09]"

definition module_head :: string where
  "module_head = join
     [[], ''#include '' @ [CHR 0x22] @ ''Module.h'' @ [CHR 0x22], [], ''#include <sstream>'', [],
      ''extern '' @ [CHR 0x22] @ ''C'' @ [CHR 0x22]
        @ '' void algizModule(HTTP::Server::HandlerArgs &algiz_args, const std::filesystem::path &$path) {'',
      tab @ ''auto &[$http, $client, $request, $parts] = algiz_args;'',
      tab @ ''auto &$get = $request.parameters;'',
      tab @ ''auto &$post = $request.postParameters;'',
      tab @ ''int $code = 200;'',
      tab @ ''std::stringstream $stream;'', [],
      tab @ ''auto echo = [&](auto &&...things) {'',
      tab @ tab @ ''($stream << ... << std::forward<decltype(things)>(things));'',
      tab @ ''};'', [], tab @ tab] nl"

definition module_foot :: string where
  "module_foot = join
     [[], [], tab @ ''$client.send(HTTP::Response($code, std::move($stream).str()));'', tab @ ''// */'', ''}'', tab @ tab] nl"

definition preprocessFileservModule :: "lexer \<Rightarrow> filesystem \<Rightarrow> path \<Rightarrow> string result" where
  "preprocessFileservModule lx fs p =
     rbind (readFile fs p) (\<lambda>source.
       rmap (\<lambda>(preamble, body). preamble @ module_head @ body @ module_foot) (preprocess_loop lx source [] []))"

section \<open>Pages\<close>

text \<open>A page as its author sees it, its source text, and the module's parts it should lead to.\<close>

datatype page_piece = Literal string | Plain string | Preamble string | Echo string

fun piece_text :: "page_piece \<Rightarrow> string" where
  "piece_text (Literal s) = s"
| "piece_text (Plain c) = ''<?'' @ c @ ''?>''"
| "piece_text (Preamble c) = ''<?:'' @ c @ ''?>''"
| "piece_text (Echo c) = ''<?='' @ c @ ''?>''"

definition page_text :: "page_piece list \<Rightarrow> string" where
  "page_text ps = concat (map piece_text ps)"

fun preamble_part :: "page_piece \<Rightarrow> string" where
  "preamble_part (Preamble c) = c @ nl"
| "preamble_part _ = []"

fun body_part :: "page_piece \<Rightarrow> string" where
  "body_part (Literal s) = echo_text s"
| "body_part (Plain c) = c @ nl"
| "body_part (Echo c) = ''echo('' @ c @ '');'' @ nl"
| "body_part (Preamble c) = []"

text \<open>Text between pieces of code is not empty and starts no code; code does not end early.\<close>

fun page_ok :: "page_piece list \<Rightarrow> bool" where
  "page_ok [] \<longleftrightarrow> True"
| "page_ok (Literal s # ps) \<longleftrightarrow> s \<noteq> [] \<and> find_str ''<?'' s = None
     \<and> (case ps of Literal _ # _ \<Rightarrow> False | _ \<Rightarrow> True) \<and> page_ok ps"
| "page_ok (Plain c # ps) \<longleftrightarrow> find_str ''?>'' c = None \<and> take 1 c \<noteq> '':'' \<and> take 1 c \<noteq> ''='' \<and> page_ok ps"
| "page_ok (Preamble c # ps) \<longleftrightarrow> find_str ''?>'' c = None \<and> page_ok ps"
| "page_ok (Echo c # ps) \<longleftrightarrow> find_str ''?>'' c = None \<and> page_ok ps"

text \<open>A lexer for code in which the end is not hidden in a literal or a comment.\<close>

definition sees_code_end :: "lexer \<Rightarrow> bool" where
  "sees_code_end lx \<longleftrightarrow> (\<forall>s. findCodeEnd lx s = Inr (find_str ''?>'' s))"

lemma find_str_first:
  assumes "find_str [x, y] c = None" and "x \<noteq> y"
  shows "find_str [x, y] (c @ x # y # r) = Some (length c)"
  using assms
proof (induction c)
  case (Cons a c)
  then show ?case by (cases c) (auto split: if_splits)
qed simp

lemma code_end_found:
  assumes "sees_code_end lx" and "find_str ''?>'' c = None"
  obtains k found where "findLast (c @ ''?>'' @ r) CODE_END = Some k"
    "findCodeEnd lx (take k (c @ ''?>'' @ r)) = Inr found"
    "(case found of None \<Rightarrow> length (take k (c @ ''?>'' @ r)) | Some offset \<Rightarrow> offset) = length c"
    "take (length c) (take k (c @ ''?>'' @ r)) = c"
proof -
  let ?v = "c @ ''?>'' @ r"
  have here: "occurs_at CODE_END (length c) ?v" by (simp add: occurs_at_def CODE_END_def)
  then obtain k where k: "findLast ?v CODE_END = Some k" "occurs_at CODE_END k ?v"
    "\<forall>j. k < j \<longrightarrow> j < length ?v \<longrightarrow> \<not> occurs_at CODE_END j ?v"
    using findLast_correct [of CODE_END ?v] by (auto simp: CODE_END_def split: option.splits)
  have "length c \<le> k" using k(3) here by (metis length_append less_add_same_cancel1 not_le_imp_less zero_less_Suc length_Cons append_Cons add_gr_0)
  moreover have "k \<noteq> length c + 1"
    using k(2) by (auto simp: occurs_at_def CODE_END_def)
  ultimately consider "k = length c" | "length c + 2 \<le> k" by linarith
  then show thesis
  proof cases
    case 1
    with k(1) assms show thesis by (intro that [of k None]) (auto simp: sees_code_end_def)
  next
    case 2
    then have "take k ?v = c @ CHR ''?'' # CHR ''>'' # take (k - (length c + 2)) r" by (simp add: take_Cons')
    with k(1) assms find_str_first [OF assms(2)] show thesis
      by (intro that [of k "Some (length c)"]) (auto simp: sees_code_end_def)
  qed
qed

text \<open>The part of an iteration behind the mark that starts code.\<close>

definition after_start :: "lexer \<Rightarrow> string \<Rightarrow> string \<Rightarrow> string \<Rightarrow> (string \<times> string) result" where
  "after_start lx view' preamble body =
     (let use_preamble = (view' \<noteq> [] \<and> hd view' = CHR '':'');
          echo_shorthand = (view' \<noteq> [] \<and> hd view' = CHR ''='');
          code = (if use_preamble \<or> echo_shorthand then tl view' else view');
          shortened = (case findLast code CODE_END of None \<Rightarrow> code | Some k \<Rightarrow> take k code)
      in case findCodeEnd lx shortened of
           Inl e \<Rightarrow> Inl e
         | Inr found \<Rightarrow>
             let valid_size = (case found of None \<Rightarrow> length shortened | Some offset \<Rightarrow> offset);
                 txt = code_text echo_shorthand (take valid_size shortened)
             in if length code < valid_size + length CODE_END
                then Inl (UndefinedBehaviour ''remove_prefix past the end of a view'')
                else if use_preamble
                then preprocess_loop lx (drop (valid_size + length CODE_END) code) (preamble @ txt) body
                else preprocess_loop lx (drop (valid_size + length CODE_END) code) preamble (body @ txt))"

lemma preprocess_step:
  "preprocess_loop lx view a b =
     (case find_str CODE_START view of
        None \<Rightarrow> Inr (a, if view \<noteq> [] then b @ echo_text view else b)
      | Some n \<Rightarrow> after_start lx (drop (n + length CODE_START) view) a (if n \<noteq> 0 then b @ echo_text (take n view) else b))"
  by (subst preprocess_loop.simps) (simp only: after_start_def Let_def)

lemma preprocess_literal:
  assumes "find_str ''<?'' s = None" and "s \<noteq> []"
  shows "preprocess_loop lx s a b = Inr (a, b @ echo_text s)"
    and "preprocess_loop lx (s @ CHR ''<'' # CHR ''?'' # t) a b = preprocess_loop lx (CHR ''<'' # CHR ''?'' # t) a (b @ echo_text s)"
  using assms find_str_first [of "CHR ''<''" "CHR ''?''" s t]
  by (simp_all add: preprocess_step CODE_START_def)

lemma after_start_code:
  assumes "sees_code_end lx" and "find_str ''?>'' c = None"
  shows "after_start lx (CHR '':'' # c @ ''?>'' @ r) a b = preprocess_loop lx r (a @ c @ nl) b"
    and "after_start lx (CHR ''='' # c @ ''?>'' @ r) a b = preprocess_loop lx r a (b @ ''echo('' @ c @ '');'' @ nl)"
    and "take 1 c \<noteq> '':'' \<Longrightarrow> take 1 c \<noteq> ''='' \<Longrightarrow> after_start lx (c @ ''?>'' @ r) a b = preprocess_loop lx r a (b @ c @ nl)"
proof -
  obtain k found where k: "findLast (c @ ''?>'' @ r) CODE_END = Some k"
    "findCodeEnd lx (take k (c @ ''?>'' @ r)) = Inr found"
    "(case found of None \<Rightarrow> length (take k (c @ ''?>'' @ r)) | Some offset \<Rightarrow> offset) = length c"
    "take (length c) (take k (c @ ''?>'' @ r)) = c"
    using code_end_found [OF assms(1,2), of r] by blast
  define v where "v = c @ ''?>'' @ r"
  note k = k [folded v_def]
  have v: "\<not> length v < length c + length CODE_END" "drop (length c + length CODE_END) v = r" "v \<noteq> []"
    by (simp_all add: v_def CODE_END_def)
  have hd: "hd v \<noteq> CHR '':''" "hd v \<noteq> CHR ''=''" if "take 1 c \<noteq> '':''" "take 1 c \<noteq> ''=''"
    using that by (cases c; simp add: v_def)+
  show "after_start lx (CHR '':'' # c @ ''?>'' @ r) a b = preprocess_loop lx r (a @ c @ nl) b"
    using k v(1,2) unfolding v_def [symmetric] by (simp add: after_start_def code_text_def)
  show "after_start lx (CHR ''='' # c @ ''?>'' @ r) a b = preprocess_loop lx r a (b @ ''echo('' @ c @ '');'' @ nl)"
    using k v(1,2) unfolding v_def [symmetric] by (simp add: after_start_def code_text_def)
  show "after_start lx (c @ ''?>'' @ r) a b = preprocess_loop lx r a (b @ c @ nl)" if "take 1 c \<noteq> '':''" "take 1 c \<noteq> ''=''"
    using k v hd [OF that] unfolding v_def [symmetric] by (simp add: after_start_def code_text_def)
qed

lemma preprocess_start: "preprocess_loop lx (CHR ''<'' # CHR ''?'' # v) a b = after_start lx v a b"
  by (simp add: preprocess_step CODE_START_def)


definition toy_lexer :: lexer where
  "toy_lexer s = (case find_str ''?>'' s of None \<Rightarrow> [] | Some k \<Rightarrow> [(Question, k + 1, 1), (Greater, k + 2, 1)])"

lemma toy_lexer_sees: "sees_code_end toy_lexer"
proof -
  have at: "k < length s \<and> s ! k = CHR ''?''" if "find_str ''?>'' s = Some k" for s k
    using find_str_split [OF that] find_str_bound [OF that]
    by (metis (no_types, lifting) add_lessD1 append_Cons length_append less_add_same_cancel1 less_le_trans list.size(3) list.size(4) nth_append_length
        length_take min_absorb2 less_imp_le zero_less_Suc add_Suc_right)
  show ?thesis
    by (auto simp: sees_code_end_def findCodeEnd_def toy_lexer_def closes_def split: option.splits dest: at)
qed


text \<open>A piece of code without an end runs past the end of the page.\<close>

lemma unterminated_code: "preprocess_loop toy_lexer ''<? x'' a b = Inl (UndefinedBehaviour ''remove_prefix past the end of a view'')"
  by (simp add: preprocess_start after_start_def findLast_def CODE_END_def findCodeEnd_def toy_lexer_def)

end
