(* ===== verification/Shell.thy ===== *)
theory Shell
  imports Util_Strings
begin

text \<open>
  \<open>src/src/util/Shell.cpp\<close>: running a command, with and without a time limit.

  A process is its table of descriptors, which map to ends of pipes, and the ends that are in
  non-blocking mode.  \<open>fork\<close> returns in two processes; the functions here run in one of them, the one
  in which \<open>fork\<close> gave the value \<open>os_fork\<close>.  What the kernel answers (the descriptors of a new pipe,
  the result of \<open>execvp\<close>, \<open>waitpid\<close> and \<open>select\<close>, the bytes the child has left in its pipes) is an
  argument.  Every read end that is read here has its write end open in the same process, so a read
  from an empty pipe returns at once in non-blocking mode and never returns otherwise.
\<close>

unbundle bit_operations_syntax

section \<open>Descriptors and pipes\<close>

datatype endpoint = ReadEnd nat | WriteEnd nat | OtherFile nat

record pipe_wrapper =
  pw_read :: int
  pw_write :: int
  pw_isOpen :: bool

record process =
  pr_fds :: "int \<rightharpoonup> endpoint"
  pr_nonblock :: "endpoint set"
  pr_control :: "pipe_wrapper option"

definition close_fd :: "int \<Rightarrow> process \<Rightarrow> process" where
  "close_fd fd p = p\<lparr>pr_fds := (pr_fds p)(fd := None)\<rparr>"

definition dup2 :: "int \<Rightarrow> int \<Rightarrow> process \<Rightarrow> process" where
  "dup2 old new p = (case pr_fds p old of None \<Rightarrow> p | Some e \<Rightarrow> p\<lparr>pr_fds := (pr_fds p)(new \<mapsto> e)\<rparr>)"

text \<open>\<open>fcntl(fd, F_SETFL, fcntl(fd, F_GETFL) | O_NONBLOCK)\<close>: the mode belongs to the open file, which children share.\<close>

definition set_nonblock :: "int \<Rightarrow> process \<Rightarrow> process" where
  "set_nonblock fd p = (case pr_fds p fd of None \<Rightarrow> p | Some e \<Rightarrow> p\<lparr>pr_nonblock := insert e (pr_nonblock p)\<rparr>)"

text \<open>The constructor, for the pipe with number \<open>i\<close>; \<open>close\<close>, which the destructor calls too; \<open>release\<close>.\<close>

definition PipeWrapper :: "nat \<Rightarrow> (int \<times> int) option \<Rightarrow> process \<Rightarrow> process \<times> pipe_wrapper result" where
  "PipeWrapper i answer p =
     (case answer of
        None \<Rightarrow> (p, Inl (RuntimeError (''Couldn'' @ [CHR 0x27] @ ''t create pipe'')))
      | Some (r, w) \<Rightarrow>
          (p\<lparr>pr_fds := (pr_fds p)(r \<mapsto> ReadEnd i, w \<mapsto> WriteEnd i)\<rparr>,
           Inr \<lparr>pw_read = r, pw_write = w, pw_isOpen = True\<rparr>))"

definition pipe_close :: "pipe_wrapper \<Rightarrow> process \<Rightarrow> process" where
  "pipe_close pw p = (if pw_isOpen pw then close_fd (pw_write pw) (close_fd (pw_read pw) p) else p)"

definition pipe_release :: "pipe_wrapper \<Rightarrow> pipe_wrapper" where
  "pipe_release pw = pw\<lparr>pw_isOpen := False\<rparr>"

definition set_pipe_nonblock :: "pipe_wrapper \<Rightarrow> process \<Rightarrow> process" where
  "set_pipe_nonblock pw p = set_nonblock (pw_write pw) (set_nonblock (pw_read pw) p)"

section \<open>Reading\<close>

datatype read_answer = Got string | NothingRead | NeverReturns

definition read_pipe :: "process \<Rightarrow> int \<Rightarrow> nat \<Rightarrow> (nat \<Rightarrow> string) \<Rightarrow> read_answer" where
  "read_pipe p fd n pipes =
     (case pr_fds p fd of
        Some (ReadEnd i) \<Rightarrow>
          (if pipes i \<noteq> [] then Got (take n (pipes i))
           else if ReadEnd i \<in> pr_nonblock p then NothingRead else NeverReturns)
      | _ \<Rightarrow> NothingRead)"

definition take_read :: "process \<Rightarrow> int \<Rightarrow> nat \<Rightarrow> (nat \<Rightarrow> string) \<Rightarrow> (nat \<Rightarrow> string)" where
  "take_read p fd n pipes =
     (case pr_fds p fd of Some (ReadEnd i) \<Rightarrow> pipes(i := drop n (pipes i)) | _ \<Rightarrow> pipes)"

text \<open>\<open>while (0 < (bytes_read = read(...))) stream.write(...)\<close>; \<open>None\<close> when a read never returns.\<close>

function drain_pipe :: "process \<Rightarrow> int \<Rightarrow> (nat \<Rightarrow> string) \<Rightarrow> string \<Rightarrow> string option" where
  "drain_pipe p fd pipes stream =
     (case read_pipe p fd 4096 pipes of
        Got bytes \<Rightarrow> drain_pipe p fd (take_read p fd 4096 pipes) (stream @ bytes)
      | NothingRead \<Rightarrow> Some stream
      | NeverReturns \<Rightarrow> None)"
  by pat_completeness auto
termination
  by (relation "measure (\<lambda>(p, fd, pipes, stream). case pr_fds p fd of Some (ReadEnd i) \<Rightarrow> length (pipes i) | _ \<Rightarrow> 0)")
    (auto simp: read_pipe_def take_read_def split: option.splits endpoint.splits if_splits)

declare drain_pipe.simps [simp del]

section \<open>The status of a child\<close>

definition WTERMSIG :: "32 word \<Rightarrow> int" where
  "WTERMSIG status = uint (status AND 0x7f)"

definition WIFEXITED :: "32 word \<Rightarrow> bool" where
  "WIFEXITED status \<longleftrightarrow> WTERMSIG status = 0"

definition WEXITSTATUS :: "32 word \<Rightarrow> int" where
  "WEXITSTATUS status = uint (drop_bit 8 (status AND 0xff00))"

text \<open>\<open>((signed char) ((status & 0x7f) + 1) >> 1) > 0\<close>.\<close>

definition WIFSIGNALED :: "32 word \<Rightarrow> bool" where
  "WIFSIGNALED status \<longleftrightarrow> 0 < sint (ucast ((status AND 0x7f) + 1) :: 8 word) div 2"

record command_output =
  co_out :: string
  co_err :: string
  co_code :: int
  co_signal :: int

definition new_CommandOutput :: command_output where
  "new_CommandOutput = \<lparr>co_out = [], co_err = [], co_code = -1, co_signal = -1\<rparr>"

definition command_output_of :: "string \<Rightarrow> string \<Rightarrow> 32 word \<Rightarrow> command_output" where
  "command_output_of out err status =
     \<lparr>co_out = out, co_err = err,
      co_code = (if WIFEXITED status then WEXITSTATUS status else -1),
      co_signal = (if WIFSIGNALED status then WTERMSIG status else -1)\<rparr>"

section \<open>Running a command\<close>

record os =
  os_pipe :: "nat \<Rightarrow> (int \<times> int) option"
  os_fork :: int
  os_exec :: "int option"
  os_wait :: "int + 32 word"
  os_left :: "nat \<Rightarrow> string"

datatype run_outcome =
    Returned command_output
  | Raised exn
  | Executes string "string list"
  | Blocked
  | Terminated

text \<open>
  The child after it has given up its pipe objects: \<open>execvp\<close> replaces the program or answers with
  an error number, which is thrown, in the child.
\<close>

definition redirect_child :: "pipe_wrapper \<Rightarrow> pipe_wrapper \<Rightarrow> process \<Rightarrow> process" where
  "redirect_child stdout_pipe stderr_pipe p =
     close_fd (pw_write stderr_pipe) (close_fd (pw_write stdout_pipe)
       (dup2 (pw_write stderr_pipe) 2 (dup2 (pw_write stdout_pipe) 1 p)))"

definition exec_child :: "int option \<Rightarrow> string \<Rightarrow> string list \<Rightarrow> run_outcome" where
  "exec_child answer path args =
     (case answer of
        None \<Rightarrow> Executes path (path # args)
      | Some errno \<Rightarrow> Raised (RuntimeError (''execvp failed: '' @ to_string_int errno)))"

definition run_child :: "os \<Rightarrow> string \<Rightarrow> string list \<Rightarrow> pipe_wrapper \<Rightarrow> pipe_wrapper \<Rightarrow> process \<Rightarrow> process \<times> run_outcome" where
  "run_child os path args stdout_pipe stderr_pipe p =
     (let stdout_pipe = pipe_release stdout_pipe; stderr_pipe = pipe_release stderr_pipe;
          p = redirect_child stdout_pipe stderr_pipe p
      in (pipe_close stdout_pipe (pipe_close stderr_pipe p), exec_child (os_exec os) path args))"

definition run_parent :: "os \<Rightarrow> pipe_wrapper \<Rightarrow> pipe_wrapper \<Rightarrow> process \<Rightarrow> run_outcome" where
  "run_parent os stdout_pipe stderr_pipe p =
     (case os_wait os of
        Inl errno \<Rightarrow> Raised (RuntimeError (''waitpid failed: '' @ to_string_int errno))
      | Inr status \<Rightarrow>
          (case (drain_pipe p (pw_read stdout_pipe) (os_left os) [], drain_pipe p (pw_read stderr_pipe) (os_left os) []) of
             (Some out, Some err) \<Rightarrow> Returned (command_output_of out err status)
           | _ \<Rightarrow> Blocked))"

definition couldnt_fork :: exn where
  "couldnt_fork = RuntimeError (''Couldn'' @ [CHR 0x27] @ ''t fork'')"

definition runCommand :: "os \<Rightarrow> string \<Rightarrow> string list \<Rightarrow> process \<Rightarrow> process \<times> run_outcome" where
  "runCommand os path args p =
     (case PipeWrapper 0 (os_pipe os 0) p of
        (p, Inl e) \<Rightarrow> (p, Raised e)
      | (p, Inr stdout_pipe) \<Rightarrow>
          (case PipeWrapper 1 (os_pipe os 1) p of
             (p, Inl e) \<Rightarrow> (pipe_close stdout_pipe p, Raised e)
           | (p, Inr stderr_pipe) \<Rightarrow>
               (let p = set_pipe_nonblock stderr_pipe (set_pipe_nonblock stdout_pipe p);
                    end_scope = (\<lambda>p. pipe_close stdout_pipe (pipe_close stderr_pipe p))
                in if os_fork os = -1 then (end_scope p, Raised couldnt_fork)
                   else if os_fork os = 0 then run_child os path args stdout_pipe stderr_pipe p
                   else (end_scope p, run_parent os stdout_pipe stderr_pipe p))))"

section \<open>Reading is complete\<close>

text \<open>A pipe in non-blocking mode is read to its last byte, in whatever pieces.\<close>

lemma drain_complete:
  assumes "pr_fds p fd = Some (ReadEnd i)" and "ReadEnd i \<in> pr_nonblock p"
  shows "drain_pipe p fd pipes stream = Some (stream @ pipes i)"
proof (induction "length (pipes i)" arbitrary: pipes stream rule: less_induct)
  case less
  show ?case
  proof (cases "pipes i = []")
    case True
    with assms show ?thesis by (subst drain_pipe.simps) (simp add: read_pipe_def)
  next
    case False
    let ?pipes = "take_read p fd 4096 pipes"
    have pipes: "?pipes i = drop 4096 (pipes i)" using assms(1) by (simp add: take_read_def)
    with False have "drain_pipe p fd ?pipes (stream @ take 4096 (pipes i)) = Some ((stream @ take 4096 (pipes i)) @ ?pipes i)"
      by (intro less) simp
    with assms(1) False pipes show ?thesis by (subst drain_pipe.simps) (simp add: read_pipe_def)
  qed
qed

text \<open>In blocking mode the loop would never end: the process holds the other end itself.\<close>

lemma drain_blocking:
  assumes "pr_fds p fd = Some (ReadEnd i)" and "ReadEnd i \<notin> pr_nonblock p"
  shows "drain_pipe p fd pipes stream = None"
proof (induction "length (pipes i)" arbitrary: pipes stream rule: less_induct)
  case less
  show ?case
  proof (cases "pipes i = []")
    case True
    with assms show ?thesis by (subst drain_pipe.simps) (simp add: read_pipe_def)
  next
    case False
    then have "drain_pipe p fd (take_read p fd 4096 pipes) (stream @ take 4096 (pipes i)) = None"
      using assms(1) by (intro less) (simp add: take_read_def)
    with assms(1) False show ?thesis by (subst drain_pipe.simps) (simp add: read_pipe_def)
  qed
qed

section \<open>The status is decoded\<close>

text \<open>The kernel's encoding of a child that ended.\<close>

datatype child_end = Exited "8 word" | Killed nat bool

fun wait_status :: "child_end \<Rightarrow> 32 word" where
  "wait_status (Exited c) = push_bit 8 (ucast c)"
| "wait_status (Killed n core) = of_nat n + (if core then 0x80 else 0)"

fun child_end_ok :: "child_end \<Rightarrow> bool" where
  "child_end_ok (Exited c) = True"
| "child_end_ok (Killed n core) = (0 < n \<and> n < 127)"

lemma exited_low_bits: "wait_status (Exited c) AND 0x7f = 0"
proof -
  have "(0x7f :: 32 word) = mask 7" by (simp add: mask_eq_exp_minus_1)
  then have "wait_status (Exited c) AND 0x7f = take_bit 7 (push_bit 8 (ucast c) :: 32 word)"
    by (simp add: take_bit_eq_mask)
  also have "\<dots> = 0" by (simp add: take_bit_push_bit)
  finally show ?thesis .
qed

lemma exited_high_bits: "WEXITSTATUS (wait_status (Exited c)) = uint c"
proof -
  have "drop_bit 8 (wait_status (Exited c) AND 0xff00) = (ucast c :: 32 word)"
  proof (rule bit_word_eqI)
    fix n assume "n < LENGTH(32)"
    moreover have "bit (0xff :: 32 word) n \<longleftrightarrow> n < 8" if "n < 24"
    proof -
      have eq: "(0xff :: 32 word) = mask 8" by (simp add: mask_eq_exp_minus_1)
      from that show ?thesis by (simp only: eq bit_mask_iff) auto
    qed
    moreover have "bit c n \<Longrightarrow> n < 8" using bit_imp_le_length [of c n] by simp
    ultimately show "bit (drop_bit 8 (wait_status (Exited c) AND 0xff00)) n = bit (ucast c :: 32 word) n"
      by (auto simp: bit_simps)
  qed
  then have "WEXITSTATUS (wait_status (Exited c)) = uint (ucast c :: 32 word)"
    by (simp add: WEXITSTATUS_def)
  also have "\<dots> = uint c" by (rule uint_up_ucast) (simp add: is_up)
  finally show ?thesis .
qed

lemma killed_low_bits: "n < 127 \<Longrightarrow> wait_status (Killed n core) AND 0x7f = of_nat n"
proof -
  assume n: "n < 127"
  have "(0x7f :: 32 word) = mask 7" by (simp add: mask_eq_exp_minus_1)
  then have "wait_status (Killed n core) AND 0x7f = take_bit 7 (of_nat (n + (if core then 128 else 0)) :: 32 word)"
    by (simp add: take_bit_eq_mask)
  also have "\<dots> = of_nat (take_bit 7 (n + (if core then 128 else 0)))" by (simp only: take_bit_of_nat)
  also have "\<dots> = of_nat n" using n by (simp add: take_bit_eq_mod)
  finally show ?thesis .
qed

lemma WIFSIGNALED_killed:
  assumes "0 < n" and "n < 127"
  shows "WIFSIGNALED (wait_status (Killed n core))"
proof -
  have "sint (ucast (of_nat n + 1 :: 32 word) :: 8 word) = int n + 1"
  proof -
    have "(ucast (of_nat n + 1 :: 32 word) :: 8 word) = of_nat (n + 1)"
      using assms by (simp only: of_nat_Suc [symmetric] add.commute [of "of_nat n"] unsigned_of_nat)
        (simp add: take_bit_nat_eq_self)
    moreover have "sint (of_nat (n + 1) :: 8 word) = int (n + 1)"
      using assms by (simp add: sint_uint unsigned_of_nat signed_take_bit_int_eq_self take_bit_nat_eq_self del: of_nat_add of_nat_Suc)
    ultimately show ?thesis by simp
  qed
  with assms show ?thesis by (simp only: WIFSIGNALED_def killed_low_bits)
qed

fun end_code :: "child_end \<Rightarrow> int" where
  "end_code (Exited c) = uint c"
| "end_code (Killed n core) = -1"

fun end_signal :: "child_end \<Rightarrow> int" where
  "end_signal (Exited c) = -1"
| "end_signal (Killed n core) = int n"

text \<open>A child that ended has an exit code or a signal, never both, and the result shows which.\<close>

lemma command_output_of_end:
  assumes "child_end_ok e"
  shows "command_output_of out err (wait_status e)
    = \<lparr>co_out = out, co_err = err, co_code = end_code e, co_signal = end_signal e\<rparr>"
proof (cases e)
  case (Exited c)
  have "\<not> WIFSIGNALED (wait_status (Exited c))"
    by (simp only: WIFSIGNALED_def exited_low_bits) simp
  moreover have "WIFEXITED (wait_status (Exited c))"
    by (simp only: WIFEXITED_def WTERMSIG_def exited_low_bits) simp
  ultimately show ?thesis
    using exited_high_bits [of c] Exited by (simp add: command_output_of_def del: wait_status.simps)
next
  case (Killed n core)
  with assms have n: "0 < n" "n < 127" by simp_all
  then have "WTERMSIG (wait_status (Killed n core)) = int n"
    by (simp only: WTERMSIG_def killed_low_bits) (simp add: unsigned_of_nat take_bit_nat_eq_self)
  with n WIFSIGNALED_killed [OF n] Killed show ?thesis
    by (simp add: command_output_of_def WIFEXITED_def del: wait_status.simps)
qed

section \<open>Running a command, verified\<close>

text \<open>The kernel hands out descriptors that are not open.\<close>

definition fresh_pipe :: "(int \<times> int) option \<Rightarrow> process \<Rightarrow> bool" where
  "fresh_pipe answer p = (case answer of None \<Rightarrow> True | Some (r, w) \<Rightarrow> r \<noteq> w \<and> pr_fds p r = None \<and> pr_fds p w = None)"

definition kernel_ok :: "os \<Rightarrow> process \<Rightarrow> bool" where
  "kernel_ok os p \<longleftrightarrow>
     fresh_pipe (os_pipe os 0) p \<and> fresh_pipe (os_pipe os 1) (fst (PipeWrapper 0 (os_pipe os 0) p))"

lemma nonblock_fds [simp]:
  "pr_fds (set_nonblock fd p) = pr_fds p" "pr_fds (set_pipe_nonblock pw p) = pr_fds p"
  by (simp_all add: set_nonblock_def set_pipe_nonblock_def split: option.splits)

lemma set_nonblock_mono: "pr_nonblock p \<subseteq> pr_nonblock (set_nonblock fd p)"
  by (auto simp: set_nonblock_def split: option.splits)

lemma set_pipe_nonblock_mono: "pr_nonblock p \<subseteq> pr_nonblock (set_pipe_nonblock pw p)"
  unfolding set_pipe_nonblock_def by (rule order_trans [OF set_nonblock_mono set_nonblock_mono])

lemma set_pipe_nonblock_read:
  "pr_fds p (pw_read pw) = Some e \<Longrightarrow> e \<in> pr_nonblock (set_pipe_nonblock pw p)"
  by (auto simp: set_pipe_nonblock_def set_nonblock_def split: option.splits)

lemma pipe_close_fds:
  "pw_isOpen pw \<Longrightarrow> pr_fds (pipe_close pw p) = (pr_fds p)(pw_read pw := None, pw_write pw := None)"
  by (simp add: pipe_close_def close_fd_def)

text \<open>Opening a pipe and closing it again leaves the descriptors as they were.\<close>

lemma pipe_scope:
  assumes "fresh_pipe answer p" and "PipeWrapper i answer p = (p', Inr pw)"
    and "pr_fds q = pr_fds p'"
  shows "pr_fds (pipe_close pw q) = pr_fds p"
  using assms by (auto simp: fresh_pipe_def PipeWrapper_def pipe_close_fds fun_eq_iff split: option.splits)

lemma PipeWrapper_Inl: "PipeWrapper i answer p = (p', Inl e) \<Longrightarrow> p' = p"
  by (auto simp: PipeWrapper_def split: option.splits)

lemma PipeWrapper_Inr: "PipeWrapper i (Some (r, w)) p =
    (p\<lparr>pr_fds := (pr_fds p)(r \<mapsto> ReadEnd i, w \<mapsto> WriteEnd i)\<rparr>, Inr \<lparr>pw_read = r, pw_write = w, pw_isOpen = True\<rparr>)"
  by (simp add: PipeWrapper_def)

lemma runCommand_no_leak:
  assumes "kernel_ok os p" and "os_fork os \<noteq> 0"
  shows "pr_fds (fst (runCommand os path args p)) = pr_fds p"
proof (cases "PipeWrapper 0 (os_pipe os 0) p")
  case (Pair p1 r1)
  show ?thesis
  proof (cases r1)
    case (Inl e)
    with Pair PipeWrapper_Inl [of 0 "os_pipe os 0" p p1 e] show ?thesis by (simp add: runCommand_def)
  next
    case (Inr out)
    note scope1 = pipe_scope [OF _ Pair [unfolded Inr]]
    obtain p2 r2 where two: "PipeWrapper 1 (os_pipe os 1) p1 = (p2, r2)" by fastforce
    show ?thesis
    proof (cases r2)
      case (Inl e)
      with Pair Inr two assms PipeWrapper_Inl [of 1 "os_pipe os 1" p1 p2 e] show ?thesis
        by (simp add: runCommand_def scope1 kernel_ok_def)
    next
      case Inr2: (Inr err)
      note scope2 = pipe_scope [OF _ two [unfolded Inr2]]
      have "fresh_pipe (os_pipe os 0) p" "fresh_pipe (os_pipe os 1) p1"
        using assms(1) Pair by (simp_all add: kernel_ok_def)
      with Pair Inr two Inr2 assms(2) show ?thesis
        by (simp add: runCommand_def Let_def scope1 scope2)
    qed
  qed
qed

text \<open>The two pipes of a call and the process once they are set up.\<close>

definition pipe_object :: "(int \<times> int) \<Rightarrow> pipe_wrapper" where
  "pipe_object rw = \<lparr>pw_read = fst rw, pw_write = snd rw, pw_isOpen = True\<rparr>"

definition with_pipes :: "(int \<times> int) \<Rightarrow> (int \<times> int) \<Rightarrow> process \<Rightarrow> process" where
  "with_pipes a b p =
     set_pipe_nonblock (pipe_object b) (set_pipe_nonblock (pipe_object a)
       (p\<lparr>pr_fds := (pr_fds p)(fst a \<mapsto> ReadEnd 0, snd a \<mapsto> WriteEnd 0, fst b \<mapsto> ReadEnd 1, snd b \<mapsto> WriteEnd 1)\<rparr>))"

lemma runCommand_started:
  assumes "os_pipe os 0 = Some a" and "os_pipe os 1 = Some b"
  shows "runCommand os path args p =
    (if os_fork os = -1 then (pipe_close (pipe_object a) (pipe_close (pipe_object b) (with_pipes a b p)), Raised couldnt_fork)
     else if os_fork os = 0 then run_child os path args (pipe_object a) (pipe_object b) (with_pipes a b p)
     else (pipe_close (pipe_object a) (pipe_close (pipe_object b) (with_pipes a b p)),
           run_parent os (pipe_object a) (pipe_object b) (with_pipes a b p)))"
  using assms by (cases a; cases b) (simp add: runCommand_def PipeWrapper_def with_pipes_def pipe_object_def Let_def)

text \<open>The descriptors of the pipes differ from each other and from those that were open.\<close>

lemma kernel_ok_distinct:
  assumes "kernel_ok os p" and "os_pipe os 0 = Some a" and "os_pipe os 1 = Some b"
  shows "distinct [fst a, snd a, fst b, snd b]" "pr_fds p (fst a) = None" "pr_fds p (snd a) = None"
    "pr_fds p (fst b) = None" "pr_fds p (snd b) = None"
  using assms by (auto simp: kernel_ok_def fresh_pipe_def PipeWrapper_def split: prod.splits if_splits)

lemma with_pipes_read:
  assumes "distinct [fst a, snd a, fst b, snd b]"
  shows "pr_fds (with_pipes a b p) (fst a) = Some (ReadEnd 0)" "pr_fds (with_pipes a b p) (fst b) = Some (ReadEnd 1)"
    "ReadEnd 0 \<in> pr_nonblock (with_pipes a b p)" "ReadEnd 1 \<in> pr_nonblock (with_pipes a b p)"
proof -
  let ?p = "p\<lparr>pr_fds := (pr_fds p)(fst a \<mapsto> ReadEnd 0, snd a \<mapsto> WriteEnd 0, fst b \<mapsto> ReadEnd 1, snd b \<mapsto> WriteEnd 1)\<rparr>"
  show "pr_fds (with_pipes a b p) (fst a) = Some (ReadEnd 0)" "pr_fds (with_pipes a b p) (fst b) = Some (ReadEnd 1)"
    using assms by (simp_all add: with_pipes_def)
  have "ReadEnd 0 \<in> pr_nonblock (set_pipe_nonblock (pipe_object a) ?p)"
    using assms by (intro set_pipe_nonblock_read) (simp add: pipe_object_def)
  then show "ReadEnd 0 \<in> pr_nonblock (with_pipes a b p)"
    unfolding with_pipes_def by (rule subsetD [OF set_pipe_nonblock_mono])
  show "ReadEnd 1 \<in> pr_nonblock (with_pipes a b p)"
    unfolding with_pipes_def using assms by (intro set_pipe_nonblock_read) (simp add: pipe_object_def)
qed

lemma run_parent_returns:
  assumes "distinct [fst a, snd a, fst b, snd b]" and "os_wait os = Inr status"
  shows "run_parent os (pipe_object a) (pipe_object b) (with_pipes a b p)
    = Returned (command_output_of (os_left os 0) (os_left os 1) status)"
  using with_pipes_read [OF assms(1)] assms(2)
  by (simp add: run_parent_def drain_complete pipe_object_def)

lemma run_child_streams:
  assumes "distinct [fst a, snd a, fst b, snd b]" and "{1, 2} \<inter> {fst a, snd a, fst b, snd b} = {}"
  shows "pr_fds (fst (run_child os path args (pipe_object a) (pipe_object b) (with_pipes a b p))) =
    (pr_fds p)(1 \<mapsto> WriteEnd 0, 2 \<mapsto> WriteEnd 1, fst a \<mapsto> ReadEnd 0, snd a := None, fst b \<mapsto> ReadEnd 1, snd b := None)"
  using assms
  by (auto simp: run_child_def Let_def pipe_release_def pipe_object_def pipe_close_def redirect_child_def
      close_fd_def dup2_def with_pipes_def fun_eq_iff)


definition example_os :: "int \<Rightarrow> os" where
  "example_os pid = \<lparr>os_pipe = (\<lambda>i. Some (2 * int i + 3, 2 * int i + 4)), os_fork = pid, os_exec = None,
     os_wait = Inr (wait_status (Exited 3)), os_left = (\<lambda>i. if i = 0 then ''hi'' else ''oh'')\<rparr>"

definition example_process :: process where
  "example_process = \<lparr>pr_fds = [0 \<mapsto> OtherFile 0, 1 \<mapsto> OtherFile 1, 2 \<mapsto> OtherFile 2], pr_nonblock = {}, pr_control = None\<rparr>"


text \<open>
  What comes back is what the pipe held when the child ended: output beyond the capacity of a pipe is
  not read while the child runs, so no result is ever longer than that.
\<close>

lemma output_bounded_by_capacity:
  assumes "kernel_ok os p" and "length (os_left os 0) \<le> capacity"
    and "os_pipe os 0 \<noteq> None" "os_pipe os 1 \<noteq> None" "0 < os_fork os" "os_wait os = Inr status"
  shows "\<exists>r. snd (runCommand os path args p) = Returned r \<and> length (co_out r) \<le> capacity"
proof -
  obtain a b where ab: "os_pipe os 0 = Some a" "os_pipe os 1 = Some b" using assms by blast
  with assms show ?thesis
    by (simp add: runCommand_started [OF ab] run_parent_returns [OF kernel_ok_distinct(1) [OF assms(1) ab]] command_output_of_def)
qed

text \<open>A program that cannot be executed makes the child, a copy of the server, throw into the caller and live on.\<close>

lemma failed_exec_throws_in_child:
  assumes "os_pipe os 0 \<noteq> None" "os_pipe os 1 \<noteq> None" "os_fork os = 0" "os_exec os = Some errno"
  shows "snd (runCommand os path args p) = Raised (RuntimeError (''execvp failed: '' @ to_string_int errno))"
proof -
  obtain a b where ab: "os_pipe os 0 = Some a" "os_pipe os 1 = Some b" using assms by blast
  with assms show ?thesis by (simp add: runCommand_started [OF ab] run_child_def Let_def exec_child_def)
qed

section \<open>Running a command with a time limit\<close>

text \<open>
  The second \<open>runCommand\<close>.  Its control pipe is \<open>static thread_local\<close>: made by the first call of a
  thread and kept.  The main thread's loop is driven by a list of rounds, each what \<open>select\<close> answered
  (an error number, or the descriptors left in the set), whether the control pipe had a byte, the
  bytes in the two pipes, and what \<open>waitpid\<close> with \<open>WNOHANG\<close> returned: the child, 0 while the child
  runs, or -1; the status is written in the first case only.  Rounds depend on the time limit that
  is passed to \<open>select\<close>.
\<close>

record poll =
  po_select :: "int option"
  po_ready :: "int set"
  po_control :: bool
  po_pipes :: "nat \<Rightarrow> string"
  po_wait :: int
  po_status :: "32 word"

record timed =
  td_quit :: bool
  td_out :: string
  td_err :: string
  td_status :: "32 word"

definition EINTR :: int where "EINTR = 4"

text \<open>\<open>timeout.count() / 1'000'000\<close> and \<open>%\<close>, which round towards zero.\<close>

definition timeval_of :: "int \<Rightarrow> int \<times> int" where
  "timeval_of microseconds =
     (sgn microseconds * (\<bar>microseconds\<bar> div 1000000), sgn microseconds * (\<bar>microseconds\<bar> mod 1000000))"

definition drain_ready :: "process \<Rightarrow> poll \<Rightarrow> pipe_wrapper \<Rightarrow> string \<Rightarrow> string option" where
  "drain_ready p e pw stream =
     (if pw_read pw \<in> po_ready e then drain_pipe p (pw_read pw) (po_pipes e) stream else Some stream)"

text \<open>\<open>None\<close>: the loop goes on for longer than the given rounds.\<close>

fun timed_loop :: "process \<Rightarrow> pipe_wrapper \<Rightarrow> pipe_wrapper \<Rightarrow> pipe_wrapper \<Rightarrow> poll list \<Rightarrow> timed \<Rightarrow> timed option" where
  "timed_loop p control_pipe stdout_pipe stderr_pipe [] st = None"
| "timed_loop p control_pipe stdout_pipe stderr_pipe (e # es) st =
     (if po_select e \<noteq> None \<and> po_select e \<noteq> Some EINTR then Some st
      else
        let st = (if pw_read control_pipe \<in> po_ready e \<and> po_control e then st\<lparr>td_quit := True\<rparr> else st) in
        case (drain_ready p e stdout_pipe (td_out st), drain_ready p e stderr_pipe (td_err st)) of
          (Some out, Some err) \<Rightarrow>
            (let st = st\<lparr>td_out := out, td_err := err\<rparr> in
             if po_wait e \<noteq> -1
             then Some (st\<lparr>td_quit := True, td_status := (if 0 < po_wait e then po_status e else td_status st)\<rparr>)
             else timed_loop p control_pipe stdout_pipe stderr_pipe es st)
        | _ \<Rightarrow> None)"

text \<open>
  The timer's thread: its rounds are the value of \<open>child_quit\<close> at the head of the loop, the clock
  after the wait, whether the byte could be written, and \<open>child_quit\<close> before the signal is sent.
  The name \<open>control_pipe\<close> means the object of the thread that runs, and this thread never makes its
  own: it is zero-initialised, so the byte goes to descriptor 0.  An exception ends the program.
\<close>

record timer_round =
  tr_quit :: bool
  tr_now :: int
  tr_written :: bool
  tr_quit_late :: bool

datatype timer_end = Stood_down | Fired int "(int \<times> int) option" | Threw exn

definition unmade_pipe :: pipe_wrapper where
  "unmade_pipe = \<lparr>pw_read = 0, pw_write = 0, pw_isOpen = False\<rparr>"

fun timer_thread :: "int \<Rightarrow> int \<Rightarrow> int \<Rightarrow> timer_round list \<Rightarrow> timer_end option" where
  "timer_thread until child signal_on_timeout [] = None"
| "timer_thread until child signal_on_timeout (r # rs) =
     (if tr_quit r then Some Stood_down
      else if until \<le> tr_now r
      then (if \<not> tr_written r then Some (Threw (RuntimeError (''Couldn'' @ [CHR 0x27] @ ''t write to control pipe'')))
            else Some (Fired (pw_write unmade_pipe)
              (if \<not> tr_quit_late r \<and> signal_on_timeout \<noteq> 0 \<and> child \<noteq> -1 then Some (child, signal_on_timeout) else None)))
      else timer_thread until child signal_on_timeout rs)"

record schedule_of_run =
  sr_until :: int
  sr_polls :: "int \<times> int \<Rightarrow> poll list"
  sr_timer :: "timer_round list"

text \<open>
  The thread object is joinable until it is joined, so leaving the scope by an exception before
  that, in the parent or in the child, ends the process.
\<close>

definition timed_child :: "os \<Rightarrow> string \<Rightarrow> string list \<Rightarrow> pipe_wrapper \<Rightarrow> pipe_wrapper \<Rightarrow> process \<Rightarrow> process \<times> run_outcome" where
  "timed_child os path args stdout_pipe stderr_pipe p =
     (redirect_child (pipe_release stdout_pipe) (pipe_release stderr_pipe)
        (p\<lparr>pr_control := map_option pipe_release (pr_control p)\<rparr>),
      case exec_child (os_exec os) path args of Raised _ \<Rightarrow> Terminated | outcome \<Rightarrow> outcome)"

definition timed_parent ::
  "os \<Rightarrow> schedule_of_run \<Rightarrow> int \<Rightarrow> int \<Rightarrow> pipe_wrapper \<Rightarrow> pipe_wrapper \<Rightarrow> pipe_wrapper \<Rightarrow> process \<Rightarrow> run_outcome" where
  "timed_parent os sch timeout signal_on_timeout control_pipe stdout_pipe stderr_pipe p =
     (case timer_thread (sr_until sch) (os_fork os) signal_on_timeout (sr_timer sch) of
        Some (Threw e) \<Rightarrow> Terminated
      | timer \<Rightarrow>
          (case timed_loop p control_pipe stdout_pipe stderr_pipe (sr_polls sch (timeval_of timeout))
                  \<lparr>td_quit = False, td_out = [], td_err = [], td_status = 0\<rparr> of
             None \<Rightarrow> Blocked
           | Some st \<Rightarrow>
               (if timer = None then Blocked else Returned (command_output_of (td_out st) (td_err st) (td_status st)))))"

definition control_pipe_of :: "os \<Rightarrow> process \<Rightarrow> process \<times> pipe_wrapper result" where
  "control_pipe_of os p =
     (case pr_control p of
        Some pw \<Rightarrow> (p, Inr pw)
      | None \<Rightarrow>
          (case PipeWrapper 2 (os_pipe os 2) p of
             (p, Inl e) \<Rightarrow> (p, Inl e)
           | (p, Inr pw) \<Rightarrow> (p\<lparr>pr_control := Some pw\<rparr>, Inr pw)))"

definition runCommand_timed ::
  "os \<Rightarrow> schedule_of_run \<Rightarrow> string \<Rightarrow> string list \<Rightarrow> int \<Rightarrow> int \<Rightarrow> process \<Rightarrow> process \<times> run_outcome" where
  "runCommand_timed os sch path args timeout signal_on_timeout p =
     (case control_pipe_of os p of
        (p, Inl e) \<Rightarrow> (p, Raised e)
      | (p, Inr control_pipe) \<Rightarrow>
          (case PipeWrapper 0 (os_pipe os 0) p of
             (p, Inl e) \<Rightarrow> (p, Raised e)
           | (p, Inr stdout_pipe) \<Rightarrow>
               (case PipeWrapper 1 (os_pipe os 1) p of
                  (p, Inl e) \<Rightarrow> (pipe_close stdout_pipe p, Raised e)
                | (p, Inr stderr_pipe) \<Rightarrow>
                    (let p = set_pipe_nonblock stderr_pipe (set_pipe_nonblock stdout_pipe (set_pipe_nonblock control_pipe p));
                         end_scope = (\<lambda>p. pipe_close stdout_pipe (pipe_close stderr_pipe p))
                     in if os_fork os = -1 then (p, Terminated)
                        else if os_fork os = 0 then timed_child os path args stdout_pipe stderr_pipe p
                        else (end_scope p,
                              timed_parent os sch timeout signal_on_timeout control_pipe stdout_pipe stderr_pipe p)))))"

text \<open>One round is enough unless \<open>waitpid\<close> fails, whether the child has ended or not.\<close>

lemma timed_loop_one_round:
  assumes "po_select e = None" and "po_wait e \<noteq> -1"
    and "drain_ready p e stdout_pipe (td_out st) = Some out" "drain_ready p e stderr_pipe (td_err st) = Some err"
  shows "timed_loop p control_pipe stdout_pipe stderr_pipe (e # es) st =
    Some (st\<lparr>td_out := out, td_err := err, td_quit := True, td_status := (if 0 < po_wait e then po_status e else td_status st)\<rparr>)"
  using assms by (auto simp: Let_def)

text \<open>
  A child that is still running after the first round is reported as ended with code 0, with
  what it has written so far.
\<close>

lemma running_child_reported_as_success:
  assumes "po_select e = None" and "po_wait e = 0"
    and "drain_ready p e stdout_pipe [] = Some out" "drain_ready p e stderr_pipe [] = Some err"
    and "sr_polls sch (timeval_of timeout) = e # es" and "sr_timer sch = rs"
    and "timer_thread (sr_until sch) (os_fork os) sig rs = Some Stood_down"
  shows "timed_parent os sch timeout sig control_pipe stdout_pipe stderr_pipe p =
    Returned \<lparr>co_out = out, co_err = err, co_code = 0, co_signal = -1\<rparr>"
proof -
  have "command_output_of out err 0 = command_output_of out err (wait_status (Exited 0))" by simp
  also have "\<dots> = \<lparr>co_out = out, co_err = err, co_code = 0, co_signal = -1\<rparr>"
    by (subst command_output_of_end) simp_all
  finally show ?thesis using assms by (simp add: timed_parent_def)
qed

text \<open>The timer's thread ends: it sees that the child quit, or its deadline passes.\<close>

lemma timer_thread_ends:
  assumes "\<exists>r \<in> set rs. tr_quit r \<or> until \<le> tr_now r"
  shows "\<exists>t. timer_thread until child sig rs = Some t"
  using assms by (induction rs) auto

text \<open>The byte of a timer that fires goes to standard input, not to the control pipe.\<close>

lemma timer_writes_to_stdin: "timer_thread until child sig rs = Some (Fired fd killed) \<Longrightarrow> fd = 0"
  by (induction rs) (auto simp: unmade_pipe_def split: if_splits)

text \<open>A signal is sent at most once, to the child, and only after the deadline.\<close>

lemma timer_kills_child:
  "timer_thread until child sig rs = Some (Fired fd (Some (pid, s))) \<Longrightarrow>
     pid = child \<and> s = sig \<and> sig \<noteq> 0 \<and> (\<exists>r \<in> set rs. until \<le> tr_now r \<and> \<not> tr_quit r)"
  by (induction rs) (auto split: if_splits)

text \<open>A failing \<open>fork\<close> ends the program instead of throwing.\<close>

lemma timed_fork_failure_terminates:
  assumes "pr_control p = Some c" "os_pipe os 0 \<noteq> None" "os_pipe os 1 \<noteq> None" "os_fork os = -1"
  shows "snd (runCommand_timed os sch path args timeout sig p) = Terminated"
  using assms by (auto simp: runCommand_timed_def control_pipe_of_def PipeWrapper_def Let_def)

text \<open>After the first call of a thread, which makes its control pipe, no call leaves descriptors behind.\<close>

lemma runCommand_timed_no_leak:
  assumes "kernel_ok os p" and "pr_control p = Some c" and "0 < os_fork os"
  shows "pr_fds (fst (runCommand_timed os sch path args timeout sig p)) = pr_fds p"
proof (cases "os_pipe os 0 = None \<or> os_pipe os 1 = None")
  case True
  then show ?thesis
    using assms pipe_scope [of "os_pipe os 0" p 0]
    by (auto simp: runCommand_timed_def control_pipe_of_def kernel_ok_def PipeWrapper_def split: option.splits)
next
  case False
  then obtain a b where ab: "os_pipe os 0 = Some a" "os_pipe os 1 = Some b" by auto
  note d = kernel_ok_distinct [OF assms(1) ab]
  show ?thesis
    using assms(2,3) ab d
    by (cases a; cases b)
      (simp add: runCommand_timed_def control_pipe_of_def PipeWrapper_def Let_def pipe_close_fds fun_eq_iff)
qed

section \<open>What a caller sees\<close>

text \<open>
  The result of a call in the parent: a value or an exception.  \<open>None\<close>: the call does not return to
  this process.
\<close>

fun returned :: "run_outcome \<Rightarrow> command_output result option" where
  "returned (Returned r) = Some (Inr r)"
| "returned (Raised e) = Some (Inl e)"
| "returned _ = None"

text \<open>A call always returns to the parent: its reads never block.\<close>

lemma runCommand_returns:
  assumes "kernel_ok os p" and "os_fork os \<noteq> 0" and "-1 \<le> os_fork os"
  shows "\<exists>r. returned (snd (runCommand os path args p)) = Some r"
proof (cases "os_pipe os 0 = None \<or> os_pipe os 1 = None")
  case True
  then show ?thesis by (auto simp: runCommand_def PipeWrapper_def split: option.splits)
next
  case False
  then obtain a b where ab: "os_pipe os 0 = Some a" "os_pipe os 1 = Some b" by auto
  note parent = run_parent_returns [OF kernel_ok_distinct(1) [OF assms(1) ab]]
  show ?thesis
  proof (cases "os_wait os")
    case (Inl errno)
    with assms(2) show ?thesis by (simp add: runCommand_started [OF ab] run_parent_def)
  next
    case (Inr status)
    with assms(2) parent [OF Inr, of p] show ?thesis by (simp add: runCommand_started [OF ab])
  qed
qed

end
