(* ===== verification/Game3_Ci.thy ===== *)
theory Game3_Ci
  imports Small_Plugins Json_Value Mt_Queue Shell
begin

text \<open>
  The continuous-integration plugin \<open>src/src/plugins/game3ci/Game3CI.cpp\<close>: a web hook that checks
  the signature of a push notification and queues a build, and the build itself.

  Parameters are the message authentication code \<open>hmac\<close> (OpenSSL), the JSON parser \<open>parse\<close> and,
  for the build, \<open>shell\<close>, which runs a command on the state of the machine.  The state of the plugin
  in the arguments of a request is the queue of its thread pool; a queued build is the hash of its
  commit.
\<close>

record game3ci =
  g3_repoRoot :: string
  g3_builddir :: string
  g3_secret :: string
  g3_quasiMsys2 :: string
  g3_force :: bool

section \<open>The hook\<close>

fun compare_loop :: "string \<Rightarrow> string \<Rightarrow> int \<Rightarrow> int" where
  "compare_loop (a # one) (b # two) n = compare_loop one two (if a = b then n - 1 else n + 1)"
| "compare_loop _ _ n = n"

definition compareHMAC :: "string \<Rightarrow> string \<Rightarrow> bool result" where
  "compareHMAC one two =
     (if length one \<noteq> length two then Inl (RuntimeError ''Strings must have same length to be fully compared'')
      else Inr (compare_loop one two (int (length one)) = 0))"

text \<open>\<open>std::string::resize\<close> cuts or fills with zero bytes.\<close>

definition str_resize :: "nat \<Rightarrow> string \<Rightarrow> string" where
  "str_resize n s = take n s @ replicate (n - length s) (CHR 0x00)"

text \<open>The answer, followed by \<open>client.close()\<close>, which leaves a kept-alive connection open.\<close>

definition hook_reply :: "int \<Rightarrow> string \<Rightarrow> 'w handler_args \<Rightarrow> 'w handler_args" where
  "hook_reply code content args =
     logged (response_call (ha_client args) (Response code content ''text/plain'')
       # (if cf_keepAlive (cl_flags (ha_client args)) then [] else [CloseClient (cl_id (ha_client args))])) args"

text \<open>\<open>pool.add(makeJob(*after_iter))\<close>, which converts the value to a string first.\<close>

definition add_job :: "json \<Rightarrow> string list handler_args \<Rightarrow> string list handler_args result" where
  "add_job v args = rmap (\<lambda>h. args\<lparr>ha_world := mtq_push h (ha_world args)\<rparr>) (jstring v)"

definition schedule_build :: "json \<Rightarrow> string list handler_args \<Rightarrow> string list handler_args result" where
  "schedule_build json args =
     (if jfind json ''ref'' = Some (JString ''refs/heads/master'')
      then (case jfind json ''after'' of Some v \<Rightarrow> add_job v args | None \<Rightarrow> Inr args)
      else Inr args)"

definition game3_handle ::
  "(string \<Rightarrow> string \<Rightarrow> string) \<Rightarrow> (string \<Rightarrow> json option) \<Rightarrow> game3ci \<Rightarrow> string list handler_args handler" where
  "game3_handle hmac parse ci args not_disabled =
     (let request = ha_request args; header = getHeader request ''x-hub-signature-256'' in
      if \<not> not_disabled then (args, Inr Pass)
      else if rq_path request \<noteq> ''/ci/hook'' then (args, Inr Pass)
      else if getHeader request ''content-type'' \<noteq> ''application/json''
      then (hook_reply 400 ''What?'' args, Inr Kill)
      else if length header < 7 then (args, Inl (OutOfRange ''substr''))
      else
        let expected = hexString (hmac (g3_secret ci) (rq_content request));
            signature = str_resize (length expected) (drop 7 header) in
        case compareHMAC signature expected of
          Inl e \<Rightarrow> (args, Inl e)
        | Inr False \<Rightarrow> (hook_reply 403 ''No.'' args, Inr Kill)
        | Inr True \<Rightarrow>
            (case parse (rq_content request) of
               None \<Rightarrow> (hook_reply 400 ''Bad JSON'' args, Inr Kill)
             | Some json \<Rightarrow>
                 (case schedule_build json args of
                    Inl e \<Rightarrow> (args, Inl e)
                  | Inr args' \<Rightarrow> (hook_reply 200 ''Thanks!'' args', Inr Approve))))"

section \<open>Life cycle\<close>

definition or_else :: "json option \<Rightarrow> (json \<Rightarrow> 'a result) \<Rightarrow> 'a \<Rightarrow> 'a result" where
  "or_else v conv d = (case v of Some x \<Rightarrow> conv x | None \<Rightarrow> Inr d)"

definition game3_config :: "json \<Rightarrow> game3ci result" where
  "game3_config config =
     rbind (rbind (jat config ''repo'') jstring) (\<lambda>repo.
     rbind (rbind (jat config ''builddir'') jstring) (\<lambda>dir.
     rbind (rbind (jat config ''secret'') jstring) (\<lambda>secret.
     rbind (or_else (jfind config ''quasiMsys2'') jstring []) (\<lambda>msys.
     rmap (\<lambda>force. \<lparr>g3_repoRoot = repo, g3_builddir = dir, g3_secret = secret, g3_quasiMsys2 = msys, g3_force = force\<rparr>)
       (or_else (jfind config ''force'') jbool False)))))"

text \<open>The handler is registered after the configuration was read, so a bad one registers nothing.\<close>

definition game3_postinit ::
  "(string \<Rightarrow> string \<Rightarrow> string) \<Rightarrow> (string \<Rightarrow> json option) \<Rightarrow> json \<Rightarrow> (string list, 'v) http_server
   \<Rightarrow> (game3ci \<times> (string list, 'v) http_server) result" where
  "game3_postinit hmac parse config hs =
     rmap (\<lambda>ci. (ci, register_post (game3_handle hmac parse ci) hs)) (game3_config config)"

definition game3_cleanup ::
  "(string \<Rightarrow> string \<Rightarrow> string) \<Rightarrow> (string \<Rightarrow> json option) \<Rightarrow> game3ci \<Rightarrow> (string list, 'v) http_server
   \<Rightarrow> (string list, 'v) http_server" where
  "game3_cleanup hmac parse ci = unregister_post (game3_handle hmac parse ci)"

section \<open>The build\<close>

text \<open>A command that throws ends the job with the exception, which the pool does not catch.\<close>

datatype build_result =
    PullFailed | CheckoutFailed | BuildFailed | NoWork | LinuxFailed | WindowsFailed | Published | JobThrew exn

type_synonym 's shell = "string list \<Rightarrow> 's \<Rightarrow> 's \<times> command_output result"

definition ci_run :: "'s shell \<Rightarrow> string list \<Rightarrow> 's \<Rightarrow> build_result \<Rightarrow> (string \<Rightarrow> 's \<Rightarrow> 's \<times> build_result) \<Rightarrow> 's \<times> build_result" where
  "ci_run shell command s failure next =
     (case shell command s of
        (s', Inl e) \<Rightarrow> (s', JobThrew e)
      | (s', Inr output) \<Rightarrow> if co_code output \<noteq> 0 then (s', failure) else next (co_out output) s')"

definition makeJob :: "'s shell \<Rightarrow> game3ci \<Rightarrow> string \<Rightarrow> 's \<Rightarrow> 's \<times> build_result" where
  "makeJob shell ci commit_hash s =
     (let build_dir = g3_builddir ci; repo_root = g3_repoRoot ci in
      ci_run shell [''git'', ''-C'', build_dir, ''pull'', ''origin'', ''master''] s PullFailed (\<lambda>_ s.
      ci_run shell [''git'', ''-C'', build_dir, ''checkout'', commit_hash] s CheckoutFailed (\<lambda>_ s.
      ci_run shell [''ninja'', ''-C'', build_dir] s BuildFailed (\<lambda>out s.
      if \<not> g3_force ci \<and> find_str (''ninja: no work to do.'' @ [CHR 0x0A]) out \<noteq> None then (s, NoWork)
      else ci_run shell [repo_root @ ''/linzip.sh'', repo_root, build_dir, ''publish''] s LinuxFailed (\<lambda>_ s.
        if g3_quasiMsys2 ci \<noteq> []
        then ci_run shell [repo_root @ ''/quasi_msys2.sh'', repo_root, g3_quasiMsys2 ci, ''publish''] s WindowsFailed (\<lambda>_ s.
          (s, Published))
        else (s, Published))))))"

section \<open>The hook, verified\<close>

lemma compare_loop_count:
  "length one = length two \<Longrightarrow>
   compare_loop one two n = n - int (length one) + 2 * int (length (filter (\<lambda>(a, b). a \<noteq> b) (zip one two)))"
  by (induction one two n rule: compare_loop.induct) auto

text \<open>The comparison without early exit accepts equal strings only.\<close>

lemma compareHMAC_equal: "length one = length two \<Longrightarrow> compareHMAC one two = Inr (one = two)"
proof -
  assume len: "length one = length two"
  have "filter (\<lambda>(a, b). a \<noteq> b) (zip one two) = [] \<longleftrightarrow> one = two"
    using len by (induction one two rule: list_induct2) auto
  then show ?thesis using len by (simp add: compareHMAC_def compare_loop_count)
qed

lemma nibble_char_not_NUL: "n < 16 \<Longrightarrow> nibble_char n \<noteq> CHR 0x00"
  by (auto simp: nibble_char_def split: if_splits dest!: arg_cong [where f = "of_char :: char \<Rightarrow> nat"])

lemma hexString_no_NUL: "CHR 0x00 \<notin> set (hexString s)"
proof -
  have "nibble_char (ord c div 16) \<noteq> CHR 0x00" "nibble_char (ord c mod 16) \<noteq> CHR 0x00" for c
    using ord_less [of c] by (intro nibble_char_not_NUL, simp)+
  then show ?thesis by (auto simp: hexString_def dest: sym)
qed

text \<open>Filling up a signature that is too short does not make it match.\<close>

lemma str_resize_hexString:
  "str_resize (length (hexString m)) s = hexString m \<longleftrightarrow> take (length (hexString m)) s = hexString m"
proof
  assume eq: "str_resize (length (hexString m)) s = hexString m"
  have "replicate (length (hexString m) - length s) (CHR 0x00) = []"
  proof (rule ccontr)
    assume "replicate (length (hexString m) - length s) (CHR 0x00) \<noteq> []"
    then have "CHR 0x00 \<in> set (str_resize (length (hexString m)) s)" by (simp add: str_resize_def)
    with eq hexString_no_NUL show False by metis
  qed
  with eq show "take (length (hexString m)) s = hexString m" by (simp add: str_resize_def)
next
  assume eq: "take (length (hexString m)) s = hexString m"
  then have "length (hexString m) \<le> length s" by (metis length_take min.absorb_iff2 min.commute)
  with eq show "str_resize (length (hexString m)) s = hexString m" by (simp add: str_resize_def)
qed

text \<open>A request that is signed with the plugin's secret.\<close>

definition signed_hook :: "(string \<Rightarrow> string \<Rightarrow> string) \<Rightarrow> game3ci \<Rightarrow> request \<Rightarrow> bool" where
  "signed_hook hmac ci req \<longleftrightarrow>
     rq_path req = ''/ci/hook'' \<and> getHeader req ''content-type'' = ''application/json''
     \<and> 7 \<le> length (getHeader req ''x-hub-signature-256'')
     \<and> take (length (hexString (hmac (g3_secret ci) (rq_content req)))) (drop 7 (getHeader req ''x-hub-signature-256''))
         = hexString (hmac (g3_secret ci) (rq_content req))"

lemma hook_reply_world [simp]: "ha_world (hook_reply code content args) = ha_world args"
  by (simp add: hook_reply_def logged_def)

lemma length_str_resize [simp]: "length (str_resize n s) = n"
  by (simp add: str_resize_def)

lemma game3_signed:
  assumes "signed_hook hmac ci (ha_request args)"
  shows "game3_handle hmac parse ci args True =
    (case parse (rq_content (ha_request args)) of
       None \<Rightarrow> (hook_reply 400 ''Bad JSON'' args, Inr Kill)
     | Some json \<Rightarrow>
         (case schedule_build json args of
            Inl e \<Rightarrow> (args, Inl e)
          | Inr args' \<Rightarrow> (hook_reply 200 ''Thanks!'' args', Inr Approve)))"
  using assms
  by (simp add: game3_handle_def signed_hook_def Let_def compareHMAC_equal str_resize_hexString)

lemma game3_unsigned:
  assumes "\<not> signed_hook hmac ci (ha_request args) \<or> \<not> b"
  shows "ha_world (fst (game3_handle hmac parse ci args b)) = ha_world args"
    and "snd (game3_handle hmac parse ci args b) \<noteq> Inr Approve"
  using assms
  by (auto simp: game3_handle_def signed_hook_def Let_def compareHMAC_equal str_resize_hexString)

text \<open>
  (C12) Builds are queued by signed notifications only.  Whatever the request, the queue either stays
  as it is or gets one new build at its end; it gets one exactly when the handler is enabled, the
  request goes to the hook, is JSON, carries the hash-based authentication code of its body under
  the configured secret, and tells of a push to the master branch; the build is that of the commit
  the notification names.
\<close>

theorem game3_hook_authentic:
  assumes "game3_handle hmac parse ci args b = (args', res)"
  shows "(\<forall>h. ha_world args' = ha_world args @ [h] \<longleftrightarrow>
      b \<and> signed_hook hmac ci (ha_request args)
      \<and> (\<exists>json. parse (rq_content (ha_request args)) = Some json
          \<and> jfind json ''ref'' = Some (JString ''refs/heads/master'') \<and> jfind json ''after'' = Some (JString h)))
    \<and> (ha_world args' = ha_world args \<or> (\<exists>h. ha_world args' = ha_world args @ [h]) \<and> res = Inr Approve)"
proof (cases "b \<and> signed_hook hmac ci (ha_request args)")
  case False
  with game3_unsigned [of hmac ci args b parse] assms show ?thesis by auto
next
  case True
  then have "game3_handle hmac parse ci args True = (args', res)" using assms by simp
  with True show ?thesis
    by (auto simp: game3_signed schedule_build_def add_job_def mtq_push_def jstring_def
        split: option.splits if_splits json.splits sum.splits)
qed

definition toy_hook :: "string list handler_args" where
  "toy_hook = \<lparr>ha_client = new_client 3 ''::1'',
     ha_request = new_request\<lparr>rq_method := POST, rq_path := ''/ci/hook'', rq_headers :=
       [(''content-type'', ''application/json''), (''x-hub-signature-256'', ''sha256=4b78'')], rq_content := ''x''\<rparr>,
     ha_parts = [''ci'', ''hook''], ha_world = [''cafe''], ha_log = []\<rparr>"

definition toy_parse :: "string \<Rightarrow> json option" where
  "toy_parse s = Some (JObject [(''after'', JString ''f00d''), (''ref'', JString ''refs/heads/master'')])"

theorem game3_hook_authentic_witness:
  "ha_world (fst (game3_handle (@) toy_parse
     \<lparr>g3_repoRoot = ''r'', g3_builddir = ''b'', g3_secret = ''K'', g3_quasiMsys2 = [], g3_force = False\<rparr> toy_hook True))
   = [''cafe'', ''f00d'']"
proof -
  let ?ci = "\<lparr>g3_repoRoot = ''r'', g3_builddir = ''b'', g3_secret = ''K'', g3_quasiMsys2 = [], g3_force = False\<rparr>"
  obtain args' res where run: "game3_handle (@) toy_parse ?ci toy_hook True = (args', res)" by fastforce
  have "signed_hook (@) ?ci (ha_request toy_hook)"
    by (simp add: signed_hook_def toy_hook_def getHeader_def hexString_def nibble_char_def ord_def char_of_def bit_0)
  with game3_hook_authentic [OF run] have "ha_world args' = ha_world toy_hook @ [''f00d'']"
    by (auto simp: toy_parse_def jfind_def)
  with run show ?thesis by (simp add: toy_hook_def)
qed

text \<open>A request to the hook without a signature makes the handler throw; nothing on its way catches the exception.\<close>

lemma unsigned_hook_throws:
  assumes "rq_path (ha_request args) = ''/ci/hook''" and "getHeader (ha_request args) ''content-type'' = ''application/json''"
    and "map_of (rq_headers (ha_request args)) ''x-hub-signature-256'' = None"
  shows "game3_handle hmac parse ci args True = (args, Inl (OutOfRange ''substr''))"
  using assms by (simp add: game3_handle_def getHeader_def Let_def)

section \<open>The build, verified\<close>

text \<open>A shell that keeps a record of its commands and whether they succeeded.\<close>

definition succeeded :: "command_output result \<Rightarrow> bool" where
  "succeeded res = (case res of Inl _ \<Rightarrow> False | Inr output \<Rightarrow> co_code output = 0)"

definition traced :: "'s shell \<Rightarrow> ('s \<times> (string list \<times> bool) list) shell" where
  "traced shell command st =
     (case st of (s, log) \<Rightarrow> (case shell command s of (s', res) \<Rightarrow> ((s', log @ [(command, succeeded res)]), res)))"

definition build_plan :: "game3ci \<Rightarrow> string \<Rightarrow> string list list" where
  "build_plan ci h =
     [[''git'', ''-C'', g3_builddir ci, ''pull'', ''origin'', ''master''], [''git'', ''-C'', g3_builddir ci, ''checkout'', h],
      [''ninja'', ''-C'', g3_builddir ci], [g3_repoRoot ci @ ''/linzip.sh'', g3_repoRoot ci, g3_builddir ci, ''publish'']]
     @ (if g3_quasiMsys2 ci = [] then [] else [[g3_repoRoot ci @ ''/quasi_msys2.sh'', g3_repoRoot ci, g3_quasiMsys2 ci, ''publish'']])"

definition stopped :: "build_result \<Rightarrow> command_output result \<Rightarrow> build_result" where
  "stopped failure res = (case res of Inl e \<Rightarrow> JobThrew e | Inr _ \<Rightarrow> failure)"

lemma stopped_not_published [simp]: "failure \<noteq> Published \<Longrightarrow> stopped failure res \<noteq> Published"
  by (simp add: stopped_def split: sum.splits)

lemma ci_run_traced:
  "ci_run (traced shell) c (s, log) failure next =
     (case shell c s of (s', res) \<Rightarrow>
        if succeeded res then next (co_out (projr res)) (s', log @ [(c, True)])
        else ((s', log @ [(c, False)]), stopped failure res))"
  by (auto simp: ci_run_def traced_def succeeded_def stopped_def split: prod.splits sum.splits)

text \<open>
  The commands are run in the planned order up to the first that fails, and a commit counts as
  published only after all of them succeeded.
\<close>

lemma build_in_order:
  assumes "makeJob (traced shell) ci h (s, []) = ((s', log), res)"
  shows "map fst log = take (length log) (build_plan ci h)"
    and "\<forall>i < length log - 1. snd (log ! i)"
    and "res = Published \<longleftrightarrow> log = map (\<lambda>c. (c, True)) (build_plan ci h)"
proof -
  have "map fst log = take (length log) (build_plan ci h) \<and> (\<forall>i < length log - 1. snd (log ! i))
    \<and> (res = Published \<longleftrightarrow> log = map (\<lambda>c. (c, True)) (build_plan ci h))"
    using assms
    by (simp add: makeJob_def ci_run_traced build_plan_def Let_def split: prod.splits if_splits)
      (auto simp: nth_Cons split: nat.splits)
  then show "map fst log = take (length log) (build_plan ci h)" "\<forall>i < length log - 1. snd (log ! i)"
    "res = Published \<longleftrightarrow> log = map (\<lambda>c. (c, True)) (build_plan ci h)" by blast+
qed

end
