(* ===== verification/Setup.thy ===== *)
theory Setup
  imports Preprocessor Game3_Ci Net_Server
begin

text \<open>
  Setting up and taking down: the constructor of the HTTP server (\<open>src/src/http/Server.cpp\<close>), the file
  server's \<open>postinit\<close>, \<open>cleanup\<close> and \<open>compileObject\<close> (\<open>src/src/plugins/fileserv/Fileserv.cpp\<close>), the chess
  plugin's \<open>postinit\<close> and \<open>cleanup\<close> (\<open>src/src/plugins/probchess/ProbabilityChess.cpp\<close>), and \<open>makeName\<close>,
  \<open>run\<close> and the event callback of the connection server (\<open>src/src/net/Server.cpp\<close>).
\<close>

section \<open>The HTTP server\<close>

text \<open>\<open>std::filesystem::absolute\<close> of a text, in the working directory \<open>cwd\<close>.\<close>

definition absolute_path :: "path \<Rightarrow> string \<Rightarrow> path" where
  "absolute_path cwd p = (if p \<noteq> [] \<and> hd p = CHR ''/'' then path_names [] p else path_append cwd p)"

definition getWebRoot :: "path \<Rightarrow> string \<Rightarrow> path" where
  "getWebRoot cwd web_root = lexically_normal (absolute_path cwd (if web_root = [] then ''./www'' else web_root))"

text \<open>
  The constructor, as far as it sets fields of the model: the web root from the options and the
  configurations found below it.
\<close>

definition HTTP_Server ::
  "path \<Rightarrow> (path \<Rightarrow> string result) \<Rightarrow> (string \<Rightarrow> (string \<rightharpoonup> json) option) \<Rightarrow> (path \<Rightarrow> config_entry list) \<Rightarrow> json
   \<Rightarrow> ('w, json) http_server result" where
  "HTTP_Server cwd read parse tree options =
     rbind (case jfind options ''root'' of None \<Rightarrow> Inr [] | Some v \<Rightarrow> jstring v) (\<lambda>root_option.
       let webRoot = getWebRoot cwd root_option in
       rmap (\<lambda>configs. \<lparr>hs_webRoot = webRoot, hs_options = jfind options, hs_configs = configs, hs_getHandlers = [],
               hs_postHandlers = [], hs_webSocketConnectionHandlers = [], hs_webSocketMessageHandlers = Map.empty,
               hs_webSocketCloseHandlers = Map.empty\<rparr>)
         (crawlConfigs read parse webRoot (tree webRoot) Map.empty))"

text \<open>What the watcher's callback does for a file that was modified.\<close>

definition onModify ::
  "(path \<Rightarrow> string result) \<Rightarrow> (string \<Rightarrow> (string \<rightharpoonup> 'v) option) \<Rightarrow> path \<Rightarrow> ('w, 'v) http_server \<Rightarrow> ('w, 'v) http_server result" where
  "onModify read parse p hs = (if filename p = ''.algiz'' then addConfig read parse p hs else Inr hs)"

text \<open>The watcher's thread, by the outcomes of the runs of the watcher: how many runs it makes.\<close>

datatype watch_outcome = Stopped | WatchError string | OtherError

fun watch_loop :: "watch_outcome list \<Rightarrow> nat" where
  "watch_loop [] = 0"
| "watch_loop (Stopped # rest) = Suc (watch_loop rest)"
| "watch_loop (WatchError what # rest) =
     (if take (length ''select failed:'') what = ''select failed:'' then Suc (watch_loop rest) else 1)"
| "watch_loop (OtherError # rest) = 1"

lemma getWebRoot_normal: "normal (getWebRoot cwd root)"
  by (simp add: getWebRoot_def lexically_normal_normal)

text \<open>Whatever the configuration says, the web root has no dots in it, and other files do not change the options.\<close>

lemma HTTP_Server_root: "HTTP_Server cwd read parse tree options = Inr hs \<Longrightarrow> normal (hs_webRoot hs) \<and> hs_getHandlers hs = []"
  by (auto simp: HTTP_Server_def Let_def rbind_eq_Inr_iff rmap_eq_Inr_iff getWebRoot_normal)

section \<open>The file server\<close>

definition new_fileserv :: "defaults_config \<Rightarrow> fileserv \<times> module_cache" where
  "new_fileserv defaults = (\<lparr>fv_hostnames = None, fv_root = None, fv_enableModules = False, fv_defaults = defaults\<rparr>, new_cache 64)"

text \<open>
  The handlers refer to the plugin, so they are arguments; they are registered before the options
  are read, and an option of the wrong type leaves the rest unread.
\<close>

definition fileserv_options :: "(string \<Rightarrow> path result) \<Rightarrow> json \<Rightarrow> fileserv \<Rightarrow> fileserv \<times> unit result" where
  "fileserv_options canonical config fv =
     (case or_else (jfind config ''hosts'') (\<lambda>v. rmap Some (jstring_set v)) (fv_hostnames fv) of
        Inl e \<Rightarrow> (fv, Inl e)
      | Inr hosts \<Rightarrow>
          let fv = fv\<lparr>fv_hostnames := hosts\<rparr> in
          (case or_else (jfind config ''root'') (\<lambda>v. rmap Some (rbind (jstring v) canonical)) (fv_root fv) of
             Inl e \<Rightarrow> (fv, Inl e)
           | Inr root \<Rightarrow>
               let fv = fv\<lparr>fv_root := root\<rparr> in
               (case or_else (jfind config ''enableModules'') jbool (fv_enableModules fv) of
                  Inl e \<Rightarrow> (fv, Inl e)
                | Inr b \<Rightarrow> (fv\<lparr>fv_enableModules := b\<rparr>, Inr ()))))"

definition fileserv_postinit where
  "fileserv_postinit canonical config get post hs fv = (register_post post (register_get get hs), fileserv_options canonical config fv)"

definition fileserv_cleanup where
  "fileserv_cleanup get post hs = unregister_post post (unregister_get get hs)"

text \<open>
  \<open>compileObject\<close>: the temporary file, whether it could be made and written, and the shell are
  parameters; the result is the error text for the visitor, the files left behind and the outcome.
\<close>

record compile_env =
  co_temp :: "string option"
  co_written :: "string \<Rightarrow> bool"
  co_preprocess :: "string \<Rightarrow> string result"
  co_shell :: "string list \<Rightarrow> command_output result"
  co_error :: "exn \<Rightarrow> string"

definition run_compiler :: "compile_env \<Rightarrow> string \<Rightarrow> string \<Rightarrow> bool \<Rightarrow> string option \<times> string list \<times> unit result" where
  "run_compiler env source output preprocess =
     (let res = co_shell env [''c++'', ''-std=c++23'', ''-Iinclude'', ''-Isubprojects/wahtwo/include'', ''-g'', ''-fPIC'', source,
                  ''-shared'', ''-o'', output];
          temps = (if preprocess then [source] else [])
      in case res of
           Inl e \<Rightarrow> (None, temps, Inl e)
         | Inr res \<Rightarrow>
             if co_code res \<noteq> 0 \<or> co_signal res \<noteq> - 1
             then (if co_err res \<noteq> [] then Some (co_err res) else None, temps,
                   Inl (RuntimeError (''Failed to compile '' @ source @ '' to '' @ output)))
             else (None, [], Inr ()))"

definition compileObject :: "compile_env \<Rightarrow> string \<Rightarrow> string \<Rightarrow> bool \<Rightarrow> string option \<times> string list \<times> unit result" where
  "compileObject env source output preprocess =
     (if preprocess
      then case co_temp env of
             None \<Rightarrow> (None, [], Inl (RuntimeError ''Failed to make a temporary file for module preprocessing''))
           | Some temp \<Rightarrow>
               (case co_preprocess env source of
                  Inl e \<Rightarrow> (Some (co_error env e), [temp], Inl e)
                | Inr txt \<Rightarrow>
                    if \<not> co_written env txt
                    then (Some (''Couldn'' @ [CHR 0x27] @ ''t write preprocessed module''), [temp], Inl (RuntimeError (''Couldn'' @ [CHR 0x27] @ ''t write preprocessed module'')))
                    else run_compiler env temp output True)
      else run_compiler env source output False)"

text \<open>The temporary file is left behind exactly when the compilation of a page fails after it was made.\<close>

lemma compileObject_leftovers:
  assumes "compileObject env source output preprocess = (err, left, res)"
  shows "left = (if preprocess \<and> res \<noteq> Inr () then (case co_temp env of None \<Rightarrow> [] | Some temp \<Rightarrow> [temp]) else [])"
  using assms by (auto simp: compileObject_def run_compiler_def Let_def split: if_splits option.splits sum.splits)

text \<open>
  With the commands run by \<open>runCommand\<close>: an object is compiled exactly when the compiler ends with
  code 0, and what the compiler writes to its error stream is the text for the visitor.
\<close>

lemma compile_with_runCommand:
  assumes "kernel_ok os p" and "pr_fds p 1 \<noteq> None" and "pr_fds p 2 \<noteq> None"
    and "os_pipe os 0 \<noteq> None" "os_pipe os 1 \<noteq> None" "0 < os_fork os" "os_wait os = Inr (wait_status e)" "child_end_ok e"
    and shell: "\<And>command. returned (snd (runCommand os (hd command) (tl command) p)) = Some (co_shell env command)"
    and comp: "compileObject env source output False = (err, left, res)"
  shows "res = Inr () \<longleftrightarrow> e = Exited 0"
    and "res \<noteq> Inr () \<longrightarrow> err = (if os_left os 1 = [] then None else Some (os_left os 1))"
proof -
  have out: "co_shell env command = Inr \<lparr>co_out = os_left os 0, co_err = os_left os 1, co_code = end_code e, co_signal = end_signal e\<rparr>"
    for command
    using shell [of command] assms(4-8) run_parent_returns [OF kernel_ok_distinct(1) [OF assms(1)]]
    by (auto simp: runCommand_started command_output_of_end simp del: wait_status.simps)
  have "end_code e = 0 \<and> end_signal e = -1 \<longleftrightarrow> e = Exited 0"
    using assms(8) by (cases e) (auto simp: uint_0_iff)
  then show "res = Inr () \<longleftrightarrow> e = Exited 0"
    "res \<noteq> Inr () \<longrightarrow> err = (if os_left os 1 = [] then None else Some (os_left os 1))"
    using comp by (auto simp: compileObject_def run_compiler_def out Let_def split: if_splits)
qed

section \<open>The chess plugin\<close>

definition chess_postinit :: "'w ws_connection_args handler \<Rightarrow> ('w, 'v) http_server \<Rightarrow> ('w, 'v) http_server" where
  "chess_postinit h hs = hs\<lparr>hs_webSocketConnectionHandlers := hs_webSocketConnectionHandlers hs @ [Some h]\<rparr>"

definition chess_cleanup :: "'w ws_connection_args handler \<Rightarrow> ('w, 'v) http_server \<Rightarrow> ('w, 'v) http_server" where
  "chess_cleanup h hs =
     cleanWebSocketHandlers (hs\<lparr>hs_webSocketConnectionHandlers := fst (erase (hs_webSocketConnectionHandlers hs) (Some h))\<rparr>)"

section \<open>The connection server\<close>

datatype address_family = AF_INET | AF_INET6 | AF_other int

definition makeName :: "(address_family \<Rightarrow> string \<Rightarrow> bool) \<Rightarrow> address_family \<Rightarrow> string \<Rightarrow> unit result" where
  "makeName inet_pton af ip =
     (case af of
        AF_other n \<Rightarrow> Inl (InvalidArgument (''Unsupported or invalid address family: '' @ to_string_int n))
      | _ \<Rightarrow> if inet_pton af ip then Inr ()
             else Inl (InvalidArgument (''Couldn'' @ [CHR 0x27] @ ''t parse IP address '' @ [CHR 0x22] @ ip @ [CHR 0x22])))"

text \<open>
  \<open>run\<close> starts the thread that accepts connections before it makes the workers, so connections may
  arrive in between.  An exception in the callback of the listener ends the program.
\<close>

datatype run_event = MakeWorker | Connection descriptor

fun run_server :: "nat \<Rightarrow> run_event list \<Rightarrow> server \<Rightarrow> server result" where
  "run_server chunk [] s = Inr s"
| "run_server chunk (MakeWorker # events) s =
     run_server chunk events (if length (sv_workers s) < sv_threadCount s
       then s\<lparr>sv_workers := sv_workers s @ [new_worker chunk (length (sv_workers s))]\<rparr> else s)"
| "run_server chunk (Connection fd # events) s = rbind (listener_cb fd s) (run_server chunk events)"

definition BEV_EVENT_EOF :: "16 word" where "BEV_EVENT_EOF = 0x10"
definition BEV_EVENT_ERROR :: "16 word" where "BEV_EVENT_ERROR = 0x20"
definition BEV_EVENT_TIMEOUT :: "16 word" where "BEV_EVENT_TIMEOUT = 0x40"

unbundle bit_operations_syntax

definition conn_eventcb ::
  "'a remover \<Rightarrow> nat \<Rightarrow> bufferevent \<Rightarrow> 16 word \<Rightarrow> 'a server_scheme \<Rightarrow> 'a server_scheme \<times> unit result" where
  "conn_eventcb remove w be events s =
     (if events AND BEV_EVENT_EOF \<noteq> 0 then handleEOF remove w be s
      else if events AND (BEV_EVENT_ERROR OR BEV_EVENT_TIMEOUT) \<noteq> 0
      then (case server_remove remove be s of (s', res) \<Rightarrow> (s', rmap (\<lambda>_. ()) res))
      else (s, Inr ()))"

text \<open>A connection that arrives before its worker is made ends the program.\<close>

lemma early_connection_throws:
  "sv_threadCursor s = length (sv_workers s) \<Longrightarrow> run_server chunk (Connection fd # events) s = Inl (OutOfRange ''vector::at'')"
  by (simp add: listener_cb_def)

text \<open>When the workers are made first, connections are dealt out and never refused.\<close>

lemma late_connections_queued:
  assumes "length (sv_workers s) = sv_threadCount s" and "sv_threadCursor s < sv_threadCount s"
  shows "\<exists>s'. run_server chunk (map Connection fds) s = Inr s'"
  using assms
proof (induction fds arbitrary: s)
  case (Cons fd fds)
  let ?s = "(queueAccept (sv_threadCursor s) fd s)\<lparr>sv_threadCursor := (sv_threadCursor s + 1) mod sv_threadCount s\<rparr>"
  have "length (sv_workers ?s) = sv_threadCount ?s" "sv_threadCursor ?s < sv_threadCount ?s"
    using Cons.prems by (simp_all add: queueAccept_def update_worker_def)
  with Cons show ?case by (simp add: listener_cb_def)
qed simp

end
