(* ===== verification/Net_Life.thy ===== *)
theory Net_Life
  imports Setup Util_Misc Net_Read
begin

text \<open>
  The life of a connection server (\<open>src/src/net/Server.cpp\<close>, \<open>src/src/net/SSLServer.cpp\<close>): making the
  workers and the listener, running, stopping and destroying it, and the constructor of the TLS
  server.

  What libevent and OpenSSL answer is an argument.  The record \<open>net_life\<close> holds the fields of the
  server that are not tables: the pointer to the main event loop, which may dangle, the vector of
  workers (the objects themselves stay in \<open>sv_workers\<close> while a connection refers to them) and the
  number of threads.
\<close>

section \<open>Errors of libevent\<close>

record libevent =
  ev_base :: bool
  ev_signal_added :: bool
  ev_listener :: bool
  ev_accept_event :: bool
  ev_accept_added :: bool
  ev_errno :: int
  ev_strerror_r :: "int \<Rightarrow> bool \<times> string"

text \<open>
  \<open>if (!strerror_r(errno, error, sizeof(error)))\<close>: whether the value is zero, and the buffer afterwards
  (\<open>?\<close> if the function left it alone).
\<close>

definition with_errno :: "libevent \<Rightarrow> string \<Rightarrow> string" where
  "with_errno ev message =
     (case ev_strerror_r ev (ev_errno ev) of
        (True, _) \<Rightarrow> message @ '' ('' @ to_string_int (ev_errno ev) @ '')''
      | (False, buffer) \<Rightarrow> message @ '' ('' @ to_string_int (ev_errno ev) @ ''): '' @ buffer)"

definition couldnt :: "string \<Rightarrow> string" where
  "couldnt what = ''Couldn'' @ [CHR 0x27] @ ''t '' @ what"

section \<open>Messages\<close>

text \<open>\<open>handleMessage\<close>: before the handler is set, and after it was reset, messages are dropped.\<close>

definition handleMessage :: "message_handler option \<Rightarrow> message_handler" where
  "handleMessage messageHandler message client =
     (case messageHandler of None \<Rightarrow> (client, True, Inr ()) | Some handler \<Rightarrow> handler message client)"

lemma no_handler_drops: "handleMessage None = quiet_handler (\<lambda>m c. c)"
  by (simp add: fun_eq_iff handleMessage_def quiet_handler_def)

section \<open>Workers\<close>

text \<open>The constructor of a worker; the TLS worker inherits it.\<close>

definition Worker :: "libevent \<Rightarrow> nat \<Rightarrow> nat \<Rightarrow> worker result" where
  "Worker ev bufferSize i =
     (if \<not> ev_base ev then Inl (RuntimeError (couldnt ''allocate a new event_base''))
      else if \<not> ev_accept_event ev then Inl (RuntimeError (couldnt ''allocate acceptEvent''))
      else if \<not> ev_accept_added ev
      then Inl (RuntimeError
        (case ev_strerror_r ev (ev_errno ev) of
           (True, _) \<Rightarrow> couldnt ''add acceptEvent ('' @ to_string_int (ev_errno ev) @ '')''
         | (False, buffer) \<Rightarrow> couldnt ''add acceptEvent: '' @ buffer))
      else Inr (new_worker bufferSize i))"

definition makeWorker :: "libevent \<Rightarrow> nat \<Rightarrow> nat \<Rightarrow> worker result" where
  "makeWorker ev buffer_size i = Worker ev buffer_size i"

text \<open>Under POSIX \<open>strerror_r\<close> is 0 when it succeeds, so the text is used exactly when there is none.\<close>

lemma strerror_test_inverted:
  assumes "ev_base ev" "ev_accept_event ev" "\<not> ev_accept_added ev" and "ev_strerror_r ev (ev_errno ev) = (True, reason)"
  shows "Worker ev n i = Inl (RuntimeError (couldnt ''add acceptEvent ('' @ to_string_int (ev_errno ev) @ '')''))"
  using assms by (simp add: Worker_def)

section \<open>The main loop\<close>

datatype event_base = NoBase | LiveBase | FreedBase

record net_life =
  nl_base :: event_base
  nl_connected :: bool
  nl_workers :: "nat list"
  nl_threads :: nat

definition new_net_life :: net_life where
  "new_net_life = \<lparr>nl_base = NoBase, nl_connected = False, nl_workers = [], nl_threads = 0\<rparr>"

text \<open>
  \<open>mainLoop\<close>, run by the accepting thread; \<open>event_base_dispatch\<close> returns when the loop is broken.
  Where the listener fails the base is freed first.  The pointer is never reset.
\<close>

definition mainLoop :: "libevent \<Rightarrow> net_life \<Rightarrow> net_life \<times> unit result" where
  "mainLoop ev life =
     (if \<not> ev_base ev
      then (life\<lparr>nl_base := NoBase\<rparr>, Inl (RuntimeError (with_errno ev (couldnt ''initialize libevent''))))
      else let life = life\<lparr>nl_base := LiveBase\<rparr> in
        if \<not> ev_signal_added ev then (life, Inl (RuntimeError (couldnt ''ignore SIGPIPE on event_base'')))
        else if \<not> ev_listener ev
        then (life\<lparr>nl_base := FreedBase\<rparr>, Inl (RuntimeError (with_errno ev (couldnt ''initialize libevent listener''))))
        else (life\<lparr>nl_base := FreedBase\<rparr>, Inr ()))"

text \<open>
  \<open>stop\<close>: the loops that are told to end.  libevent accepts a null pointer; a dangling one is used.
\<close>

datatype stop_call = BreakMain | ExitWorker nat

definition stop :: "net_life \<Rightarrow> stop_call list result" where
  "stop life =
     (case nl_base life of
        FreedBase \<Rightarrow> Inl (UndefinedBehaviour ''event_base_loopbreak: use after free'')
      | _ \<Rightarrow> Inr (BreakMain # map ExitWorker (nl_workers life)))"

text \<open>
  \<open>run\<close>, from the call to its return: the workers are made one by one, then their loops and the main
  loop run until they are stopped, and the threads are joined.  An exception in the accepting thread
  ends the program, which is the outcome \<open>None\<close>.  One in the constructor of a worker leaves \<open>run\<close> with
  the threads that were started.
\<close>

fun make_workers :: "(nat \<Rightarrow> libevent) \<Rightarrow> nat \<Rightarrow> nat list \<Rightarrow> net_life \<Rightarrow> net_life \<times> unit result" where
  "make_workers evs chunk [] life = (life, Inr ())"
| "make_workers evs chunk (i # is) life =
     (case makeWorker (evs i) chunk i of
        Inl e \<Rightarrow> (life, Inl e)
      | Inr _ \<Rightarrow> make_workers evs chunk is (life\<lparr>nl_workers := nl_workers life @ [i], nl_threads := nl_threads life + 1\<rparr>))"

definition net_run ::
  "(address_family \<Rightarrow> string \<Rightarrow> bool) \<Rightarrow> libevent \<Rightarrow> (nat \<Rightarrow> libevent) \<Rightarrow> address_family \<Rightarrow> string \<Rightarrow> nat \<Rightarrow> nat
   \<Rightarrow> net_life \<Rightarrow> (net_life \<times> unit result) option" where
  "net_run inet_pton ev evs af ip threadCount chunk life =
     (if nl_threads life \<noteq> 0 then Some (life, Inl (RuntimeError ''Cannot run server: already running''))
      else let life = life\<lparr>nl_connected := True\<rparr> in
        case makeName inet_pton af ip of
          Inl e \<Rightarrow> Some (life, Inl e)
        | Inr _ \<Rightarrow>
            (case mainLoop ev life of
               (ended, Inl e) \<Rightarrow> None
             | (ended, Inr _) \<Rightarrow>
                 (case make_workers evs chunk [0..<threadCount] (life\<lparr>nl_base := LiveBase\<rparr>) of
                    (life, Inl e) \<Rightarrow> Some (life, Inl e)
                  | (life, Inr _) \<Rightarrow> Some (ended\<lparr>nl_threads := 0, nl_workers := []\<rparr>, Inr ()))))"

lemma make_workers_all:
  assumes "\<And>i. i \<in> set is \<Longrightarrow> \<exists>wk. makeWorker (evs i) chunk i = Inr wk"
  shows "make_workers evs chunk is life = (life\<lparr>nl_workers := nl_workers life @ is, nl_threads := nl_threads life + length is\<rparr>, Inr ())"
  using assms
proof (induction "is" arbitrary: life)
  case (Cons i "is")
  then obtain wk where "makeWorker (evs i) chunk i = Inr wk" by auto
  moreover have "make_workers evs chunk is life' = (life'\<lparr>nl_workers := nl_workers life' @ is, nl_threads := nl_threads life' + length is\<rparr>, Inr ())" for life'
    using Cons by simp
  ultimately show ?case by simp
qed simp

text \<open>
  A run that comes to its regular end leaves the pointer to the freed loop behind, so stopping the
  server again, as its destructor does, uses freed memory.
\<close>

lemma stop_after_run:
  assumes "net_run inet_pton ev evs af ip threadCount chunk life = Some (life', Inr ())"
  shows "stop life' = Inl (UndefinedBehaviour ''event_base_loopbreak: use after free'')"
  using assms
  by (auto simp: net_run_def mainLoop_def stop_def Let_def split: if_splits sum.splits prod.splits)

section \<open>The destructor\<close>

text \<open>
  \<open>while (!bufferEvents.empty()) remove(bufferEvents.begin()->second)\<close>: the map is ordered by descriptor.
  A \<open>remove\<close> that finds no worker would leave the loop running for ever.
\<close>

definition first_buffer :: "(descriptor \<rightharpoonup> bufferevent) \<Rightarrow> bufferevent" where
  "first_buffer m = the (m (Min (dom m)))"

partial_function (option) destroy_loop :: "'a remover \<Rightarrow> 'a server_scheme \<Rightarrow> ('a server_scheme \<times> unit result) option" where
  "destroy_loop remove s =
     (if dom (sv_bufferEvents s) = {} then Some (s, Inr ())
      else case server_remove remove (first_buffer (sv_bufferEvents s)) s of
        (s', Inl e) \<Rightarrow> Some (s', Inl e)
      | (s', Inr _) \<Rightarrow> destroy_loop remove s')"

definition destroy_server :: "'a remover \<Rightarrow> net_life \<Rightarrow> 'a server_scheme \<Rightarrow> ('a server_scheme \<times> stop_call list result) option" where
  "destroy_server remove life s =
     map_option (\<lambda>(s', res). (s', case res of Inl e \<Rightarrow> Inl e | Inr _ \<Rightarrow> stop life)) (destroy_loop remove s)"

lemma net_ok_finite:
  assumes "net_ok s"
  shows "finite (dom (sv_bufferEvents s))"
proof -
  note D = net_okD [OF assms]
  have "finite (dom (sv_descriptors s))"
    using D(7) by (metis finite_Un finite_atLeastAtMost_int)
  then have "finite (ran (sv_descriptors s))" by (rule finite_ran)
  moreover have "dom (sv_clients s) \<subseteq> ran (sv_descriptors s)"
    using D(1) by (auto simp: inverse_mapsD intro: ranI)
  ultimately show ?thesis using D(3) by (metis finite_subset)
qed

text \<open>Tables without buffers are empty, and every number is free.\<close>

lemma net_ok_empty:
  assumes "net_ok s" and "dom (sv_bufferEvents s) = {}"
  shows "sv_clients s = Map.empty" "sv_descriptors s = Map.empty" "sv_allClients s = Map.empty"
    "sv_bufferEventDescriptors s = Map.empty" "sv_workerMap s = Map.empty" "sv_freePool s = {0..sv_lastClient s}"
proof -
  note D = net_okD [OF assms(1)]
  show cl: "sv_clients s = Map.empty" using D(3) assms(2) by (metis dom_eq_empty_conv)
  show de: "sv_descriptors s = Map.empty" using D(1) cl by (auto simp: inverse_maps_def fun_eq_iff)
  then show "sv_allClients s = Map.empty" "sv_freePool s = {0..sv_lastClient s}" using D(5,7) by simp_all
  show "sv_bufferEventDescriptors s = Map.empty"
    using D(2) assms(2) by (auto simp: inverse_maps_def fun_eq_iff) (metis not_Some_eq)
  then show "sv_workerMap s = Map.empty" using D(4) by simp
qed

context connection_worker
begin

lemma destroy_loop_ends:
  assumes "net_ok s"
  shows "\<exists>s'. destroy_loop remove s = Some (s', Inr ()) \<and> net_ok s' \<and> dom (sv_bufferEvents s') = {}
    \<and> sv_lastClient s' = sv_lastClient s"
  using assms
proof (induction "card (dom (sv_bufferEvents s))" arbitrary: s rule: less_induct)
  case less
  note D = net_okD [OF less.prems] and fin = net_ok_finite [OF less.prems]
  show ?case
  proof (cases "dom (sv_bufferEvents s) = {}")
    case True
    with less.prems show ?thesis by (simp add: destroy_loop.simps)
  next
    case False
    define d where "d = Min (dom (sv_bufferEvents s))"
    have "d \<in> dom (sv_bufferEvents s)" using fin False unfolding d_def by (rule Min_in)
    then obtain b where b: "sv_bufferEvents s d = Some b" by blast
    then have first: "first_buffer (sv_bufferEvents s) = b" by (simp add: first_buffer_def d_def)
    have bed: "sv_bufferEventDescriptors s b = Some d" using b D(2) by (simp add: inverse_mapsD)
    then obtain w where w: "sv_workerMap s b = Some w" using D(4) by blast
    obtain c where c: "sv_clients s d = Some c" using D(3) b by blast
    obtain s1 where s1: "remove w b s = (s1, Inr ())" "taken_out c d b s s1"
      using remove_takes_out [OF less.prems bed c] by blast
    have "net_ok s1" by (rule taken_out_ok [OF less.prems c bed s1(2)])
    moreover have "card (dom (sv_bufferEvents s1)) < card (dom (sv_bufferEvents s))"
    proof -
      have "dom (sv_bufferEvents s1) = dom (sv_bufferEvents s) - {d}" using s1(2) by (auto simp: taken_out_def split: if_splits)
      then show ?thesis using fin b by (simp only: card_Diff1_less [OF _ domI])
    qed
    ultimately obtain s' where "destroy_loop remove s1 = Some (s', Inr ())" "net_ok s'" "dom (sv_bufferEvents s') = {}"
      "sv_lastClient s' = sv_lastClient s1" using less.hyps by blast
    with False first w s1 show ?thesis
      by (subst destroy_loop.simps) (simp add: server_remove_def taken_out_def)
  qed
qed

end



section \<open>The TLS server\<close>

text \<open>
  The constructor of the TLS server.  OpenSSL's answers are arguments; the state is the context: how
  often it was freed, whether the errors were printed and whether the callback is installed.
\<close>

record tls_library =
  tl_context :: bool
  tl_certificate :: "string \<Rightarrow> bool"
  tl_private_key :: "string \<Rightarrow> bool"
  tl_chain :: "string \<Rightarrow> bool"

record tls_context =
  tc_live :: bool
  tc_freed :: nat
  tc_printed :: bool
  tc_callback :: bool

definition SSL_CTX_free :: "tls_context \<Rightarrow> tls_context" where
  "SSL_CTX_free ctx = (if tc_live ctx then ctx\<lparr>tc_live := False, tc_freed := tc_freed ctx + 1\<rparr> else ctx)"

definition tls_problem :: "tls_library \<Rightarrow> string \<Rightarrow> string \<Rightarrow> string \<Rightarrow> string option" where
  "tls_problem tls cert key chain =
     (if \<not> tl_context tls then Some ''SSLServer OpenSSL context initialization failed''
      else if cert \<noteq> [] \<and> \<not> tl_certificate tls cert then Some ''SSLServer OpenSSL certificate initialization failed''
      else if key \<noteq> [] \<and> \<not> tl_private_key tls key then Some ''SSLServer OpenSSL private key initialization failed''
      else if chain \<noteq> [] \<and> \<not> tl_chain tls chain then Some ''SSLServer OpenSSL certificate chain initialization failed''
      else None)"

definition SSLServer ::
  "tls_library \<Rightarrow> string \<Rightarrow> string \<Rightarrow> string \<Rightarrow> nat \<Rightarrow> nat \<Rightarrow> tls_context \<times> ssl_server result" where
  "SSLServer tls cert key chain threadCount chunk =
     (let ctx = \<lparr>tc_live = False, tc_freed = 0, tc_printed = False, tc_callback = False\<rparr> in
      case new_server threadCount chunk of
        Inl e \<Rightarrow> (ctx, Inl e)
      | Inr base \<Rightarrow>
          (let ctx = ctx\<lparr>tc_live := tl_context tls\<rparr>;
               cleanup = Some (\<lambda>ctx. SSL_CTX_free (ctx\<lparr>tc_printed := True\<rparr>))
           in case tls_problem tls cert key chain of
             Some what \<Rightarrow> (defer_end cleanup ctx, Inl (RuntimeError what))
           | None \<Rightarrow>
               (defer_end (defer_release cleanup) (ctx\<lparr>tc_callback := True\<rparr>),
                Inr (server.extend base \<lparr>ss_ssls = Map.empty, ss_sslMutexes = {}\<rparr>))))"

definition destroy_ssl_server :: "tls_context \<Rightarrow> tls_context" where
  "destroy_ssl_server ctx = (if tc_live ctx then SSL_CTX_free ctx else ctx)"

text \<open>
  The context is freed exactly once: by the guard when the constructor throws, by the destructor
  of a server that was built, which has the callback for host names and consistent, empty tables.
\<close>

lemma SSLServer_context_freed_once:
  assumes "SSLServer tls cert key chain threadCount chunk = (ctx, res)" and "tl_context tls" and "0 < threadCount"
  shows "case res of
      Inl e \<Rightarrow> \<not> tc_live ctx \<and> tc_freed ctx = 1 \<and> tc_printed ctx \<and> tls_problem tls cert key chain \<noteq> None
    | Inr s \<Rightarrow> net_ok s \<and> tc_live ctx \<and> tc_callback ctx \<and> tc_freed ctx = 0 \<and> \<not> tc_printed ctx
        \<and> tc_freed (destroy_ssl_server ctx) = 1 \<and> \<not> tc_live (destroy_ssl_server ctx)"
proof -
  obtain base where base: "new_server threadCount chunk = Inr base" using assms(3) by (simp add: new_server_def)
  have "net_ok (server.extend base \<lparr>ss_ssls = Map.empty, ss_sslMutexes = {}\<rparr>)"
    using new_server_ok [OF base] unfolding net_ok_def server.defs by auto
  with assms base show ?thesis
    by (auto simp: SSLServer_def Let_def SSL_CTX_free_def destroy_ssl_server_def split: option.splits)
qed

end
