(* ===== verification/Fd_Stream.thy ===== *)
theory Fd_Stream
  imports Algiz_Prelude
begin

text \<open>
  Streams over descriptors (\<open>src/include/plugins/probchess/fdstream.h\<close>): an input buffer of ten
  characters, the first four of which hold characters that can be put back, and an unbuffered output.

  The descriptor is a parameter: for input the pieces successive calls of \<open>read\<close> give, an empty
  piece being the end or an error; for output the number \<open>write\<close> returns.  The pointers of the buffer are
  positions; \<open>get_char\<close> and \<open>unget_char\<close> are \<open>sbumpc\<close> and \<open>sungetc\<close> of the standard's \<open>streambuf\<close>.
\<close>

section \<open>Input\<close>

record ifdbuf =
  if_buffer :: string
  if_eback :: nat
  if_gptr :: nat
  if_egptr :: nat

type_synonym pieces_to_come = "string list"

definition new_ifdbuf :: "string \<Rightarrow> ifdbuf" where
  "new_ifdbuf garbage = \<lparr>if_buffer = garbage, if_eback = 4, if_gptr = 4, if_egptr = 4\<rparr>"

text \<open>\<open>read\<close> of at most \<open>n\<close> characters.\<close>

fun fd_read :: "nat \<Rightarrow> pieces_to_come \<Rightarrow> string \<times> pieces_to_come" where
  "fd_read n [] = ([], [])"
| "fd_read n (p # ps) = (if length p \<le> n then (p, ps) else (take n p, drop n p # ps))"

text \<open>\<open>memmove\<close> inside the buffer, and overwriting from a position on.\<close>

definition overwrite :: "nat \<Rightarrow> string \<Rightarrow> string \<Rightarrow> string" where
  "overwrite pos new buf = take pos buf @ new @ drop (pos + length new) buf"

definition underflow :: "ifdbuf \<Rightarrow> pieces_to_come \<Rightarrow> (ifdbuf \<times> pieces_to_come) \<times> char option" where
  "underflow b src =
     (if if_gptr b < if_egptr b then ((b, src), Some (if_buffer b ! if_gptr b))
      else
        let numPutback = min 4 (if_gptr b - if_eback b);
            b = b\<lparr>if_buffer := overwrite (4 - numPutback) (take numPutback (drop (if_gptr b - numPutback) (if_buffer b))) (if_buffer b)\<rparr>
        in case fd_read 6 src of
          ([], src) \<Rightarrow> ((b, src), None)
        | (new, src) \<Rightarrow>
            let b = b\<lparr>if_buffer := overwrite 4 new (if_buffer b), if_eback := 4 - numPutback, if_gptr := 4, if_egptr := 4 + length new\<rparr>
            in ((b, src), Some (if_buffer b ! 4)))"

definition get_char :: "ifdbuf \<Rightarrow> pieces_to_come \<Rightarrow> (ifdbuf \<times> pieces_to_come) \<times> char option" where
  "get_char b src =
     (case underflow b src of
        ((b, src), None) \<Rightarrow> ((b, src), None)
      | ((b, src), Some c) \<Rightarrow> ((b\<lparr>if_gptr := if_gptr b + 1\<rparr>, src), Some c))"

definition unget_char :: "ifdbuf \<Rightarrow> ifdbuf \<times> char option" where
  "unget_char b =
     (if if_eback b < if_gptr b then (b\<lparr>if_gptr := if_gptr b - 1\<rparr>, Some (if_buffer b ! (if_gptr b - 1)))
      else (b, None))"

section \<open>Output\<close>

text \<open>\<open>overflow\<close> for a character or the end mark, and \<open>xsputn\<close>: what reaches the descriptor, and the result.\<close>

definition overflow :: "(string \<Rightarrow> int) \<Rightarrow> char option \<Rightarrow> string \<times> char option" where
  "overflow write c =
     (case c of
        None \<Rightarrow> ([], None)
      | Some z \<Rightarrow> if write [z] \<noteq> 1 then ([], None) else ([z], Some z))"

definition xsputn :: "(string \<Rightarrow> int) \<Rightarrow> string \<Rightarrow> string \<times> int" where
  "xsputn write s = (let n = write s in (take (nat n) s, n))"

text \<open>A short write is not continued: the rest of the text is lost, and the caller sees the smaller number.\<close>

lemma xsputn_short:
  assumes "write s < int (length s)" and "s \<noteq> []"
  shows "length (fst (xsputn write s)) < length s"
proof -
  have "nat (write s) < length s" using assms by (cases "0 \<le> write s") (simp_all add: nat_less_iff)
  then show ?thesis by (simp add: xsputn_def Let_def)
qed

section \<open>Verified\<close>

text \<open>
  The invariant: \<open>seen\<close> are the characters read so far, \<open>ahead\<close> those in the buffer; what lies
  between the beginning of the buffer and the read position is the end of \<open>seen\<close>.
\<close>

definition between :: "nat \<Rightarrow> nat \<Rightarrow> string \<Rightarrow> string" where
  "between i j s = take (j - i) (drop i s)"

definition ifdbuf_ok :: "ifdbuf \<Rightarrow> string \<Rightarrow> string \<Rightarrow> bool" where
  "ifdbuf_ok b seen ahead \<longleftrightarrow>
     length (if_buffer b) = 10 \<and> if_eback b \<le> if_gptr b \<and> if_gptr b \<le> if_egptr b \<and> 4 \<le> if_egptr b \<and> if_egptr b \<le> 10
   \<and> (\<exists>lost. seen = lost @ between (if_eback b) (if_gptr b) (if_buffer b) \<and> (lost \<noteq> [] \<longrightarrow> 4 \<le> if_gptr b - if_eback b))
   \<and> ahead = between (if_gptr b) (if_egptr b) (if_buffer b)"

lemma new_ifdbuf_ok: "length garbage = 10 \<Longrightarrow> ifdbuf_ok (new_ifdbuf garbage) [] []"
  by (simp add: ifdbuf_ok_def new_ifdbuf_def between_def)

lemma between_Suc: "i \<le> j \<Longrightarrow> j < length s \<Longrightarrow> between i (Suc j) s = between i j s @ [s ! j]"
  by (simp add: between_def Suc_diff_le take_Suc_conv_app_nth)

lemma between_nth: "i < j \<Longrightarrow> j \<le> length s \<Longrightarrow> between i j s = s ! i # between (Suc i) j s"
  by (simp add: between_def Cons_nth_drop_Suc [symmetric] take_Cons' diff_Suc)

lemma length_between: "j \<le> length s \<Longrightarrow> length (between i j s) = j - i"
  by (simp add: between_def)

lemma between_suffix: "i \<le> k \<Longrightarrow> k \<le> j \<Longrightarrow> between i j s = between i k s @ between k j s"
proof -
  assume le: "i \<le> k" "k \<le> j"
  then have "j - i = (k - i) + (j - k)" "drop k s = drop (k - i) (drop i s)" by simp_all
  then show ?thesis by (simp add: between_def take_add)
qed

text \<open>What the descriptor still has to give.\<close>

definition available :: "pieces_to_come \<Rightarrow> string" where
  "available src = concat (takeWhile (\<lambda>p. p \<noteq> []) src)"

lemma fd_read_available:
  assumes "fd_read 6 src = (new, src')"
  shows "length new \<le> 6" and "new = [] \<longleftrightarrow> available src = []" and "new \<noteq> [] \<Longrightarrow> new @ available src' = available src"
proof -
  have "length new \<le> 6 \<and> (new = [] \<longleftrightarrow> available src = []) \<and> (new \<noteq> [] \<longrightarrow> new @ available src' = available src)"
  proof (cases src)
    case Nil
    with assms show ?thesis by (simp add: available_def)
  next
    case (Cons p ps)
    show ?thesis
    proof (cases "length p \<le> 6")
      case True
      with assms Cons show ?thesis by (auto simp: available_def)
    next
      case False
      then have "new = take 6 p" "src' = drop 6 p # ps" "drop 6 p \<noteq> []" "p \<noteq> []" using assms Cons by auto
      with Cons show ?thesis by (simp add: available_def)
    qed
  qed
  then show "length new \<le> 6" "new = [] \<longleftrightarrow> available src = []" "new \<noteq> [] \<Longrightarrow> new @ available src' = available src" by blast+
qed

text \<open>The buffer after the characters to put back were moved and new ones were read.\<close>

lemma refilled:
  assumes "length B = 10" and "n \<le> 4" and "length m = n" and "length new \<le> 6"
  shows "overwrite 4 new (overwrite (4 - n) m B) = take (4 - n) B @ m @ new @ drop (4 + length new) B"
  using assms by (simp add: overwrite_def add.commute)

lemma refilled_between:
  assumes "length B = 10" and "n \<le> 4" and "length m = n" and "length new \<le> 6"
  defines "B' \<equiv> take (4 - n) B @ m @ new @ drop (4 + length new) B"
  shows "length B' = 10" "between (4 - n) 4 B' = m" "between 4 (4 + length new) B' = new"
  using assms by (simp_all add: between_def)

lemma ifdbuf_okI:
  assumes "length B = 10" "between (4 - n) 4 B = m" "between 4 (4 + length new) B = new" "length new \<le> 6"
    and "seen = lost @ m" and "lost \<noteq> [] \<longrightarrow> n = 4"
  shows "ifdbuf_ok (b\<lparr>if_buffer := B, if_eback := 4 - n, if_gptr := 4, if_egptr := 4 + length new\<rparr>) seen new"
  using assms by (auto simp: ifdbuf_ok_def)

lemma underflow_refills:
  assumes ok: "ifdbuf_ok b seen []" and new: "fd_read 6 src = (new, src')" "new \<noteq> []"
  shows "\<exists>b'. underflow b src = ((b', src'), Some (hd new)) \<and> ifdbuf_ok b' seen new \<and> if_gptr b' < if_egptr b'
    \<and> if_buffer b' ! if_gptr b' = hd new"
proof -
  let ?n = "min 4 (if_gptr b - if_eback b)"
  let ?m = "between (if_gptr b - ?n) (if_gptr b) (if_buffer b)"
  let ?B = "take (4 - ?n) (if_buffer b) @ ?m @ new @ drop (4 + length new) (if_buffer b)"
  let ?b = "b\<lparr>if_buffer := ?B, if_eback := 4 - ?n, if_gptr := 4, if_egptr := 4 + length new\<rparr>"
  obtain lost where lost: "seen = lost @ between (if_eback b) (if_gptr b) (if_buffer b)"
    "lost \<noteq> [] \<longrightarrow> 4 \<le> if_gptr b - if_eback b" using ok unfolding ifdbuf_ok_def by blast
  have shape: "length (if_buffer b) = 10" "if_eback b \<le> if_gptr b" "if_gptr b = if_egptr b" "4 \<le> if_gptr b" "if_gptr b \<le> 10"
    using ok length_between [of "if_egptr b" "if_buffer b" "if_gptr b"] by (auto simp: ifdbuf_ok_def)
  have m: "length ?m = ?n" using shape by (subst length_between) simp_all
  have six: "length new \<le> 6" using fd_read_available(1) [OF new(1)] .
  note re = refilled [OF shape(1) _ m six] and rb = refilled_between [OF shape(1) _ m six]
  have n4: "?n \<le> 4" by simp
  have moved: "take ?n (drop (if_gptr b - ?n) (if_buffer b)) = ?m" using shape(2) by (simp add: between_def)
  have first: "?B ! 4 = hd new" using m shape(1) new(2) not_less [THEN iffD2, OF diff_le_self, of 4 ?n]
    by (cases new) (simp_all add: nth_append)
  have "underflow b src = ((?b, src'), Some (hd new))"
    using new shape(3) re [OF n4] first by (cases new) (simp_all add: underflow_def Let_def moved [unfolded shape(3)])
  moreover have "ifdbuf_ok ?b seen new"
  proof -
    have "seen = (lost @ between (if_eback b) (if_gptr b - ?n) (if_buffer b)) @ ?m"
      using lost(1) shape(2) between_suffix [of "if_eback b" "if_gptr b - ?n" "if_gptr b" "if_buffer b"] by simp
    moreover have "lost @ between (if_eback b) (if_gptr b - ?n) (if_buffer b) \<noteq> [] \<longrightarrow> ?n = 4"
      using lost(2) by (auto simp: between_def min_def)
    ultimately show ?thesis by (rule ifdbuf_okI [OF rb [OF n4] six])
  qed
  ultimately show ?thesis using first new(2) by (intro exI [of _ ?b]) simp
qed

lemma take_one:
  assumes ok: "ifdbuf_ok b seen ahead" and lt: "if_gptr b < if_egptr b"
  shows "\<exists>ahead'. ahead = if_buffer b ! if_gptr b # ahead'
    \<and> ifdbuf_ok (b\<lparr>if_gptr := if_gptr b + 1\<rparr>) (seen @ [if_buffer b ! if_gptr b]) ahead'"
proof -
  let ?c = "if_buffer b ! if_gptr b"
  obtain lost where lost: "seen = lost @ between (if_eback b) (if_gptr b) (if_buffer b)"
    "lost \<noteq> [] \<longrightarrow> 4 \<le> if_gptr b - if_eback b" using ok unfolding ifdbuf_ok_def by blast
  have shape: "length (if_buffer b) = 10" "if_eback b \<le> if_gptr b" "4 \<le> if_egptr b" "if_egptr b \<le> 10"
    "ahead = between (if_gptr b) (if_egptr b) (if_buffer b)"
    using ok by (simp_all add: ifdbuf_ok_def)
  have "ahead = ?c # between (Suc (if_gptr b)) (if_egptr b) (if_buffer b)"
    using between_nth [OF lt, of "if_buffer b"] shape by simp
  moreover have "seen @ [?c] = lost @ between (if_eback b) (Suc (if_gptr b)) (if_buffer b)"
    using lost(1) between_Suc [OF shape(2), of "if_buffer b"] shape(1,4) lt by simp
  moreover have "lost \<noteq> [] \<longrightarrow> 4 \<le> Suc (if_gptr b) - if_eback b" using lost(2) shape(2) by auto
  ultimately show ?thesis
    using shape(1-4) lt unfolding ifdbuf_ok_def by (intro exI conjI) simp_all
qed

text \<open>The next character is the next one of the descriptor, however its pieces fall.\<close>

lemma get_char_next:
  assumes ok: "ifdbuf_ok b seen ahead" and rest: "ahead @ available src = c # rest"
  shows "\<exists>b' src' ahead'. get_char b src = ((b', src'), Some c) \<and> ifdbuf_ok b' (seen @ [c]) ahead'
    \<and> ahead' @ available src' = rest"
proof (cases "if_gptr b < if_egptr b")
  case True
  then have "underflow b src = ((b, src), Some (if_buffer b ! if_gptr b))" by (simp add: underflow_def)
  with take_one [OF ok True] rest show ?thesis by (auto simp: get_char_def)
next
  case False
  then have none: "ahead = []" using ok by (auto simp: ifdbuf_ok_def between_def)
  obtain new src' where new: "fd_read 6 src = (new, src')" by fastforce
  note avail = fd_read_available [OF new]
  have "new \<noteq> []" using avail(2) rest none by auto
  from underflow_refills [OF ok [unfolded none] new this] obtain b' where b':
    "underflow b src = ((b', src'), Some (hd new))" "ifdbuf_ok b' seen new" "if_gptr b' < if_egptr b'"
    "if_buffer b' ! if_gptr b' = hd new" by blast
  have "new @ available src' = c # rest" using avail(3) [OF \<open>new \<noteq> []\<close>] rest none by simp
  then obtain tail where tail: "new = c # tail" "tail @ available src' = rest" using \<open>new \<noteq> []\<close> by (cases new) auto
  with take_one [OF b'(2,3)] b'(1,4) show ?thesis by (auto simp: get_char_def)
qed

lemma get_char_end:
  assumes ok: "ifdbuf_ok b seen ahead" and "ahead @ available src = []"
  shows "snd (get_char b src) = None"
proof -
  obtain new src' where new: "fd_read 6 src = (new, src')" by fastforce
  have "new = []" "ahead = []" using fd_read_available(2) [OF new] assms(2) by simp_all
  moreover have "\<not> if_gptr b < if_egptr b"
    using ok \<open>ahead = []\<close> length_between [of "if_egptr b" "if_buffer b" "if_gptr b"] by (auto simp: ifdbuf_ok_def)
  ultimately show ?thesis using new by (simp add: get_char_def underflow_def Let_def)
qed

text \<open>At most so many characters, and so many put back.\<close>

fun get_chars :: "nat \<Rightarrow> ifdbuf \<Rightarrow> pieces_to_come \<Rightarrow> (ifdbuf \<times> pieces_to_come) \<times> string" where
  "get_chars 0 b src = ((b, src), [])"
| "get_chars (Suc n) b src =
     (case get_char b src of
        (st, None) \<Rightarrow> (st, [])
      | ((b, src), Some c) \<Rightarrow> (case get_chars n b src of (st, cs) \<Rightarrow> (st, c # cs)))"

fun unget_chars :: "nat \<Rightarrow> ifdbuf \<Rightarrow> string" where
  "unget_chars 0 b = []"
| "unget_chars (Suc n) b = (case unget_char b of (b, None) \<Rightarrow> [] | (b, Some c) \<Rightarrow> c # unget_chars n b)"

lemma get_chars_all:
  assumes "ifdbuf_ok b seen ahead"
  shows "snd (get_chars n b src) = take n (ahead @ available src)
    \<and> (n \<le> length (ahead @ available src) \<longrightarrow>
        (\<exists>ahead'. ifdbuf_ok (fst (fst (get_chars n b src))) (seen @ take n (ahead @ available src)) ahead'))"
  using assms
proof (induction n arbitrary: b src seen ahead)
  case (Suc n)
  show ?case
  proof (cases "ahead @ available src")
    case Nil
    with get_char_end [OF Suc.prems Nil] show ?thesis by (auto split: prod.splits option.splits)
  next
    case (Cons c rest)
    from get_char_next [OF Suc.prems Cons] obtain b' src' ahead' where st:
      "get_char b src = ((b', src'), Some c)" "ifdbuf_ok b' (seen @ [c]) ahead'" "ahead' @ available src' = rest" by blast
    obtain b'' src'' cs where cs: "get_chars n b' src' = ((b'', src''), cs)" by (metis prod.exhaust)
    from Suc.IH [OF st(2), of src'] st(1,3) Cons cs show ?thesis by simp
  qed
qed (auto intro: exI)

lemma unget_chars_between:
  assumes "k \<le> if_gptr b - if_eback b" and "if_gptr b \<le> length (if_buffer b)"
  shows "unget_chars k b = rev (between (if_gptr b - k) (if_gptr b) (if_buffer b))"
  using assms
proof (induction k arbitrary: b)
  case (Suc k)
  let ?b = "b\<lparr>if_gptr := if_gptr b - 1\<rparr>"
  have "unget_chars k ?b = rev (between (if_gptr ?b - k) (if_gptr ?b) (if_buffer ?b))"
    using Suc.prems by (intro Suc.IH) simp_all
  moreover have "between (if_gptr b - Suc k) (Suc (if_gptr b - 1)) (if_buffer b)
      = between (if_gptr b - Suc k) (if_gptr b - 1) (if_buffer b) @ [if_buffer b ! (if_gptr b - 1)]"
    using Suc.prems by (intro between_Suc) simp_all
  ultimately show ?case using Suc.prems by (simp add: unget_char_def)
qed (simp add: between_def)

text \<open>
  Reading gives the characters of the descriptor in order, whatever pieces they come in, and up to
  four of the characters just read can be put back, last one first.
\<close>

lemma ifdstream_correct:
  assumes "length garbage = 10" and "n \<le> length (available src)" and "k \<le> min 4 n"
    and "get_chars n (new_ifdbuf garbage) src = ((b, src'), cs)"
  shows "cs = take n (available src)" and "unget_chars k b = take k (rev cs)"
proof -
  note all = get_chars_all [OF new_ifdbuf_ok [OF assms(1)], of n src]
  then show cs: "cs = take n (available src)" using assms(4) by simp
  obtain ahead where ok: "ifdbuf_ok b cs ahead" using all assms(2,4) cs by auto
  then obtain lost where lost: "cs = lost @ between (if_eback b) (if_gptr b) (if_buffer b)"
    "lost \<noteq> [] \<longrightarrow> 4 \<le> if_gptr b - if_eback b" and gp: "if_eback b \<le> if_gptr b" "if_gptr b \<le> length (if_buffer b)"
    unfolding ifdbuf_ok_def by auto
  have "length cs = n" using cs assms(2) by simp
  then have k: "k \<le> if_gptr b - if_eback b"
    using lost assms(3) length_between [OF gp(2), of "if_eback b"] by (cases "lost = []") auto
  have "cs = (lost @ between (if_eback b) (if_gptr b - k) (if_buffer b)) @ between (if_gptr b - k) (if_gptr b) (if_buffer b)"
    using lost(1) between_suffix [of "if_eback b" "if_gptr b - k" "if_gptr b" "if_buffer b"] k gp by simp
  moreover have "length (between (if_gptr b - k) (if_gptr b) (if_buffer b)) = k"
    using length_between [OF gp(2), of "if_gptr b - k"] k by simp
  ultimately have "take k (rev cs) = rev (between (if_gptr b - k) (if_gptr b) (if_buffer b))" by simp
  then show "unget_chars k b = take k (rev cs)" using unget_chars_between [OF k gp(2)] by simp
qed

text \<open>
  After the end was met this is no longer so: the characters were moved but the pointers were not, so
  of two characters put back the second can be wrong.
\<close>

lemma end_corrupts_putback:
  "snd (get_chars 7 (new_ifdbuf ''..........'') [''abcdef'', ''g'']) = ''abcdefg''
   \<and> unget_chars 2 (fst (fst (get_chars 7 (new_ifdbuf ''..........'') [''abcdef'', ''g'']))) = ''gf''
   \<and> unget_chars 2 (fst (fst (get_chars 8 (new_ifdbuf ''..........'') [''abcdef'', ''g'']))) = ''gg''"
  by code_simp

end
