(* ===== verification/Spec2Isabelle.thy ===== *)
theory Spec2Isabelle
  imports Site Chess_Fen Chess_Game Thread_Pool Event_Loop Lockable Core Tls_Certs Ansuz Net_Life Fd_Stream
begin

text \<open>
  Verification of algiz, an HTTP, HTTPS and WebSocket server whose behaviour is made of plugins.

  \<^bold>\<open>The program.\<close>  \<open>main\<close> reads a JSON configuration, and \<open>Core::run\<close> builds one plain and one TLS
  server from it, loads their plugins and initialises them.  A \<open>Server\<close> accepts connections and deals
  them out to worker threads; a worker reads a connection, cuts the bytes into messages and hands
  them to the client object.  The client parses requests or WebSocket frames and calls the HTTP
  server, which runs the chain of handlers the plugins have registered; their answers are written
  back to the connection.  Plugins serve files, run a chess game over WebSockets, answer certificate
  challenges, build software on a web hook, administer the server, and do small things.

  \<^bold>\<open>The theories.\<close>  Each models the files it names, definition by definition and with their names;
  state is a record with the fields of the class, errors are values of the sum type \<open>result\<close>, whose
  left side is the exception that was thrown or \<open>UndefinedBehaviour\<close> where C++ defines none.

  \<^item> \<open>Algiz_Prelude\<close>: exceptions, machine integers, searching in strings, and \<open>std::map\<close> as an ordered
    association list behind the locale \<open>std_map\<close>.
  \<^item> \<open>Util_Strings\<close> (\<open>src/src/util/Util.cpp\<close>): splitting, number parsing, percent decoding and the
    escape functions, against reference definitions without positions; the locales \<open>char_escaper\<close> and
    \<open>decodable_escaper\<close> carry the escape functions.  \<open>Base64\<close> (\<open>util/Base64.cpp\<close>) and \<open>Mime\<close>
    (\<open>util/MIME.cpp\<close>).  \<open>Json_Value\<close>: the accessors of \<open>nlohmann::json\<close>.
  \<^item> \<open>Http_Response\<close> and \<open>Http_Request\<close> (\<open>http/Response.cpp\<close>, \<open>http/Request.cpp\<close>): the text of a response
    can be read back; heads, parameters, ranges, bodies in pieces and basic authentication are
    parsed to what was sent.
  \<^item> \<open>Http_Client\<close> (\<open>http/Client.cpp\<close>): requests and RFC 6455 frames; messages are reassembled however
    the stream is cut, protocol violations are refused.
  \<^item> \<open>Fs_Util\<close> (\<open>util/FS.cpp\<close>): paths, the sub-path test, reading and permissions over a file system
    that is a parameter.  \<open>Plugin_Host\<close> (\<open>PluginHost.cpp\<close>): handler chains and the life of plugins.
  \<^item> \<open>Net_Server\<close> and \<open>Net_Read\<close> (\<open>net/Server.cpp\<close>, \<open>net/SSLServer.cpp\<close>): the tables of connections as
    a step relation with its invariant, closing after flushing, and the reading loop; the locale
    \<open>connection_worker\<close> is the contract the plain and the TLS worker share.
  \<^item> \<open>Http_Server\<close> (\<open>http/Server.cpp\<close>): dispatch, the WebSocket handshake, options by directory.
  \<^item> \<open>Module_Cache\<close> and \<open>Fileserv\<close> (\<open>plugins/fileserv\<close>): requests stay below the web root, protected
    files need their credentials, whole files and ranges are transferred exactly.  \<open>Preprocessor\<close>
    (\<open>Preprocessor.cpp\<close>): pages with code become modules.
  \<^item> \<open>Chess_Board\<close>, \<open>Chess_Match\<close> and \<open>Chess_Plugin\<close> (\<open>plugins/probchess\<close>): board, matches, dice, computer
    players and protocol; \<open>Chess_Fen\<close>, \<open>Chess_Moves\<close>, \<open>Chess_Players\<close>, \<open>Chess_Invariant\<close>,
    \<open>Chess_Reachable\<close>, \<open>Chess_Safety\<close> and \<open>Chess_Game\<close> hold their theorems: the moves of the pieces
    against a geometric description, the effect of a move, and an invariant of the tables of players
    and matches over every sequence of messages and disconnections.
  \<^item> \<open>Mt_Queue\<close> and \<open>Thread_Pool\<close> (\<open>threading\<close>): every access of the pool's threads and callers is a step,
    interleaved freely; the pool refines a board of jobs, each started at most once and in order.
    \<open>Event_Loop\<close> (\<open>EventLoop.cpp\<close>): the timer loop.  \<open>Lockable\<close> (\<open>Lockable.h\<close>): values with a mutex.
  \<^item> \<open>Geo_Ip\<close> (\<open>util/GeoIP.cpp\<close>, \<open>plugins/countryfilter\<close>), \<open>Small_Plugins\<close> (\<open>calculator\<close>, \<open>redirect\<close>,
    \<open>default404\<close>, \<open>logger\<close>, \<open>wsecho\<close>), \<open>Game3_Ci\<close>, \<open>Lets_Encrypt\<close> and \<open>Ansuz\<close>: the other plugins; the locale
    \<open>plain_plugin\<close> is what a chain relies on in a handler.
  \<^item> \<open>Tls_Certs\<close> (\<open>net/SSLServer.cpp\<close>): adding certificates and choosing one by the host's name; with
    \<open>Lets_Encrypt\<close>, a certificate on its way from the authority over the cache to the visitor.
  \<^item> \<open>Shell\<close> (\<open>util/Shell.cpp\<close>): running a command over a table of descriptors and the answers of the
    kernel, in the parent and in the child, with and without a time limit; the web hook and the
    compiler of pages are its callers.
  \<^item> \<open>Net_Life\<close> (\<open>net/Server.cpp\<close>, \<open>net/SSLServer.cpp\<close>): making workers and listener, running, stopping and
    destroying a server, and the TLS context with its scope guard.
  \<^item> \<open>Util_Misc\<close> (\<open>Defer.h\<close>, \<open>WeakCompare.h\<close>, \<open>util/Usage.cpp\<close>, \<open>util/Templates.cpp\<close>, \<open>util/SHA1.cpp\<close>, \<open>Log.h\<close>):
    small utilities.  \<open>Fd_Stream\<close> (\<open>probchess/fdstream.h\<close>): a buffered input that reads what its descriptor
    gives and lets four characters be put back.
  \<^item> \<open>Core\<close> (\<open>Core.cpp\<close>, \<open>main.cpp\<close>) and \<open>Setup\<close>: start-up, constructors, registration.  \<open>Site\<close>: the components together, from the bytes on a
    connection to the answer.

  \<^bold>\<open>Parameters.\<close>  What is not in the repository is an argument: the file system, users and groups, the
  dynamic linker, OpenSSL, clang's lexer, the JSON parser and printer, the template engine, the database
  of countries, the client of the certificate authority, the kernel's answers to system calls, dice, clocks, the order in which
  hashed containers give out their elements and the choices of the scheduler.  Theorems hold for all
  of them; where one is restricted, the restriction is a hypothesis and a witness instantiates it.

  \<^bold>\<open>Loops.\<close>  Loops that end are functions with a measure.  The splitting and the reading loop may run
  for ever on some arguments (an empty delimiter, a buffer of size 0), like the destructor's loop if a
  table were inconsistent, and are partial functions whose theorems show that they return otherwise.  The chess dice and the readings of the clock are lists
  consumed one by one; running out of them is a value of its own, and theorems that need a roll or a
  reading say so.  There is no other fuel.

  \<^bold>\<open>What the code does not do.\<close>  Where it misses its evident intention the definitions follow the code
  and lemmas state the consequence, among others: \<open>finished_request_replayed\<close>,
  \<open>oversized_piece_keeps_tail\<close>, \<open>ping_payload_leaks\<close>, \<open>max_line_size_use_after_free\<close>,
  \<open>lost_connection_stays_queued\<close>, \<open>reused_number_doubles_handlers\<close>, \<open>incomplete_credentials_open\<close>,
  \<open>suffix_range_undefined\<close>, \<open>roll_until_stuck\<close>, \<open>black_host_stuck\<close>, \<open>pool_strands_job\<close>,
  \<open>join_misses_thread\<close>, \<open>redirect_header_injection\<close>, \<open>unsigned_hook_throws\<close>, \<open>home_option_is_file\<close>,
  \<open>unterminated_code\<close>, \<open>early_connection_throws\<close>, \<open>crossed_assignments_deadlock\<close>,
  \<open>failed_exec_throws_in_child\<close>, \<open>running_child_reported_as_success\<close>, \<open>timer_writes_to_stdin\<close>,
  \<open>stop_after_run\<close>, \<open>end_corrupts_putback\<close>.

  \<^bold>\<open>Not modelled.\<close>  The inside of what the sources only call: sockets, libevent's dispatching, OpenSSL, the
  file watcher, clang and the template engine.  The branch of \<open>Usage.cpp\<close> for another system, the
  constants of \<open>Braille.h\<close>, declarations without bodies, and the operators that write the log to the error
  stream.
\<close>

end
